(* ===== verification/Encfs_Prelude.thy ===== *)
theory Encfs_Prelude
  imports Main "HOL-Library.Word"
begin

text \<open>
  Shared vocabulary of the development: the machine types of the C++ sources, the way a
  throwing and mutating member function is represented, byte buffers, and the generic
  list, option and word lemmas the component theories use.

  \<^item> \<open>unsigned char\<close>, \<open>unsigned int\<close> and \<open>uint64_t\<close> are words of width 8, 32 and 64.
    \<open>off_t\<close>, \<open>ssize_t\<close>, \<open>size_t\<close> and \<open>int\<close> used as a length or a file position are
    \<open>int\<close> or \<open>nat\<close>.
  \<^item> A member function that may throw and may change its object is a function from the
    object's state to a result and a new state (type \<open>io\<close>). The state comes back on the
    exceptional path too, because the callers catch the exception and go on using the object.
  \<^item> \<open>encfs::Error\<close> (thrown by \<open>rAssert\<close> and by \<open>throw Error(..)\<close>) is \<open>Error\<close>; a failing
    \<open>CHECK\<close> ends the process and is \<open>Fatal\<close>; a loop that runs out of the fuel given to
    the model is \<open>Diverged\<close>.
\<close>

unbundle bit_operations_syntax

section \<open>Machine types and buffers\<close>

type_synonym byte = "8 word"
type_synonym bytes = "8 word list"
type_synonym u32 = "32 word"
type_synonym u64 = "64 word"

text \<open>A C string literal as the bytes of a \<open>std::string\<close>.\<close>

definition str :: "string \<Rightarrow> bytes" where
  "str cs = map of_char cs"

datatype exn = Error string | Fatal string | Diverged

type_synonym ('s, 'a) io = "'s \<Rightarrow> (exn + 'a) \<times> 's"

named_theorems io_simps \<open>unfolding of the state and exception combinators\<close>
named_theorems buf_simps \<open>rewriting of byte buffers\<close>

definition io_return :: "'a \<Rightarrow> ('s, 'a) io" where
  "io_return x = (\<lambda>s. (Inr x, s))"

definition io_throw :: "exn \<Rightarrow> ('s, 'a) io" where
  "io_throw e = (\<lambda>s. (Inl e, s))"

definition io_bind :: "('s, 'a) io \<Rightarrow> ('a \<Rightarrow> ('s, 'b) io) \<Rightarrow> ('s, 'b) io" where
  "io_bind m k = (\<lambda>s. case m s of (Inl e, s') \<Rightarrow> (Inl e, s') | (Inr x, s') \<Rightarrow> k x s')"

text \<open>\<open>try { m } catch (encfs::Error &e) { h }\<close>: an abort is not caught.\<close>

definition io_catch :: "('s, 'a) io \<Rightarrow> (string \<Rightarrow> ('s, 'a) io) \<Rightarrow> ('s, 'a) io" where
  "io_catch m h = (\<lambda>s. case m s of (Inl (Error msg), s') \<Rightarrow> h msg s' | r \<Rightarrow> r)"

definition rAssert :: "bool \<Rightarrow> string \<Rightarrow> ('s, unit) io" where
  "rAssert b msg = (if b then io_return () else io_throw (Error msg))"

definition CHECK :: "bool \<Rightarrow> string \<Rightarrow> ('s, unit) io" where
  "CHECK b msg = (if b then io_return () else io_throw (Fatal msg))"

text \<open>Run an operation of a sub-object that is stored in a field of the state.\<close>

definition io_lift :: "('s \<Rightarrow> 'b) \<Rightarrow> ('b \<Rightarrow> 's \<Rightarrow> 's) \<Rightarrow> ('b, 'a) io \<Rightarrow> ('s, 'a) io" where
  "io_lift get_f put_f m = (\<lambda>s. case m (get_f s) of (r, b) \<Rightarrow> (r, put_f b s))"

definition io_get :: "('s \<Rightarrow> 'a) \<Rightarrow> ('s, 'a) io" where
  "io_get f = (\<lambda>s. (Inr (f s), s))"

definition io_modify :: "('s \<Rightarrow> 's) \<Rightarrow> ('s, unit) io" where
  "io_modify f = (\<lambda>s. (Inr (), f s))"

text \<open>A computation that may throw and touches no state.\<close>

definition io_of :: "exn + 'a \<Rightarrow> ('s, 'a) io" where
  "io_of r = (\<lambda>s. (r, s))"

lemma io_get_apply [io_simps]: "io_get f s = (Inr (f s), s)"
  by (simp add: io_get_def)

lemma io_modify_apply [io_simps]: "io_modify f s = (Inr (), f s)"
  by (simp add: io_modify_def)

lemma io_of_apply [io_simps]: "io_of r s = (r, s)"
  by (simp add: io_of_def)

lemma io_bind_return [simp]: "io_bind (io_return x) k = k x"
  by (simp add: io_bind_def io_return_def)

lemma io_bind_throw [simp]: "io_bind (io_throw e) k = io_throw e"
  by (simp add: io_bind_def io_throw_def)

lemma io_return_apply [io_simps]: "io_return x s = (Inr x, s)"
  by (simp add: io_return_def)

lemma io_throw_apply [io_simps]: "io_throw e s = (Inl e, s)"
  by (simp add: io_throw_def)

lemma io_bind_Inr [io_simps]: "m s = (Inr x, s') \<Longrightarrow> io_bind m k s = k x s'"
  by (simp add: io_bind_def)

lemma io_bind_Inl [io_simps]: "m s = (Inl e, s') \<Longrightarrow> io_bind m k s = (Inl e, s')"
  by (simp add: io_bind_def)

lemma io_bind_assoc: "io_bind (io_bind m f) g = io_bind m (\<lambda>x. io_bind (f x) g)"
  by (auto simp: io_bind_def fun_eq_iff split: prod.splits sum.splits)

lemma io_bind_split:
  "io_bind m k s = (case m s of (Inl e, s') \<Rightarrow> (Inl e, s') | (Inr x, s') \<Rightarrow> k x s')"
  by (simp add: io_bind_def)

lemma rAssert_simps [simp]:
  "rAssert True msg = io_return ()" "rAssert False msg = io_throw (Error msg)"
  by (simp_all add: rAssert_def)

lemma CHECK_simps [simp]:
  "CHECK True msg = io_return ()" "CHECK False msg = io_throw (Fatal msg)"
  by (simp_all add: CHECK_def)

lemma io_lift_apply [io_simps]: "m (g s) = (r, b) \<Longrightarrow> io_lift g p m s = (r, p b s)"
  by (simp add: io_lift_def)

section \<open>Byte buffers\<close>

text \<open>
  \<open>overlay off d buf\<close> is \<open>memcpy(buf + off, d, length d)\<close> on a growable buffer: a gap
  between the end of \<open>buf\<close> and \<open>off\<close> reads as zero, as it does in a sparse file.
\<close>

definition pad_to :: "nat \<Rightarrow> bytes \<Rightarrow> bytes" where
  "pad_to n buf = buf @ replicate (n - length buf) 0"

definition overlay :: "nat \<Rightarrow> bytes \<Rightarrow> bytes \<Rightarrow> bytes" where
  "overlay off d buf = take off (pad_to off buf) @ d @ drop (off + length d) buf"

lemma length_pad_to [simp]: "length (pad_to n buf) = max n (length buf)"
  by (simp add: pad_to_def)

lemma pad_to_id [simp]: "n \<le> length buf \<Longrightarrow> pad_to n buf = buf"
  by (simp add: pad_to_def)

lemma length_overlay [simp]: "length (overlay off d buf) = max (off + length d) (length buf)"
  by (simp add: overlay_def)

lemma overlay_0 [simp]: "overlay 0 d buf = d @ drop (length d) buf"
  by (simp add: overlay_def)

lemma overlay_inside:
  "off \<le> length buf \<Longrightarrow> overlay off d buf = take off buf @ d @ drop (off + length d) buf"
  by (simp add: overlay_def)

lemma overlay_append_end [simp]: "overlay (length buf) d buf = buf @ d"
  by (simp add: overlay_def)

lemma pad_to_nth: "i < length (pad_to n buf) \<Longrightarrow>
    pad_to n buf ! i = (if i < length buf then buf ! i else 0)"
  by (simp add: pad_to_def nth_append)

lemma overlay_nth:
  assumes "i < max (off + length d) (length buf)"
  shows "overlay off d buf ! i =
    (if off \<le> i \<and> i < off + length d then d ! (i - off)
     else if i < length buf then buf ! i else 0)"
  using assms by (auto simp: overlay_def nth_append pad_to_nth)

lemma overlay_slice [buf_simps]: "take (length d) (drop off (overlay off d buf)) = d"
  by (simp add: overlay_def)

lemma overlay_overlay_adjacent:
  "off \<le> length buf \<Longrightarrow> overlay (off + length a) b (overlay off a buf) = overlay off (a @ b) buf"
  by (simp add: overlay_inside ac_simps)

lemma overlay_Nil [simp]: "off \<le> length buf \<Longrightarrow> overlay off [] buf = buf"
  by (simp add: overlay_def)

section \<open>Bytes of a number\<close>

lemma low_byte: "(ucast (x AND 0xff) :: byte) = ucast x" for x :: "'a::len word"
proof -
  have m: "(0xff :: 'a word) = mask 8" by (simp add: mask_eq_exp_minus_1)
  show ?thesis unfolding m by (intro bit_word_eqI) (auto simp: bit_simps bit_imp_le_length)
qed

section \<open>Buffers by position\<close>

text \<open>
  The byte at a position, 0 behind the end. Two buffers of one length with the same bytes are
  equal, which reduces equations between overlapping copies to arithmetic on positions.
\<close>

definition getb :: "bytes \<Rightarrow> nat \<Rightarrow> byte" where
  "getb c i = (if i < length c then c ! i else 0)"

lemma getb_eqI: "length a = length b \<Longrightarrow> (\<And>i. getb a i = getb b i) \<Longrightarrow> a = b"
  by (rule nth_equalityI) (auto simp: getb_def, metis)

lemma getb_Nil: "getb [] i = 0"
  by (simp add: getb_def)

lemma getb_take: "getb (take n c) i = (if i < n then getb c i else 0)"
  by (simp add: getb_def)

lemma getb_drop: "getb (drop n c) i = getb c (n + i)"
  by (cases "n \<le> length c") (simp_all add: getb_def less_diff_conv add.commute)

lemma getb_append: "getb (a @ b) i = (if i < length a then getb a i else getb b (i - length a))"
  by (auto simp: getb_def nth_append)

lemma getb_replicate: "getb (replicate n 0) i = 0"
  by (simp add: getb_def)

lemma getb_pad_to: "getb (pad_to n c) i = getb c i"
  by (simp add: pad_to_def getb_append getb_replicate) (simp add: getb_def)

lemma getb_beyond: "length c \<le> i \<Longrightarrow> getb c i = 0"
  by (simp add: getb_def)

lemma getb_overlay:
  "getb (overlay off d c) i = (if off \<le> i \<and> i < off + length d then getb d (i - off) else getb c i)"
proof -
  consider "i < off" | "off \<le> i" "i < off + length d" | "off + length d \<le> i" by linarith
  then show ?thesis
    by cases (auto simp: overlay_def getb_append getb_take getb_pad_to getb_drop)
qed

lemmas getb_simps = getb_take getb_drop getb_append getb_replicate getb_pad_to getb_overlay getb_Nil

lemma overlay_pad_to:
  assumes "k \<le> off"
  shows "overlay off d (pad_to k c) = overlay off d c"
  using assms by (intro getb_eqI) (auto simp: getb_simps)

lemma overlay_overlay_part:
  assumes "o1 \<le> length c" "po + length d \<le> bs"
  shows "overlay o1 (overlay po d (take bs (drop o1 c))) c = overlay (o1 + po) d c"
proof (rule getb_eqI)
  show "length (overlay o1 (overlay po d (take bs (drop o1 c))) c) = length (overlay (o1 + po) d c)"
    using assms by (auto simp: max_def min_def)
next
  fix i
  show "getb (overlay o1 (overlay po d (take bs (drop o1 c))) c) i = getb (overlay (o1 + po) d c) i"
  proof (cases "o1 \<le> i")
    case True
    then obtain j where i: "i = o1 + j" using le_Suc_ex by blast
    have "getb c (o1 + j) = 0" if "length c - o1 \<le> j" using that assms(1) by (intro getb_beyond) simp
    then show ?thesis using assms by (auto simp: i getb_simps)
  qed (simp add: getb_simps)
qed

lemma overlay_padded_part:
  assumes "length c \<le> o1"
  shows "overlay o1 (replicate po 0 @ d) c = overlay (o1 + po) d c"
proof (rule getb_eqI)
  fix i
  have "getb c i = 0" if "o1 \<le> i" using that assms by (intro getb_beyond) simp
  then show "getb (overlay o1 (replicate po 0 @ d) c) i = getb (overlay (o1 + po) d c) i"
    by (auto simp: getb_simps)
qed simp

lemma overlay_append:
  "overlay (off + length a) b (overlay off a c) = overlay off (a @ b) c"
  by (rule getb_eqI) (auto simp: getb_simps)

end
