(* ===== verification/File_IO.thy ===== *)
theory File_IO
  imports Encfs_Prelude
begin

text \<open>
  The abstract class \<open>FileIO\<close> of \<^verbatim>\<open>encfs/FileIO.h\<close>: its virtual functions are the fields of
  the record \<open>fileio\<close>, over the state \<open>'s\<close> of the object. A layer of the stack (raw, cipher,
  MAC) is such a record, built from the record of the layer below it.

  A request is its offset and its length or data. \<open>read\<close> gives a negative error number
  (\<open>Inl\<close>) or the bytes that were put into the caller's buffer, whose number is the value the
  code returns; \<open>write\<close> gives that value.

  \<open>byte_file\<close> is the contract of a layer: the state represents a byte string, reading gives a
  part of it or an error, a write that does not report an error replaces a part of it, and the
  reported size is its length. A layer may promise this for some contents only: \<open>clear c\<close> says that
  \<open>c\<close> is one it can store. \<open>reliable_byte_file\<close> is the case where nothing fails.
\<close>

section \<open>The interface\<close>

text \<open>The fields of \<open>struct stat\<close> the code uses, with the Linux encoding of the file type.\<close>

record stat =
  st_mode :: u32
  st_size :: int
  st_ino :: u64
  st_gid :: int

definition S_ISREG :: "u32 \<Rightarrow> bool" where
  "S_ISREG m = (m AND 0xF000 = 0x8000)"

definition S_ISDIR :: "u32 \<Rightarrow> bool" where
  "S_ISDIR m = (m AND 0xF000 = 0x4000)"

text \<open>Error numbers and open flags of Linux.\<close>

definition EPERM :: int where "EPERM = 1"
definition ENOENT :: int where "ENOENT = 2"
definition EIO :: int where "EIO = 5"
definition EACCES :: int where "EACCES = 13"
definition EISDIR :: int where "EISDIR = 21"
definition EBADMSG :: int where "EBADMSG = 74"
definition O_RDONLY :: int where "O_RDONLY = 0"
definition O_WRONLY :: int where "O_WRONLY = 1"
definition O_RDWR :: int where "O_RDWR = 2"
definition O_LARGEFILE :: int where "O_LARGEFILE = 0x8000"

definition FileIO_blockSize :: nat where
  "FileIO_blockSize = 1"

definition FileIO_setIV :: "u64 \<Rightarrow> ('s, bool) io" where
  "FileIO_setIV iv = io_return True"

record 's fileio =
  fio_blockSize :: "'s \<Rightarrow> nat"
  fio_setFileName :: "bytes \<Rightarrow> 's \<Rightarrow> 's"
  fio_getFileName :: "'s \<Rightarrow> bytes"
  fio_setIV :: "u64 \<Rightarrow> ('s, bool) io"
  fio_open :: "int \<Rightarrow> ('s, int) io"
  fio_getAttr :: "('s, int + stat) io"
  fio_getSize :: "('s, int) io"
  fio_read :: "nat \<Rightarrow> nat \<Rightarrow> ('s, int + bytes) io"
  fio_write :: "nat \<Rightarrow> bytes \<Rightarrow> ('s, int) io"
  fio_truncate :: "nat \<Rightarrow> ('s, int) io"
  fio_isWritable :: "'s \<Rightarrow> bool"

text \<open>A call failed: it raised an exception or returned a negative value.\<close>

fun rd_failed :: "exn + (int + 'a) \<Rightarrow> bool" where
  "rd_failed (Inl _) = True"
| "rd_failed (Inr (Inl e)) = (e < 0)"
| "rd_failed (Inr (Inr _)) = False"

fun wr_failed :: "exn + int \<Rightarrow> bool" where
  "wr_failed (Inl _) = True"
| "wr_failed (Inr n) = (n < 0)"

lemma rd_failed_cases:
  assumes "rd_failed r"
  obtains (throws) ex where "r = Inl ex" | (err) e where "r = Inr (Inl e)" "e < 0"
  using assms by (cases r rule: rd_failed.cases) auto

section \<open>The contract\<close>

text \<open>
  \<open>holds c s\<close>: the state \<open>s\<close> represents the byte string \<open>c\<close>. \<open>faulty\<close> says whether calls may
  fail; what is proved with \<open>faulty\<close> true is "fails or is right", with \<open>faulty\<close> false it is
  "succeeds and is right". After a failed write nothing is promised of the content. A write is
  promised to succeed when the content it leads to is \<open>clear\<close>; a layer that stores everything
  has \<open>clear\<close> true throughout.
\<close>

locale byte_file =
  fixes fio :: "'s fileio" and faulty :: bool and holds :: "bytes \<Rightarrow> 's \<Rightarrow> bool" and clear :: "bytes \<Rightarrow> bool"
  assumes read_law: "holds c s \<Longrightarrow> fio_read fio off len s = (r, s') \<Longrightarrow>
      holds c s' \<and> fio_isWritable fio s' = fio_isWritable fio s \<and>
      (r = Inr (Inr (take len (drop off c))) \<or> faulty \<and> rd_failed r)"
    and write_law: "holds c s \<Longrightarrow> fio_isWritable fio s \<Longrightarrow> d \<noteq> [] \<Longrightarrow> clear (overlay off d c) \<Longrightarrow>
      fio_write fio off d s = (w, s') \<Longrightarrow>
      fio_isWritable fio s' \<and> (\<not> wr_failed w \<and> holds (overlay off d c) s' \<or> faulty \<and> wr_failed w)"
    and size_law: "holds c s \<Longrightarrow> fio_getSize fio s = (w, s') \<Longrightarrow>
      holds c s' \<and> fio_isWritable fio s' = fio_isWritable fio s \<and>
      (w = Inr (int (length c)) \<or> faulty \<and> wr_failed w)"

locale reliable_byte_file = byte_file fio False holds clear
  for fio :: "'s fileio" and holds :: "bytes \<Rightarrow> 's \<Rightarrow> bool" and clear :: "bytes \<Rightarrow> bool"
begin

lemma read_result:
  "holds c s \<Longrightarrow> \<exists>s'. fio_read fio off len s = (Inr (Inr (take len (drop off c))), s') \<and> holds c s'"
  using read_law [of c s off len] by (cases "fio_read fio off len s") auto

lemma write_result:
  assumes "holds c s" "fio_isWritable fio s" "d \<noteq> []" "clear (overlay off d c)"
  shows "\<exists>n s'. fio_write fio off d s = (Inr n, s') \<and> 0 \<le> n \<and> holds (overlay off d c) s' \<and> fio_isWritable fio s'"
  using write_law [OF assms]
  by (cases "fio_write fio off d s"; cases "fst (fio_write fio off d s)") auto

text \<open>What was written is what is read.\<close>

lemma write_then_read:
  assumes "holds c s" "fio_isWritable fio s" "d \<noteq> []" "clear (overlay off d c)"
  shows "\<exists>s'' s' n. fio_write fio off d s = (Inr n, s'') \<and> fio_read fio off (length d) s'' = (Inr (Inr d), s')"
proof -
  obtain n s'' where w: "fio_write fio off d s = (Inr n, s'')" "holds (overlay off d c) s''"
    using write_result [OF assms] by blast
  then show ?thesis using read_result [OF w(2), of off "length d"] by (auto simp: overlay_slice)
qed

end

section \<open>Sequences of requests\<close>

text \<open>
  A client issues reads, writes and size queries through \<open>FileNode\<close>. \<open>exec\<close> runs them on a layer
  and keeps what \<open>FileNode::read\<close>, \<open>FileNode::write\<close> and \<open>FileNode::getSize\<close> give back: of a write the
  number of bytes asked for, whatever larger number the layer reports for its headers, unless the
  layer reports an error. \<open>flat_exec\<close> is the specification, on one byte string.
\<close>

datatype fop = Read nat nat | Write nat bytes | Size
datatype fres = Data bytes | Written int | Length int | Failed

fun exec1 :: "'s fileio \<Rightarrow> fop \<Rightarrow> 's \<Rightarrow> fres \<times> 's" where
  "exec1 fio (Read off len) s =
     (case fio_read fio off len s of (Inr (Inr d), s') \<Rightarrow> (Data d, s') | (_, s') \<Rightarrow> (Failed, s'))"
| "exec1 fio (Write off d) s =
     (case fio_write fio off d s of (w, s') \<Rightarrow> (if wr_failed w then Failed else Written (int (length d)), s'))"
| "exec1 fio Size s =
     (case fio_getSize fio s of (Inr n, s') \<Rightarrow> (Length n, s') | (Inl e, s') \<Rightarrow> (Failed, s'))"

fun exec :: "'s fileio \<Rightarrow> fop list \<Rightarrow> 's \<Rightarrow> fres list \<times> 's" where
  "exec fio [] s = ([], s)"
| "exec fio (x # xs) s =
     (case exec1 fio x s of (r, s1) \<Rightarrow> case exec fio xs s1 of (rs, s2) \<Rightarrow> (r # rs, s2))"

fun flat_exec1 :: "fop \<Rightarrow> bytes \<Rightarrow> fres \<times> bytes" where
  "flat_exec1 (Read off len) c = (Data (take len (drop off c)), c)"
| "flat_exec1 (Write off d) c = (Written (int (length d)), overlay off d c)"
| "flat_exec1 Size c = (Length (int (length c)), c)"

fun flat_exec :: "fop list \<Rightarrow> bytes \<Rightarrow> fres list \<times> bytes" where
  "flat_exec [] c = ([], c)"
| "flat_exec (x # xs) c =
     (case flat_exec1 x c of (r, c1) \<Rightarrow> case flat_exec xs c1 of (rs, c2) \<Rightarrow> (r # rs, c2))"

text \<open>Requests to write nothing are excluded.\<close>

fun op_ok :: "fop \<Rightarrow> bool" where
  "op_ok (Write off d) = (d \<noteq> [])"
| "op_ok _ = True"

text \<open>Every content that the requests lead to satisfies \<open>P\<close>.\<close>

fun along :: "(bytes \<Rightarrow> bool) \<Rightarrow> fop list \<Rightarrow> bytes \<Rightarrow> bool" where
  "along P [] c = True"
| "along P (x # xs) c = (case flat_exec1 x c of (_, c1) \<Rightarrow> P c1 \<and> along P xs c1)"

lemma along_True: "(\<And>c. P c) \<Longrightarrow> along P xs c"
  by (induction xs arbitrary: c) (auto split: prod.splits)

lemma along_append: "along P (xs @ ys) c = (along P xs c \<and> along P ys (snd (flat_exec xs c)))"
  by (induction xs arbitrary: c) (auto split: prod.splits)

lemma along_mono: "along P xs c \<Longrightarrow> (\<And>c. P c \<Longrightarrow> Q c) \<Longrightarrow> along Q xs c"
  by (induction xs arbitrary: c) (auto split: prod.splits)

context reliable_byte_file
begin

lemma size_result:
  "holds c s \<Longrightarrow> \<exists>s'. fio_getSize fio s = (Inr (int (length c)), s') \<and> holds c s' \<and> fio_isWritable fio s' = fio_isWritable fio s"
  using size_law [of c s] by (cases "fio_getSize fio s") auto

lemma exec1_refines:
  assumes "holds c s" "fio_isWritable fio s" "op_ok x" "clear (snd (flat_exec1 x c))"
  shows "\<exists>s'. exec1 fio x s = (fst (flat_exec1 x c), s') \<and> holds (snd (flat_exec1 x c)) s' \<and> fio_isWritable fio s'"
proof (cases x)
  case (Read off len)
  then show ?thesis using assms read_law [OF assms(1), of off len] by (cases "fio_read fio off len s") auto
next
  case (Write off d)
  then have "d \<noteq> []" using assms(3) by simp
  from write_result [OF assms(1,2) this, of off] show ?thesis using Write assms(4) by auto
next
  case Size
  then show ?thesis using assms size_result [OF assms(1)] by auto
qed

lemma exec_refines:
  assumes "holds c s" "fio_isWritable fio s" "list_all op_ok xs" "along clear xs c"
  shows "\<exists>s'. exec fio xs s = (fst (flat_exec xs c), s') \<and> holds (snd (flat_exec xs c)) s' \<and> fio_isWritable fio s'"
  using assms
proof (induction xs arbitrary: c s)
  case (Cons x xs)
  obtain r c1 where f: "flat_exec1 x c = (r, c1)" by fastforce
  obtain s1 where one: "exec1 fio x s = (r, s1)" "holds c1 s1" "fio_isWritable fio s1"
    using exec1_refines [OF Cons.prems(1,2), of x] Cons.prems(3,4) f by auto
  obtain s2 where rest: "exec fio xs s1 = (fst (flat_exec xs c1), s2)" "holds (snd (flat_exec xs c1)) s2" "fio_isWritable fio s2"
    using Cons.IH [OF one(2,3)] Cons.prems(3,4) f by auto
  then show ?case using f one by (cases "flat_exec xs c1") simp
qed simp

end


end
