(* ===== verification/Block_File_IO.thy ===== *)
theory Block_File_IO
  imports File_IO
begin

text \<open>
  \<open>BlockFileIO\<close> of \<^verbatim>\<open>encfs/BlockFileIO.cpp\<close>: reads and writes of any size at any offset in
  terms of whole blocks, with a cache of the last block.

  \<^item> The object is the record \<open>blockfileio\<close>, which the classes derived from it extend. Of the
    cache \<open>IORequest _cache\<close> only the first \<open>dataLen\<close> bytes of the buffer are kept
    (\<open>bf_cache_data\<close>); an empty list is \<open>dataLen = 0\<close>.
  \<^item> The pure virtual functions are the record \<open>block_ops\<close>.
  \<^item> Temporary blocks of the memory pool are local variables.

  \<open>block_device\<close> is the contract of a derived class. From it the locale derives that \<open>read\<close>
  and \<open>write\<close> behave on the file's content as on one flat byte string, with the cache
  always equal to the block it stands for.
\<close>

section \<open>The code\<close>

record blockfileio =
  bf_blockSize :: nat
  bf_allowHoles :: bool
  bf_noCache :: bool
  bf_cache_offset :: nat
  bf_cache_data :: bytes

record 's block_ops =
  readOneBlock :: "nat \<Rightarrow> nat \<Rightarrow> ('s, int + bytes) io"
  writeOneBlock :: "nat \<Rightarrow> bytes \<Rightarrow> ('s, int) io"
  ops_getSize :: "('s, int) io"

definition clearCache :: "'x blockfileio_scheme \<Rightarrow> 'x blockfileio_scheme" where
  "clearCache s = s\<lparr>bf_cache_data := []\<rparr>"

text \<open>The constructor; \<open>CHECK(_blockSize > 1)\<close> ends the process.\<close>

definition BlockFileIO_new :: "nat \<Rightarrow> bool \<Rightarrow> bool \<Rightarrow> exn + blockfileio" where
  "BlockFileIO_new blockSize allowHoles noCache =
     (if blockSize > 1
      then Inr \<lparr>bf_blockSize = blockSize, bf_allowHoles = allowHoles, bf_noCache = noCache,
                bf_cache_offset = 0, bf_cache_data = []\<rparr>
      else Inl (Fatal ''_blockSize > 1''))"

definition cacheReadOneBlock ::
  "'x blockfileio_scheme block_ops \<Rightarrow> nat \<Rightarrow> nat \<Rightarrow> ('x blockfileio_scheme, int + bytes) io" where
  "cacheReadOneBlock ops off len = (\<lambda>s.
     if \<not> len \<le> bf_blockSize s then (Inl (Fatal ''req.dataLen <= _blockSize''), s)
     else if off mod bf_blockSize s \<noteq> 0 then (Inl (Fatal ''req.offset % _blockSize == 0''), s)
     else if \<not> bf_noCache s \<and> off = bf_cache_offset s \<and> bf_cache_data s \<noteq> []
     then (Inr (Inr (take len (bf_cache_data s))), s)
     else
       case readOneBlock ops off (bf_blockSize s) (clearCache s) of
         (Inr (Inr result), s') \<Rightarrow>
           (if result \<noteq> []
            then (Inr (Inr (take len result)), s'\<lparr>bf_cache_offset := off, bf_cache_data := result\<rparr>)
            else (Inr (Inr []), s'))
       | (Inr (Inl e), s') \<Rightarrow> (Inr (Inl e), s')
       | (Inl ex, s') \<Rightarrow> (Inl ex, s'))"

text \<open>
  The request is copied into the cache's buffer before it is written; an exception that passes
  through leaves it there under the old offset and length.
\<close>

definition cacheWriteOneBlock ::
  "'x blockfileio_scheme block_ops \<Rightarrow> nat \<Rightarrow> bytes \<Rightarrow> ('x blockfileio_scheme, int) io" where
  "cacheWriteOneBlock ops off d = (\<lambda>s.
     case writeOneBlock ops off d s of
       (Inr res, s') \<Rightarrow>
         (if res < 0 then (Inr res, clearCache s')
          else (Inr res, s'\<lparr>bf_cache_offset := off, bf_cache_data := d\<rparr>))
     | (Inl ex, s') \<Rightarrow>
         (Inl ex, s'\<lparr>bf_cache_data := take (length (bf_cache_data s')) (d @ drop (length d) (bf_cache_data s'))\<rparr>))"

text \<open>The \<open>while\<close> loop of \<open>read\<close>; \<open>out\<close> is what the loop has put into the caller's buffer.\<close>

function read_loop ::
  "'x blockfileio_scheme block_ops \<Rightarrow> nat \<Rightarrow> nat \<Rightarrow> nat \<Rightarrow> bytes \<Rightarrow> ('x blockfileio_scheme, int + bytes) io" where
  "read_loop ops len blockNum partialOffset out s =
     (if len = 0 then (Inr (Inr out), s)
      else case cacheReadOneBlock ops (blockNum * bf_blockSize s) (bf_blockSize s) s of
        (Inl ex, s') \<Rightarrow> (Inl ex, s')
      | (Inr (Inl e), s') \<Rightarrow> (Inr (Inl e), s')
      | (Inr (Inr rdata), s') \<Rightarrow>
          if length rdata \<le> partialOffset then (Inr (Inr out), s')
          else
            let cpySize = min (length rdata - partialOffset) len;
                out = out @ take cpySize (drop partialOffset rdata)
            in if length rdata < bf_blockSize s then (Inr (Inr out), s')
               else read_loop ops (len - cpySize) (Suc blockNum) 0 out s')"
  by pat_completeness auto
termination by (relation "measure (\<lambda>(ops, len, _). len)") auto

declare read_loop.simps [simp del]

definition block_read ::
  "'x blockfileio_scheme block_ops \<Rightarrow> nat \<Rightarrow> nat \<Rightarrow> ('x blockfileio_scheme, int + bytes) io" where
  "block_read ops off len = (\<lambda>s.
     if bf_blockSize s = 0 then (Inl (Fatal ''_blockSize != 0''), s)
     else let partialOffset = off mod bf_blockSize s; blockNum = off div bf_blockSize s in
       if partialOffset = 0 \<and> len \<le> bf_blockSize s then cacheReadOneBlock ops off len s
       else read_loop ops len blockNum partialOffset [] s)"

text \<open>Step 2 of \<open>padFile\<close>: \<open>n\<close> zero blocks from \<open>blk\<close> on, while nothing fails.\<close>

fun pad_zero_blocks ::
  "'x blockfileio_scheme block_ops \<Rightarrow> nat \<Rightarrow> nat \<Rightarrow> ('x blockfileio_scheme, int) io" where
  "pad_zero_blocks ops blk 0 s = (Inr 0, s)"
| "pad_zero_blocks ops blk (Suc n) s =
     (case cacheWriteOneBlock ops (blk * bf_blockSize s) (replicate (bf_blockSize s) 0) s of
        (Inr res, s') \<Rightarrow> if res < 0 then (Inr res, s') else pad_zero_blocks ops (Suc blk) n s'
      | (Inl ex, s') \<Rightarrow> (Inl ex, s'))"

text \<open>
  Read the first \<open>old\<close> bytes of a block into a zeroed buffer and write \<open>new\<close> bytes of the
  buffer back: how \<open>padFile\<close> extends the last block.
\<close>

definition pad_block ::
  "'x blockfileio_scheme block_ops \<Rightarrow> nat \<Rightarrow> nat \<Rightarrow> nat \<Rightarrow> ('x blockfileio_scheme, int) io" where
  "pad_block ops blk old new = (\<lambda>s.
     case cacheReadOneBlock ops (blk * bf_blockSize s) old s of
       (Inl ex, s') \<Rightarrow> (Inl ex, s')
     | (Inr (Inl e), s') \<Rightarrow> (Inr e, s')
     | (Inr (Inr d), s') \<Rightarrow>
         cacheWriteOneBlock ops (blk * bf_blockSize s) (d @ replicate (new - length d) 0) s')"

definition padFile ::
  "'x blockfileio_scheme block_ops \<Rightarrow> nat \<Rightarrow> nat \<Rightarrow> bool \<Rightarrow> ('x blockfileio_scheme, int) io" where
  "padFile ops oldSize newSize forceWrite = (\<lambda>s.
     let bs = bf_blockSize s;
         oldLastBlock = oldSize div bs;
         newLastBlock = newSize div bs;
         newBlockSize = newSize mod bs;
         finish = (\<lambda>(r, s). (case r of Inl ex \<Rightarrow> Inl ex | Inr res \<Rightarrow> Inr (if res < 0 then res else 0), s))
     in
     if oldLastBlock = newLastBlock then
       (if forceWrite \<and> newSize mod bs \<noteq> 0
        then finish (pad_block ops oldLastBlock (oldSize mod bs) (newSize mod bs) s)
        else (Inr 0, s))
     else
       let step1 = (if oldSize mod bs \<noteq> 0 then pad_block ops oldLastBlock (oldSize mod bs) bs s else (Inr 0, s));
           blk = (if oldSize mod bs \<noteq> 0 then Suc oldLastBlock else oldLastBlock)
       in case step1 of
            (Inl ex, s) \<Rightarrow> (Inl ex, s)
          | (Inr res, s) \<Rightarrow>
            if res < 0 then (Inr res, s)
            else (case (if \<not> bf_allowHoles s then pad_zero_blocks ops blk (newLastBlock - blk) s else (Inr 0, s)) of
                (Inl ex, s) \<Rightarrow> (Inl ex, s)
              | (Inr res, s) \<Rightarrow>
                  if res \<ge> 0 \<and> forceWrite \<and> newBlockSize \<noteq> 0
                  then finish (cacheWriteOneBlock ops (newLastBlock * bs) (replicate newBlockSize 0) s)
                  else finish (Inr res, s)))"

text \<open>
  The \<open>while\<close> loop of \<open>write\<close>. \<open>fileSize\<close> and the number of the last block that is not empty
  (which is -1 for an empty file) are those from before the request. The second test keeps
  the recursion well founded; the offset within a block is always below the block size.
\<close>

function write_loop ::
  "'x blockfileio_scheme block_ops \<Rightarrow> nat \<Rightarrow> int \<Rightarrow> nat \<Rightarrow> nat \<Rightarrow> bytes \<Rightarrow> ('x blockfileio_scheme, int) io" where
  "write_loop ops fileSize lastNonEmptyBlock blockNum partialOffset inp s =
     (if inp = [] then (Inr 0, s)
      else if partialOffset \<ge> bf_blockSize s then (Inl Diverged, s)
      else
        let bs = bf_blockSize s;
            off = blockNum * bs;
            toCopy = min (bs - partialOffset) (length inp);
            req =
              (if toCopy = bs \<or> partialOffset = 0 \<and> off + toCopy \<ge> fileSize then (Inr (Inr (take toCopy inp)), s)
               else if int blockNum > lastNonEmptyBlock
               then (Inr (Inr (replicate partialOffset 0 @ take toCopy inp)), s)
               else case cacheReadOneBlock ops off bs s of
                   (Inr (Inr d), s') \<Rightarrow> (Inr (Inr (overlay partialOffset (take toCopy inp) d)), s')
                 | r \<Rightarrow> r)
        in case req of
             (Inl ex, s') \<Rightarrow> (Inl ex, s')
           | (Inr (Inl e), s') \<Rightarrow> (Inr e, s')
           | (Inr (Inr blockData), s') \<Rightarrow>
               (case cacheWriteOneBlock ops off blockData s' of
                  (Inl ex, s'') \<Rightarrow> (Inl ex, s'')
                | (Inr res, s'') \<Rightarrow>
                    if res < 0 then (Inr res, s'')
                    else write_loop ops fileSize lastNonEmptyBlock (Suc blockNum) 0 (drop toCopy inp) s''))"
  by pat_completeness auto
termination
  by (relation "measure (\<lambda>(ops, fileSize, lneb, blockNum, po, inp, s). length inp)") auto

declare write_loop.simps [simp del]

definition block_write ::
  "'x blockfileio_scheme block_ops \<Rightarrow> nat \<Rightarrow> bytes \<Rightarrow> ('x blockfileio_scheme, int) io" where
  "block_write ops off d = (\<lambda>s.
     if bf_blockSize s = 0 then (Inl (Fatal ''_blockSize != 0''), s)
     else case ops_getSize ops s of
       (Inl ex, s) \<Rightarrow> (Inl ex, s)
     | (Inr fileSize, s) \<Rightarrow>
       if fileSize < 0 then (Inr fileSize, s)
       else
         let bs = bf_blockSize s;
             fileSize = nat fileSize;
             blockNum = off div bs;
             partialOffset = off mod bs;
             lastFileBlock = fileSize div bs;
             lastBlockSize = fileSize mod bs;
             lastNonEmptyBlock = (if lastBlockSize = 0 then int lastFileBlock - 1 else int lastFileBlock)
         in case (if off > fileSize then padFile ops fileSize off False s else (Inr 0, s)) of
              (Inl ex, s) \<Rightarrow> (Inl ex, s)
            | (Inr res, s) \<Rightarrow>
              if res < 0 then (Inr res, s)
              else if partialOffset = 0 \<and> length d \<le> bs \<and>
                      (length d = bs \<or> blockNum = lastFileBlock \<and> length d \<ge> lastBlockSize)
              then cacheWriteOneBlock ops off d s
              else (case write_loop ops fileSize lastNonEmptyBlock blockNum partialOffset d s of
                      (Inr res, s) \<Rightarrow> (Inr (if res < 0 then res else int (length d)), s)
                    | (Inl ex, s) \<Rightarrow> (Inl ex, s)))"

text \<open>
  \<open>truncateBase\<close>; \<open>base\<close> is the \<open>truncate\<close> of the file below, \<open>None\<close> for a null pointer. The
  size before is not checked for an error: with a negative one (error numbers are below the
  block size) \<open>padFile\<close> asks for a block part of negative length and its \<open>CHECK\<close> fails.
\<close>

definition truncateBase ::
  "'x blockfileio_scheme block_ops \<Rightarrow> nat \<Rightarrow> (nat \<Rightarrow> ('x blockfileio_scheme, int) io) option \<Rightarrow>
   ('x blockfileio_scheme, int) io" where
  "truncateBase ops sz base = (\<lambda>s.
     let bs = bf_blockSize s;
         partialBlock = sz mod bs;
         base_truncate = (case base of None \<Rightarrow> io_return 0 | Some t \<Rightarrow> t sz)
     in case ops_getSize ops s of
       (Inl ex, s) \<Rightarrow> (Inl ex, s)
     | (Inr oldSize, s) \<Rightarrow>
       if int sz > oldSize then
         io_bind base_truncate (\<lambda>res.
           if res \<noteq> 0 then io_return res
           else if oldSize < 0 then (if sz = 0 then io_return 0 else io_throw (Fatal ''req.dataLen <= _blockSize''))
           else padFile ops (nat oldSize) sz True) s
       else if int sz = oldSize then (Inr 0, s)
       else if partialBlock \<noteq> 0 then
         (case cacheReadOneBlock ops (sz div bs * bs) bs s of
            (Inl ex, s) \<Rightarrow> (Inl ex, s)
          | (Inr (Inl e), s) \<Rightarrow> (Inr e, s)
          | (Inr (Inr d), s) \<Rightarrow>
              io_bind base_truncate (\<lambda>res.
                if res = 0 then
                  io_bind (cacheWriteOneBlock ops (sz div bs * bs) (pad_to partialBlock (take partialBlock d)))
                    (\<lambda>writeSize. io_return (if writeSize < 0 then writeSize else 0))
                else io_return res) s)
       else base_truncate s)"

section \<open>Blocks of a file\<close>

definition blk :: "nat \<Rightarrow> nat \<Rightarrow> bytes \<Rightarrow> bytes" where
  "blk bs k c = take bs (drop (k * bs) c)"

lemma blk_overlay_same:
  "length d = bs \<or> length d < bs \<and> length c \<le> k * bs + length d \<Longrightarrow> blk bs k (overlay (k * bs) d c) = d"
  by (auto simp: blk_def overlay_def)

lemma blk_overlay_other:
  assumes "j \<noteq> k" "k * bs \<le> length c" "length d \<le> bs"
  shows "blk bs j (overlay (k * bs) d c) = blk bs j c"
proof (cases "j < k")
  case True
  then have "Suc j * bs \<le> k * bs" by (intro mult_le_mono1) simp
  then have le: "j * bs + bs \<le> k * bs" by simp
  show ?thesis
  proof (rule getb_eqI)
    show "length (blk bs j (overlay (k * bs) d c)) = length (blk bs j c)"
      using le assms by (auto simp: blk_def min_def max_def)
    show "getb (blk bs j (overlay (k * bs) d c)) i = getb (blk bs j c) i" for i
      using le by (auto simp: blk_def getb_simps)
  qed
next
  case False
  then have "Suc k * bs \<le> j * bs" using assms(1) by (intro mult_le_mono1) simp
  then have le: "k * bs + length d \<le> j * bs" using assms(3) by simp
  show ?thesis
  proof (rule getb_eqI)
    show "length (blk bs j (overlay (k * bs) d c)) = length (blk bs j c)"
      using le by (auto simp: blk_def min_def max_def)
    show "getb (blk bs j (overlay (k * bs) d c)) i = getb (blk bs j c) i" for i
      using le by (auto simp: blk_def getb_simps)
  qed
qed

text \<open>Behind the end of a file of whole blocks a write leaves blocks of zeros.\<close>

lemma blk_overlay_gap:
  assumes "j \<noteq> k" "bs dvd length c" "length d \<le> bs" "d \<noteq> []"
  shows "blk bs j (overlay (k * bs) d c) = (if length c \<le> j * bs \<and> j < k then replicate bs 0 else blk bs j c)"
proof (cases "length c \<le> j * bs \<and> j < k")
  case True
  then have "Suc j * bs \<le> k * bs" by (intro mult_le_mono1) simp
  then have le: "j * bs + bs \<le> k * bs" by simp
  have "blk bs j (overlay (k * bs) d c) = replicate bs 0"
  proof (rule getb_eqI)
    show "length (blk bs j (overlay (k * bs) d c)) = length (replicate bs (0 :: byte))" using le by (auto simp: blk_def)
    have "getb c (j * bs + i) = 0" for i using True by (intro getb_beyond) simp
    then show "getb (blk bs j (overlay (k * bs) d c)) i = getb (replicate bs 0) i" for i
      using le by (auto simp: blk_def getb_simps)
  qed
  then show ?thesis using True by simp
next
  case False
  show ?thesis
  proof (cases "k * bs \<le> length c")
    case True
    then show ?thesis unfolding if_not_P [OF False] by (rule blk_overlay_other [OF assms(1) _ assms(3)])
  next
    case beyond: False
    obtain q where q: "length c = q * bs" using assms(2) by (metis dvd_div_mult_self)
    then have qk: "q < k" using beyond by simp
    show ?thesis
    proof (cases "j < k")
      case True
      then have "j < q" using False q by (auto simp: not_le)
      then have "Suc j * bs \<le> q * bs" by (intro mult_le_mono1) simp
      then have le: "j * bs + bs \<le> length c" using q by simp
      moreover have "length c < k * bs" using beyond by simp
      ultimately have "blk bs j (overlay (k * bs) d c) = blk bs j c"
        by (intro getb_eqI) (auto simp: blk_def getb_simps min_def max_def)
      then show ?thesis unfolding if_not_P [OF False] .
    next
      case after: False
      then have "Suc k * bs \<le> j * bs" using assms(1) by (intro mult_le_mono1) simp
      then have "k * bs + length d \<le> j * bs" "length c \<le> j * bs" using assms(3) beyond by simp_all
      then show ?thesis unfolding if_not_P [OF False] by (simp add: blk_def)
    qed
  qed
qed

section \<open>The contract of a derived class\<close>

text \<open>The cache holds the block it says it holds.\<close>

definition coherent :: "bytes \<Rightarrow> 'x blockfileio_scheme \<Rightarrow> bool" where
  "coherent c s = (bf_cache_data s = [] \<or>
     bf_blockSize s dvd bf_cache_offset s \<and>
     bf_cache_data s = take (bf_blockSize s) (drop (bf_cache_offset s) c))"

text \<open>
  A block write replaces a whole block, or the end of the file. It starts inside the file or
  at its end, except that with holes it may leave out whole blocks, which then read as zeros.
  \<open>good d\<close> says that the class can store the block \<open>d\<close>. The file
  can store the contents all of whose blocks are good (\<open>clear\<close>).
\<close>

locale block_device =
  fixes ops :: "'x blockfileio_scheme block_ops" and bs :: nat and holes :: bool and faulty :: bool
    and holds :: "bytes \<Rightarrow> 'x blockfileio_scheme \<Rightarrow> bool" and writable :: "'x blockfileio_scheme \<Rightarrow> bool"
    and good :: "bytes \<Rightarrow> bool"
  assumes bs_gt_1: "1 < bs" and zero_good: "\<not> holes \<Longrightarrow> good (replicate bs 0)"
    and geometry: "holds c s \<Longrightarrow> bf_blockSize s = bs \<and> bf_allowHoles s = holes"
    and cache_frame: "holds c (s\<lparr>bf_cache_offset := x, bf_cache_data := y\<rparr>) = holds c s"
      "writable (s\<lparr>bf_cache_offset := x, bf_cache_data := y\<rparr>) = writable s"
    and read1: "holds c s \<Longrightarrow> bs dvd off \<Longrightarrow> readOneBlock ops off bs s = (r, s') \<Longrightarrow>
      holds c s' \<and> writable s' = writable s \<and>
      bf_cache_offset s' = bf_cache_offset s \<and> bf_cache_data s' = bf_cache_data s \<and>
      (r = Inr (Inr (take bs (drop off c))) \<or> faulty \<and> rd_failed r)"
    and write1: "holds c s \<Longrightarrow> writable s \<Longrightarrow> bs dvd off \<Longrightarrow>
      off \<le> length c \<or> holes \<and> bs dvd length c \<Longrightarrow> d \<noteq> [] \<Longrightarrow>
      length d = bs \<or> length d < bs \<and> length c \<le> off + length d \<Longrightarrow> good d \<Longrightarrow>
      writeOneBlock ops off d s = (w, s') \<Longrightarrow>
      writable s' \<and> (\<not> wr_failed w \<and> holds (overlay off d c) s' \<or> faulty \<and> wr_failed w)"
    and size1: "holds c s \<Longrightarrow> ops_getSize ops s = (w, s') \<Longrightarrow>
      holds c s' \<and> writable s' = writable s \<and>
      bf_cache_offset s' = bf_cache_offset s \<and> bf_cache_data s' = bf_cache_data s \<and>
      (w = Inr (int (length c)) \<or> faulty \<and> wr_failed w)"
begin

definition flat :: "bytes \<Rightarrow> 'x blockfileio_scheme \<Rightarrow> bool" where
  "flat c s = (holds c s \<and> coherent c s)"

definition clear :: "bytes \<Rightarrow> bool" where
  "clear c = (\<forall>k. good (blk bs k c))"

lemma cache_frame_simps [simp]:
  "holds c (s\<lparr>bf_cache_data := y\<rparr>) = holds c s" "holds c (s\<lparr>bf_cache_offset := x\<rparr>) = holds c s"
  "writable (s\<lparr>bf_cache_data := y\<rparr>) = writable s" "writable (s\<lparr>bf_cache_offset := x\<rparr>) = writable s"
  using cache_frame [where s = s and x = "bf_cache_offset s" and y = y]
    cache_frame [where s = s and x = x and y = "bf_cache_data s"] by simp_all

lemma flat_geometry:
  assumes "flat c s"
  shows "bf_blockSize s = bs" "bf_allowHoles s = holes"
  using assms geometry [of c s] by (simp_all add: flat_def)

subsection \<open>One block through the cache\<close>

lemma cacheReadOneBlock_law:
  assumes f: "flat c s" and off: "bs dvd off" and len: "len \<le> bs"
    and run: "cacheReadOneBlock ops off len s = (r, s')"
  shows "flat c s' \<and> writable s' = writable s \<and> (r = Inr (Inr (take len (drop off c))) \<or> faulty \<and> rd_failed r)"
proof -
  have bs: "bf_blockSize s = bs" and h: "holds c s" and coh: "coherent c s"
    using f flat_geometry [OF f] by (auto simp: flat_def)
  show ?thesis
  proof (cases "\<not> bf_noCache s \<and> off = bf_cache_offset s \<and> bf_cache_data s \<noteq> []")
    case True
    then show ?thesis using run f coh bs len off by (auto simp: cacheReadOneBlock_def coherent_def)
  next
    case False
    obtain r1 s1 where one: "readOneBlock ops off bs (clearCache s) = (r1, s1)" by fastforce
    have "holds c (clearCache s)" using h by (simp add: clearCache_def)
    note law = read1 [OF this off one]
    have c1: "coherent c s1" using law by (simp add: coherent_def clearCache_def)
    have b1: "bf_blockSize s1 = bs" using law geometry by blast
    have w1: "writable s1 = writable s" using law by (simp add: clearCache_def)
    have runs: "(r, s') = (case (r1, s1) of
         (Inr (Inr result), s') \<Rightarrow>
           (if result \<noteq> []
            then (Inr (Inr (take len result)), s'\<lparr>bf_cache_offset := off, bf_cache_data := result\<rparr>)
            else (Inr (Inr []), s'))
       | (Inr (Inl e), s') \<Rightarrow> (Inr (Inl e), s')
       | (Inl ex, s') \<Rightarrow> (Inl ex, s'))"
      using run False bs len off unfolding cacheReadOneBlock_def by (auto simp: one)
    show ?thesis
    proof (cases "rd_failed r1")
      case True
      then show ?thesis
        by (rule rd_failed_cases) (use runs law c1 w1 in \<open>simp_all add: flat_def\<close>)
    next
      case False
      then have "r1 = Inr (Inr (take bs (drop off c)))" using law by blast
      then show ?thesis
        using runs law c1 w1 b1 off len
        by (cases "take bs (drop off c) = []") (auto simp: flat_def coherent_def min_def)
    qed
  qed
qed

lemma cacheWriteOneBlock_law:
  assumes f: "flat c s" and w: "writable s" and off: "bs dvd off"
    and gap: "off \<le> length c \<or> holes \<and> bs dvd length c" and d: "d \<noteq> []"
    and end_or_full: "length d = bs \<or> length d < bs \<and> length c \<le> off + length d" and g: "good d"
    and run: "cacheWriteOneBlock ops off d s = (r, s')"
  shows "writable s' \<and> (\<not> wr_failed r \<and> flat (overlay off d c) s' \<or> faulty \<and> wr_failed r)"
proof -
  have h: "holds c s" using f by (simp add: flat_def)
  obtain r1 s1 where one: "writeOneBlock ops off d s = (r1, s1)" by fastforce
  note law = write1 [OF h w off gap d end_or_full g one]
  show ?thesis
  proof (cases "wr_failed r1")
    case True
    then show ?thesis
      using run law by (cases r1) (auto simp: cacheWriteOneBlock_def one clearCache_def)
  next
    case False
    then have new: "holds (overlay off d c) s1" using law by blast
    have "d = take bs (drop off (overlay off d c))"
      using end_or_full by (auto simp: overlay_def)
    then have "coherent (overlay off d c) (s1\<lparr>bf_cache_offset := off, bf_cache_data := d\<rparr>)"
      using geometry [OF new] off by (simp add: coherent_def)
    then show ?thesis
      using False run law new
      by (cases r1) (auto simp: cacheWriteOneBlock_def one flat_def split: if_splits)
  qed
qed

end

section \<open>Reading and writing the flat file\<close>

text \<open>Parts of a block are parts of the file.\<close>

lemma slice_in_block:
  "take n (drop po (take bs (drop o1 c))) = take (min (bs - po) n) (drop (o1 + po) c)"
  by (simp add: drop_take min.commute add.commute)

lemma short_block:
  "length (take bs (drop o1 c)) < bs \<Longrightarrow> drop po (take bs (drop o1 c)) = drop (o1 + po) c"
  by (simp add: min_def add.commute split: if_splits)

text \<open>Blocks of the content that a request leads to.\<close>

lemma last_block_padded:
  assumes "0 < bs" "old = length c div bs" "old < off div bs"
  shows "blk bs old (overlay off d c) = drop (old * bs) c @ replicate (bs - length c mod bs) 0"
proof -
  have "Suc old * bs \<le> off div bs * bs" using assms(3) by (intro mult_le_mono1) simp
  also have "\<dots> \<le> off" by simp
  finally have le: "old * bs + bs \<le> off" by simp
  have len: "length c = old * bs + length c mod bs" "length c mod bs < bs" using assms(1,2) by simp_all
  show ?thesis
  proof (rule getb_eqI)
    show "length (blk bs old (overlay off d c)) = length (drop (old * bs) c @ replicate (bs - length c mod bs) 0)"
      using le len by (auto simp: blk_def)
    have "getb c (old * bs + i) = 0" if "length c - old * bs \<le> i" for i using that len by (intro getb_beyond) simp
    moreover have "getb c (old * bs + i) = 0" if "bs \<le> i" for i using that len by (intro getb_beyond) simp
    ultimately show "getb (blk bs old (overlay off d c)) i = getb (drop (old * bs) c @ replicate (bs - length c mod bs) 0) i" for i
      using le by (auto simp: blk_def getb_simps)
  qed
qed

lemma first_block_final:
  assumes "n = min (bs - po) (length inp)" "po < bs" "bn * bs + po + n \<le> length c"
  shows "blk bs bn (overlay (bn * bs + po + n) (drop n inp) c) = blk bs bn c"
proof (cases "drop n inp = []")
  case False
  then have "n = bs - po" using assms(1) by auto
  then have pos: "bn * bs + po + n = bn * bs + bs" using assms(2) by simp
  show ?thesis using assms(3) unfolding pos by (simp add: blk_def overlay_inside drop_take)
qed (use assms(3) in simp)

lemma take_split: "take n xs = take (min m n) xs @ take (n - min m n) (drop m xs)"
  using take_add [of "min m n" "n - min m n" xs] by (cases "m \<le> n") (simp_all add: min_def)

context block_device
begin

subsection \<open>Reading\<close>

lemma read_loop_law:
  assumes "flat c s" "po < bs" "read_loop ops len bn po out s = (r, s')"
  shows "flat c s' \<and> writable s' = writable s \<and>
    (r = Inr (Inr (out @ take len (drop (bn * bs + po) c))) \<or> faulty \<and> rd_failed r)"
  using assms
proof (induction len arbitrary: bn po out s rule: less_induct)
  case (less len)
  have bs: "bf_blockSize s = bs" using less.prems(1) by (rule flat_geometry)
  note step = less.prems(3) [unfolded read_loop.simps [of ops len bn po out s]]
  obtain r1 s1 where one: "cacheReadOneBlock ops (bn * bs) bs s = (r1, s1)" by fastforce
  define d where "d = take bs (drop (bn * bs) c)"
  define n where "n = min (length d - po) len"
  have dl: "length d \<le> bs" by (simp add: d_def)
  have law: "flat c s1" "writable s1 = writable s" "r1 = Inr (Inr d) \<or> faulty \<and> rd_failed r1"
    using cacheReadOneBlock_law [OF less.prems(1) dvd_triv_right order.refl one] by (auto simp: d_def)
  have out': "out @ take n (drop po d) = out @ take (min (bs - po) len) (drop (bn * bs + po) c)"
    by (simp add: n_def d_def slice_in_block min_def)
  consider (zero) "len = 0" | (failed) "len \<noteq> 0" "faulty" "rd_failed r1"
    | (behind) "len \<noteq> 0" "r1 = Inr (Inr d)" "length d \<le> po"
    | (last) "len \<noteq> 0" "r1 = Inr (Inr d)" "po < length d" "length d < bs"
    | (full) "len \<noteq> 0" "r1 = Inr (Inr d)" "po < length d" "length d = bs"
    using law(3) dl by (cases "length d \<le> po"; cases "length d = bs") auto
  then show ?case
  proof cases
    case zero
    then show ?thesis using less.prems(1) step by simp
  next
    case failed
    show ?thesis using failed(3)
      by (rule rd_failed_cases) (use failed(1,2) step law in \<open>auto simp: bs one\<close>)
  next
    case behind
    then have "drop (bn * bs + po) c = []" using less.prems(2) by (auto simp: d_def)
    then show ?thesis using behind step law by (simp add: bs one)
  next
    case last
    have eq: "drop (bn * bs + po) c = drop po d" using last(4) unfolding d_def by (rule short_block [symmetric])
    have "out @ take n (drop po d) = out @ take len (drop (bn * bs + po) c)"
      unfolding eq by (simp add: n_def min_def)
    then show ?thesis using last step law by (auto simp: bs one Let_def n_def)
  next
    case full
    have run: "read_loop ops (len - n) (Suc bn) 0 (out @ take n (drop po d)) s1 = (r, s')"
      using full step by (simp add: bs one Let_def n_def)
    have n: "n = min (bs - po) len" using full by (simp add: n_def)
    have "flat c s' \<and> writable s' = writable s1 \<and>
        (r = Inr (Inr ((out @ take n (drop po d)) @ take (len - n) (drop (Suc bn * bs + 0) c))) \<or>
         faulty \<and> rd_failed r)"
      by (rule less.IH [OF _ law(1) _ run]) (use full less.prems(2) bs_gt_1 in \<open>auto simp: n\<close>)
    moreover have "drop (Suc bn * bs + 0) c = drop (bs - po) (drop (bn * bs + po) c)"
      using less.prems(2) by (simp add: add.commute)
    moreover note take_split [of len "drop (bn * bs + po) c" "bs - po"]
    ultimately show ?thesis using law(2) out' [unfolded n] by (simp add: n)
  qed
qed

lemma block_read_law:
  assumes "flat c s" "block_read ops off len s = (r, s')"
  shows "flat c s' \<and> writable s' = writable s \<and> (r = Inr (Inr (take len (drop off c))) \<or> faulty \<and> rd_failed r)"
proof -
  have bs: "bf_blockSize s = bs" "0 < bs" using flat_geometry(1) [OF assms(1)] bs_gt_1 by auto
  show ?thesis
  proof (cases "off mod bs = 0 \<and> len \<le> bs")
    case True
    then show ?thesis
      using assms cacheReadOneBlock_law [of c s off len r s'] bs by (auto simp: block_read_def mod_eq_0_iff_dvd)
  next
    case False
    have "read_loop ops len (off div bs) (off mod bs) [] s = (r, s')"
      using assms(2) False bs by (simp add: block_read_def Let_def)
    from read_loop_law [OF assms(1) _ this] show ?thesis using bs by simp
  qed
qed

end

context block_device
begin

subsection \<open>Padding\<close>

text \<open>Appending less than a block at the end, or a whole block behind it.\<close>

lemma append_block:
  assumes "flat c s" "writable s" "length c = bk * bs + old" "old < new" "new \<le> bs"
    and run: "cacheWriteOneBlock ops (bk * bs) (drop (bk * bs) c @ z) s = (r, s')"
    and z: "length z = new - old" "good (drop (bk * bs) c @ z)"
  shows "writable s' \<and> (\<not> wr_failed r \<and> flat (c @ z) s' \<or> faulty \<and> wr_failed r)"
proof -
  have "overlay (bk * bs) (drop (bk * bs) c @ z) c = c @ z"
    using assms(3) by (simp add: overlay_inside)
  moreover have "drop (bk * bs) c @ z \<noteq> []" "bk * bs \<le> length c"
    using assms(3,4) z by auto
  moreover have "length (drop (bk * bs) c @ z) = bs \<or>
      length (drop (bk * bs) c @ z) < bs \<and> length c \<le> bk * bs + length (drop (bk * bs) c @ z)"
    using assms(3-5) z by auto
  ultimately show ?thesis
    using cacheWriteOneBlock_law [OF assms(1,2) dvd_triv_right _ _ _ z(2) run] by simp
qed

lemma pad_block_law:
  assumes f: "flat c s" and w: "writable s" and len: "length c = bk * bs + old" "old < new" "new \<le> bs"
    and good: "good (drop (bk * bs) c @ replicate (new - old) 0)"
    and run: "pad_block ops bk old new s = (r, s')"
  shows "writable s' \<and> (\<not> wr_failed r \<and> flat (c @ replicate (new - old) 0) s' \<or> faulty \<and> wr_failed r)"
proof -
  have bs: "bf_blockSize s = bs" using f by (rule flat_geometry)
  obtain r1 s1 where one: "cacheReadOneBlock ops (bk * bs) old s = (r1, s1)" by fastforce
  have "old \<le> bs" using len by simp
  note law = cacheReadOneBlock_law [OF f dvd_triv_right this one]
  have d: "take old (drop (bk * bs) c) = drop (bk * bs) c" using len by simp
  show ?thesis
  proof (cases "rd_failed r1")
    case True
    then have "faulty" using law by auto
    then show ?thesis using True
      by (auto elim!: rd_failed_cases) (use run law w in \<open>auto simp: pad_block_def bs one\<close>)
  next
    case False
    then have "cacheWriteOneBlock ops (bk * bs) (drop (bk * bs) c @ replicate (new - old) 0) s1 = (r, s')"
      using run law d len(1) by (auto simp: pad_block_def bs one)
    from append_block [OF _ _ len this _ good] show ?thesis using law w by simp
  qed
qed

lemma pad_zero_blocks_law:
  assumes "flat c s" "writable s" "length c = bk * bs" "pad_zero_blocks ops bk n s = (r, s')" "\<not> holes"
  shows "writable s' \<and> (\<not> wr_failed r \<and> flat (c @ replicate (n * bs) 0) s' \<or> faulty \<and> wr_failed r)"
  using assms
proof (induction n arbitrary: c s bk)
  case (Suc n)
  have bs: "bf_blockSize s = bs" using Suc.prems(1) by (rule flat_geometry)
  obtain r1 s1 where one: "cacheWriteOneBlock ops (bk * bs) (replicate bs 0) s = (r1, s1)" by fastforce
  have law: "writable s1 \<and> (\<not> wr_failed r1 \<and> flat (c @ replicate bs 0) s1 \<or> faulty \<and> wr_failed r1)"
    using append_block [OF Suc.prems(1,2), of bk 0 bs "replicate bs 0"] one Suc.prems(3) bs_gt_1 zero_good [OF Suc.prems(5)] by simp
  show ?case
  proof (cases "wr_failed r1")
    case True
    then show ?thesis using law Suc.prems(4) by (cases r1) (auto simp: bs one)
  next
    case False
    then have rest: "pad_zero_blocks ops (Suc bk) n s1 = (r, s')"
      using Suc.prems(4) by (cases r1) (auto simp: bs one)
    have "length (c @ replicate bs 0) = Suc bk * bs" using Suc.prems(3) by simp
    from Suc.IH [OF _ _ this rest Suc.prems(5)] show ?thesis
      using law False by (simp add: replicate_add)
  qed
qed auto

lemma padFile_gap_law:
  assumes f: "flat c s" and w: "writable s" and gap: "length c < off"
    and good: "clear (overlay off d c)"
    and run: "padFile ops (length c) off False s = (r, s')"
  shows "writable s' \<and> (faulty \<and> wr_failed r \<or> \<not> wr_failed r \<and>
    (\<exists>k\<le>off. flat (pad_to k c) s' \<and> length (pad_to k c) \<le> max (length c) (off div bs * bs) \<and>
       (off div bs * bs \<le> length (pad_to k c) \<or> holes \<and> bs dvd length (pad_to k c))))"
proof -
  have bs: "bf_blockSize s = bs" "0 < bs" using flat_geometry [OF f] bs_gt_1 by auto
  define old where "old = length c div bs"
  define new where "new = off div bs"
  have order: "old \<le> new" using gap by (simp add: old_def new_def div_le_mono)
  have new: "new * bs \<le> off" by (simp add: new_def)
  show ?thesis
  proof (cases "old = new")
    case True
    have "pad_to 0 c = c" by simp
    then show ?thesis
      using True f w run bs gap div_times_less_eq_dividend [of "length c" bs]
      by (auto simp: padFile_def Let_def old_def new_def intro!: exI [of _ 0])
  next
    case False
    define bk where "bk = (if length c mod bs \<noteq> 0 then Suc old else old)"
    define c1 where "c1 = pad_to (bk * bs) c"
    have bk: "bk \<le> new" "length c \<le> bk * bs"
      using False order bs(2) mod_less_divisor [of bs "length c"] div_mult_mod_eq [of "length c" bs]
      by (auto simp: bk_def old_def, linarith)
    then have c1: "length c1 = bk * bs" by (simp add: c1_def)
    obtain r1 s1 where step1: "(if length c mod bs \<noteq> 0 then pad_block ops old (length c mod bs) bs s
        else (Inr 0, s)) = (r1, s1)" by fastforce
    have law1: "writable s1 \<and> (\<not> wr_failed r1 \<and> flat c1 s1 \<or> faulty \<and> wr_failed r1)"
    proof (cases "length c mod bs = 0")
      case True
      then have "bk * bs = length c" using div_mult_mod_eq [of "length c" bs] by (simp add: bk_def old_def)
      then show ?thesis using True f w step1 by (auto simp: c1_def)
    next
      case part: False
      have "length c = old * bs + length c mod bs" by (simp add: old_def)
      moreover have "c1 = c @ replicate (bs - length c mod bs) 0"
        using part div_mult_mod_eq [of "length c" bs]
        by (auto simp: c1_def bk_def pad_to_def old_def, linarith)
      moreover have "good (drop (old * bs) c @ replicate (bs - length c mod bs) 0)"
        using good last_block_padded [of bs old c off d] bs(2) False order
        by (simp add: clear_def old_def new_def) metis
      ultimately show ?thesis
        using pad_block_law [OF f w, of old "length c mod bs" bs r1 s1] step1 part bs(2) by simp
    qed
    show ?thesis
    proof (cases "wr_failed r1")
      case True
      then show ?thesis
        using law1 run False step1
        by (cases r1) (auto simp: padFile_def Let_def bs old_def new_def split: if_splits)
    next
      case ok1: False
      then have f1: "flat c1 s1" and w1: "writable s1" using law1 by auto
      obtain r2 s2 where step2: "(if \<not> holes then pad_zero_blocks ops bk (new - bk) s1 else (Inr 0, s1)) = (r2, s2)"
        by fastforce
      obtain n1 where n1: "r1 = Inr n1" "0 \<le> n1" using ok1 by (cases r1) auto
      have "(r, s') = (case r2 of Inl ex \<Rightarrow> Inl ex | Inr res \<Rightarrow> Inr (if res < 0 then res else 0), s2)"
        using run False step1 step2 n1 flat_geometry [OF f1]
        by (auto simp: padFile_def Let_def bs old_def [symmetric] new_def [symmetric] bk_def
            split: if_splits sum.splits)
      then have s': "s' = s2" and fail: "wr_failed r = wr_failed r2"
        by (auto split: sum.splits if_splits)
      show ?thesis
      proof (cases holes)
        case True
        then have "flat c1 s2" "writable s2" "\<not> wr_failed r2" using step2 f1 w1 by auto
        moreover have "length c1 \<le> max (length c) (new * bs)"
          unfolding c1 by (rule max.coboundedI2) (rule mult_le_mono1 [OF bk(1)])
        ultimately show ?thesis
          using True c1 new bk unfolding s' fail new_def [symmetric] c1_def
          by (intro conjI disjI2 exI [of _ "bk * bs"])
            (auto intro: order_trans [OF mult_le_mono1 [OF bk(1)]])
      next
        case False
        have "pad_zero_blocks ops bk (new - bk) s1 = (r2, s2)" using step2 False by simp
        note law2 = pad_zero_blocks_law [OF f1 w1 c1 this False]
        have "new * bs = bk * bs + (new - bk) * bs" using bk(1) by (simp flip: add_mult_distrib)
        then have "pad_to (new * bs) c = c1 @ replicate ((new - bk) * bs) 0"
          using bk(2) by (simp add: c1_def pad_to_def flip: replicate_add)
        moreover have "length (pad_to (new * bs) c) = new * bs"
          using bk(2) mult_le_mono1 [OF bk(1), of bs] by (simp add: max_absorb1 order_trans)
        ultimately show ?thesis
          using law2 new unfolding s' fail new_def [symmetric]
          by (cases "wr_failed r2") (auto intro!: exI [of _ "new * bs"])
      qed
    qed
  qed
qed

end

context block_device
begin

subsection \<open>Writing\<close>

text \<open>
  \<open>fileSize\<close> is the length of the file before the request; \<open>c\<close> is its content now. Nothing was
  written yet behind the current block.
\<close>

definition last_non_empty :: "nat \<Rightarrow> int" where
  "last_non_empty fileSize =
     (if fileSize mod bs = 0 then int (fileSize div bs) - 1 else int (fileSize div bs))"

lemma behind_last_non_empty:
  assumes "last_non_empty fileSize < int bn"
  shows "fileSize \<le> bn * bs"
proof -
  have m: "fileSize = fileSize div bs * bs + fileSize mod bs" "fileSize mod bs < bs"
    using bs_gt_1 by simp_all
  show ?thesis
  proof (cases "fileSize mod bs = 0")
    case True
    then have "fileSize div bs \<le> bn" using assms by (simp add: last_non_empty_def)
    then have "fileSize div bs * bs \<le> bn * bs" by (rule mult_le_mono1)
    then show ?thesis using m True by linarith
  next
    case False
    then have "Suc (fileSize div bs) \<le> bn" using assms by (simp add: last_non_empty_def)
    then have "Suc (fileSize div bs) * bs \<le> bn * bs" by (rule mult_le_mono1)
    then show ?thesis using m unfolding mult_Suc by linarith
  qed
qed

text \<open>The block that is written for the current part of the request.\<close>

lemma write_loop_block:
  assumes f: "flat c s" and w: "writable s" and po: "po < bs" and inp: "inp \<noteq> []"
    and len: "length c \<le> max fileSize (bn * bs)"
    and n: "n = min (bs - po) (length inp)"
    and req: "(if n = bs \<or> po = 0 \<and> bn * bs + n \<ge> fileSize then (Inr (Inr (take n inp)), s)
               else if int bn > last_non_empty fileSize then (Inr (Inr (replicate po 0 @ take n inp)), s)
               else case cacheReadOneBlock ops (bn * bs) bs s of
                   (Inr (Inr d), s') \<Rightarrow> (Inr (Inr (overlay po (take n inp) d)), s')
                 | r \<Rightarrow> r) = (r1, s1)"
  shows "flat c s1 \<and> writable s1 \<and> (faulty \<and> rd_failed r1 \<or>
    (\<exists>b. r1 = Inr (Inr b) \<and> b \<noteq> [] \<and> (length b = bs \<or> length b < bs \<and> length c \<le> bn * bs + length b) \<and>
       overlay (bn * bs) b c = overlay (bn * bs + po) (take n inp) c))"
proof -
  have t: "length (take n inp) = n" "0 < n" "po + n \<le> bs" using po inp by (auto simp: n)
  consider (direct) "n = bs \<or> po = 0 \<and> bn * bs + n \<ge> fileSize"
    | (pad) "\<not> (n = bs \<or> po = 0 \<and> bn * bs + n \<ge> fileSize)" "last_non_empty fileSize < int bn"
    | (merge) "\<not> (n = bs \<or> po = 0 \<and> bn * bs + n \<ge> fileSize)" "\<not> last_non_empty fileSize < int bn"
    by blast
  then show ?thesis
  proof cases
    case direct
    then have "po = 0" using t by auto
    then show ?thesis using direct req f w len t by (auto simp: max_def split: if_splits)
  next
    case pad
    have c: "length c \<le> bn * bs" using behind_last_non_empty [OF pad(2)] len by simp
    then have "overlay (bn * bs) (replicate po 0 @ take n inp) c = overlay (bn * bs + po) (take n inp) c"
      by (rule overlay_padded_part)
    then show ?thesis using pad req f w t c by auto
  next
    case merge
    obtain r2 s2 where one: "cacheReadOneBlock ops (bn * bs) bs s = (r2, s2)" by fastforce
    note law = cacheReadOneBlock_law [OF f dvd_triv_right order.refl one]
    show ?thesis
    proof (cases "rd_failed r2")
      case True
      moreover have "(r1, s1) = (r2, s2)" using merge req one True by (auto elim!: rd_failed_cases)
      ultimately show ?thesis using law w by auto
    next
      case False
      define d where "d = take bs (drop (bn * bs) c)"
      have r1: "r1 = Inr (Inr (overlay po (take n inp) d))" "s1 = s2"
        using merge req law False by (auto simp: one d_def)
      have "overlay (bn * bs) (overlay po (take n inp) d) c = overlay (bn * bs + po) (take n inp) c"
      proof (cases "bn * bs \<le> length c")
        case True
        then show ?thesis using t by (simp add: d_def overlay_overlay_part)
      next
        case False
        then have "overlay po (take n inp) d = replicate po 0 @ take n inp"
          by (simp add: d_def overlay_def pad_to_def)
        then show ?thesis using False by (simp add: overlay_padded_part)
      qed
      moreover have "length (overlay po (take n inp) d) = bs \<or>
          length (overlay po (take n inp) d) < bs \<and> length c \<le> bn * bs + length (overlay po (take n inp) d)"
      proof (cases "length d = bs")
        case True
        then show ?thesis using t by simp
      next
        case False
        then have "length d < bs" "length c \<le> bn * bs + length d" by (auto simp: d_def)
        then show ?thesis using t by (auto simp: max_def)
      qed
      moreover have "overlay po (take n inp) d \<noteq> []" using t by (simp flip: length_greater_0_conv)
      ultimately show ?thesis using r1 law w by auto
    qed
  qed
qed

lemma write_loop_law:
  assumes "flat c s" "writable s" "po < bs" "length c \<le> max fileSize (bn * bs)"
    and "bn * bs \<le> length c \<or> holes \<and> bs dvd length c" "inp \<noteq> []" "clear (overlay (bn * bs + po) inp c)"
    and "write_loop ops fileSize (last_non_empty fileSize) bn po inp s = (r, s')"
  shows "writable s' \<and> (\<not> wr_failed r \<and> flat (overlay (bn * bs + po) inp c) s' \<or> faulty \<and> wr_failed r)"
  using assms
proof (induction "length inp" arbitrary: c bn po inp s rule: less_induct)
  case less
  have bs: "bf_blockSize s = bs" using less.prems(1) by (rule flat_geometry)
  define n where "n = min (bs - po) (length inp)"
  obtain r1 s1 where req: "(if n = bs \<or> po = 0 \<and> bn * bs + n \<ge> fileSize then (Inr (Inr (take n inp)), s)
               else if int bn > last_non_empty fileSize then (Inr (Inr (replicate po 0 @ take n inp)), s)
               else case cacheReadOneBlock ops (bn * bs) bs s of
                   (Inr (Inr d), s') \<Rightarrow> (Inr (Inr (overlay po (take n inp) d)), s')
                 | r \<Rightarrow> r) = (r1, s1)" by fastforce
  note block = write_loop_block [OF less.prems(1-3,6,4) n_def req]
  have step: "(r, s') = (case (r1, s1) of
             (Inl ex, s') \<Rightarrow> (Inl ex, s')
           | (Inr (Inl e), s') \<Rightarrow> (Inr e, s')
           | (Inr (Inr blockData), s') \<Rightarrow>
               (case cacheWriteOneBlock ops (bn * bs) blockData s' of
                  (Inl ex, s'') \<Rightarrow> (Inl ex, s'')
                | (Inr res, s'') \<Rightarrow>
                    if res < 0 then (Inr res, s'')
                    else write_loop ops fileSize (last_non_empty fileSize) (Suc bn) 0 (drop n inp) s''))"
    using less.prems(8) less.prems(3,6)
    unfolding write_loop.simps [of ops fileSize _ bn po inp s] bs Let_def n_def [symmetric] req by simp
  show ?case
  proof (cases "rd_failed r1")
    case True
    then show ?thesis using block step by (auto elim!: rd_failed_cases)
  next
    case False
    then obtain b where b: "r1 = Inr (Inr b)" "b \<noteq> []" "flat c s1" "writable s1"
        "length b = bs \<or> length b < bs \<and> length c \<le> bn * bs + length b"
        "overlay (bn * bs) b c = overlay (bn * bs + po) (take n inp) c"
      using block by auto
    obtain r2 s2 where two: "cacheWriteOneBlock ops (bn * bs) b s1 = (r2, s2)" by fastforce
    have final: "overlay (bn * bs + po) inp c = overlay (bn * bs + po + n) (drop n inp) (overlay (bn * bs) b c)"
      using overlay_append [of "bn * bs + po" "take n inp" "drop n inp" c] n_def b(6) by simp
    have "blk bs bn (overlay (bn * bs + po) inp c) = b"
      using blk_overlay_same [OF b(5)] first_block_final [OF n_def less.prems(3), of bn "overlay (bn * bs) b c"]
      unfolding final by (simp add: b(6) n_def)
    then have "good b" using less.prems(7) unfolding clear_def by metis
    note wlaw = cacheWriteOneBlock_law [OF b(3,4) dvd_triv_right less.prems(5) b(2,5) this two]
    show ?thesis
    proof (cases "wr_failed r2")
      case True
      then show ?thesis using wlaw step by (cases r2) (auto simp: b(1) two)
    next
      case ok: False
      define c2 where "c2 = overlay (bn * bs + po) (take n inp) c"
      have c2: "flat c2 s2" "writable s2" using wlaw ok by (simp_all add: b(6) c2_def)
      have rest: "write_loop ops fileSize (last_non_empty fileSize) (Suc bn) 0 (drop n inp) s2 = (r, s')"
        using step ok by (cases r2) (auto simp: b(1) two)
      show ?thesis
      proof (cases "drop n inp = []")
        case True
        then have "c2 = overlay (bn * bs + po) inp c" by (simp add: c2_def)
        moreover have "(r, s') = (Inr 0, s2)" using rest True by (simp add: write_loop.simps)
        ultimately show ?thesis using c2 by simp
      next
        case more: False
        then have n: "n = bs - po" "n < length inp" by (auto simp: n_def)
        have len2: "length c2 = max (Suc bn * bs) (length c)"
          using n less.prems(3) by (simp add: c2_def add.commute)
        have all: "overlay (Suc bn * bs + 0) (drop n inp) c2 = overlay (bn * bs + po) inp c"
          using overlay_append [of "bn * bs + po" "take n inp" "drop n inp" c] n less.prems(3)
          by (simp add: c2_def add.commute)
        have "writable s' \<and> (\<not> wr_failed r \<and> flat (overlay (Suc bn * bs + 0) (drop n inp) c2) s' \<or> faulty \<and> wr_failed r)"
          by (rule less.hyps [OF _ c2 _ _ _ more _ rest])
            (use n less.prems(3,4,7) more len2 all in \<open>auto simp: max_def split: if_splits\<close>)
        then show ?thesis unfolding all .
      qed
    qed
  qed
qed

lemma size_law:
  assumes "flat c s" "ops_getSize ops s = (r, s')"
  shows "flat c s' \<and> writable s' = writable s \<and> (r = Inr (int (length c)) \<or> faulty \<and> wr_failed r)"
proof -
  have h: "holds c s" "coherent c s" using assms(1) by (auto simp: flat_def)
  note law = size1 [OF h(1) assms(2)]
  then show ?thesis using h(2) geometry [OF h(1)] geometry [of c s'] by (auto simp: flat_def coherent_def)
qed

lemma block_write_law:
  assumes f: "flat c s" and w: "writable s" and d: "d \<noteq> []" and good: "clear (overlay off d c)"
    and run: "block_write ops off d s = (r, s')"
  shows "writable s' \<and> (\<not> wr_failed r \<and> flat (overlay off d c) s' \<or> faulty \<and> wr_failed r)"
proof -
  have bs: "bf_blockSize s = bs" "0 < bs" "\<not> bs = 0" using flat_geometry [OF f] bs_gt_1 by auto
  obtain r0 s0 where sz: "ops_getSize ops s = (r0, s0)" by fastforce
  note law0 = size_law [OF f sz]
  show ?thesis
  proof (cases "wr_failed r0")
    case True
    then show ?thesis using law0 run w bs by (cases r0) (auto simp: block_write_def sz)
  next
    case False
    then have r0: "r0 = Inr (int (length c))" and f0: "flat c s0" and w0: "writable s0"
      using law0 w by auto
    have bs0: "bf_blockSize s0 = bs" using f0 by (rule flat_geometry)
    obtain r1 s1 where pad: "(if off > length c then padFile ops (length c) off False s0 else (Inr 0, s0)) = (r1, s1)"
      by fastforce
    have plaw: "writable s1 \<and> (faulty \<and> wr_failed r1 \<or> \<not> wr_failed r1 \<and>
        (\<exists>k\<le>off. flat (pad_to k c) s1 \<and> length (pad_to k c) \<le> max (length c) (off div bs * bs) \<and>
           (off div bs * bs \<le> length (pad_to k c) \<or> holes \<and> bs dvd length (pad_to k c))))"
    proof (cases "off > length c")
      case True
      then show ?thesis using padFile_gap_law [OF f0 w0 True good, of r1 s1] pad by simp
    next
      case False
      then have "off div bs * bs \<le> length c" using div_times_less_eq_dividend [of off bs] by linarith
      then show ?thesis using False pad f0 w0 by (auto intro!: exI [of _ 0])
    qed
    have run1: "(r, s') = (case (r1, s1) of
         (Inl ex, s) \<Rightarrow> (Inl ex, s)
       | (Inr res, s) \<Rightarrow>
         if res < 0 then (Inr res, s)
         else if off mod bs = 0 \<and> length d \<le> bs \<and>
                 (length d = bs \<or> off div bs = length c div bs \<and> length d \<ge> length c mod bs)
         then cacheWriteOneBlock ops off d s
         else (case write_loop ops (length c) (last_non_empty (length c)) (off div bs) (off mod bs) d s of
                 (Inr res, s) \<Rightarrow> (Inr (if res < 0 then res else int (length d)), s)
               | (Inl ex, s) \<Rightarrow> (Inl ex, s)))"
    proof -
      have neg: "\<not> int (length c) < 0" by simp
      show ?thesis
        unfolding run [symmetric] block_write_def bs(1) if_not_P [OF bs(3)] sz r0 prod.case sum.case
          if_not_P [OF neg] Let_def bs0 nat_int pad last_non_empty_def ..
    qed
    show ?thesis
    proof (cases "wr_failed r1")
      case True
      then show ?thesis using plaw run1 by (cases r1) auto
    next
      case ok: False
      then obtain k where k: "k \<le> off" "flat (pad_to k c) s1" "length (pad_to k c) \<le> max (length c) (off div bs * bs)"
          "off div bs * bs \<le> length (pad_to k c) \<or> holes \<and> bs dvd length (pad_to k c)" and w1: "writable s1"
        using plaw by blast
      obtain n1 where n1: "r1 = Inr n1" "0 \<le> n1" using ok by (cases r1) auto
      show ?thesis
      proof (cases "off mod bs = 0 \<and> length d \<le> bs \<and>
          (length d = bs \<or> off div bs = length c div bs \<and> length d \<ge> length c mod bs)")
        case True
        then have off: "bs dvd off" by auto
        then have off': "off div bs * bs = off" by (rule dvd_div_mult_self)
        have "length c \<le> off + length d" if "off div bs = length c div bs" "length d \<ge> length c mod bs"
          using that(2) off' [unfolded that(1)] div_mult_mod_eq [of "length c" bs] by linarith
        then have "length d = bs \<or> length d < bs \<and> length (pad_to k c) \<le> off + length d"
          using True k(3) off' by auto
        moreover from this have "blk bs (off div bs) (overlay off d c) = d"
          using blk_overlay_same [of d bs "pad_to k c" "off div bs"] k(1) by (simp add: off' overlay_pad_to)
        then have "good d" using good unfolding clear_def by metis
        ultimately show ?thesis
          using cacheWriteOneBlock_law [OF k(2) w1 off _ d, of r s'] k(1,4) off' run1 True n1
          by (simp add: overlay_pad_to)
      next
        case False
        obtain r2 s2 where loop: "write_loop ops (length c) (last_non_empty (length c)) (off div bs) (off mod bs) d s1
            = (r2, s2)" by fastforce
        have "clear (overlay (off div bs * bs + off mod bs) d (pad_to k c))" using good k(1) by (simp add: overlay_pad_to)
        note law2 = write_loop_law [OF k(2) w1 mod_less_divisor [OF bs(2)] k(3,4) d this loop]
        have "(r, s') = (case r2 of Inr res \<Rightarrow> Inr (if res < 0 then res else int (length d)) | Inl ex \<Rightarrow> Inl ex, s2)"
          using run1 False n1 loop by (auto split: sum.splits)
        then show ?thesis using law2 k(1) by (auto simp: overlay_pad_to split: sum.splits if_splits)
      qed
    qed
  qed
qed

end

end
