(* ===== verification/Raw_File_IO.thy ===== *)
theory Raw_File_IO
  imports File_IO
begin

text \<open>
  \<open>RawFileIO\<close> of \<^verbatim>\<open>encfs/RawFileIO.cpp\<close>, the bottom of the stack: it passes requests to the
  operating system, repeats short writes, and remembers the size of the file.

  The system calls are the record \<open>sys\<close>, over a state \<open>'w\<close> of the operating system; a call
  gives the negated error number where the C function gives -1 and sets \<open>errno\<close>.
  \<open>posix_file\<close> states what the code relies on of them, for a regular file that is open; an
  in-memory file system is an instance.
\<close>

section \<open>System calls\<close>

record 'w sys =
  sys_open :: "bytes \<Rightarrow> int \<Rightarrow> 'w \<Rightarrow> int \<times> 'w"
  sys_lstat :: "bytes \<Rightarrow> 'w \<Rightarrow> (int + stat) \<times> 'w"
  sys_chmod :: "bytes \<Rightarrow> u32 \<Rightarrow> 'w \<Rightarrow> int \<times> 'w"
  sys_pread :: "int \<Rightarrow> nat \<Rightarrow> nat \<Rightarrow> 'w \<Rightarrow> (int + bytes) \<times> 'w"
  sys_pwrite :: "int \<Rightarrow> bytes \<Rightarrow> nat \<Rightarrow> 'w \<Rightarrow> int \<times> 'w"
  sys_ftruncate :: "int \<Rightarrow> nat \<Rightarrow> 'w \<Rightarrow> int \<times> 'w"
  sys_truncate :: "bytes \<Rightarrow> nat \<Rightarrow> 'w \<Rightarrow> int \<times> 'w"
  sys_fdatasync :: "int \<Rightarrow> 'w \<Rightarrow> 'w"
  sys_close :: "int \<Rightarrow> 'w \<Rightarrow> 'w"

section \<open>The code\<close>

record 'w rawfileio =
  raw_name :: bytes
  raw_knownSize :: bool
  raw_fileSize :: int
  raw_fd :: int
  raw_oldfd :: int
  raw_canWrite :: bool
  raw_world :: 'w

definition RawFileIO_new :: "bytes \<Rightarrow> 'w \<Rightarrow> 'w rawfileio" where
  "RawFileIO_new fileName w =
     \<lparr>raw_name = fileName, raw_knownSize = False, raw_fileSize = 0, raw_fd = -1, raw_oldfd = -1,
      raw_canWrite = False, raw_world = w\<rparr>"

definition RawFileIO_delete :: "'w sys \<Rightarrow> 'w rawfileio \<Rightarrow> 'w" where
  "RawFileIO_delete sys s =
     (let w = raw_world s;
          w = (if raw_oldfd s \<noteq> -1 then sys_close sys (raw_oldfd s) w else w)
      in if raw_fd s \<noteq> -1 then sys_close sys (raw_fd s) w else w)"

text \<open>
  When the second \<open>open\<close> fails and restoring the mode fails too, \<open>errno\<close> is that of the
  latter.
\<close>

definition open_readonly_workaround :: "'w sys \<Rightarrow> bytes \<Rightarrow> int \<Rightarrow> 'w \<Rightarrow> int \<times> 'w" where
  "open_readonly_workaround sys path flags w =
     (case sys_lstat sys path w of
        (Inl e, w) \<Rightarrow> (e, w)
      | (Inr stbuf, w) \<Rightarrow>
          (case sys_chmod sys path (st_mode stbuf OR 0x180) w of
             (c, w) \<Rightarrow>
               if c < 0 then (c, w)
               else (case sys_open sys path flags w of
                       (fd, w) \<Rightarrow>
                         (case sys_chmod sys path (st_mode stbuf) w of
                            (c, w) \<Rightarrow> (if fd < 0 \<and> c < 0 then c else fd, w)))))"

definition raw_open :: "'w sys \<Rightarrow> int \<Rightarrow> ('w rawfileio, int) io" where
  "raw_open sys flags = (\<lambda>s.
     let requestWrite = (flags AND O_RDWR \<noteq> 0 \<or> flags AND O_WRONLY \<noteq> 0) in
     if raw_fd s \<ge> 0 \<and> (raw_canWrite s \<or> \<not> requestWrite) then (Inr (raw_fd s), s)
     else
       let finalFlags = (if requestWrite then O_RDWR else O_RDONLY);
           finalFlags = (if flags AND O_LARGEFILE \<noteq> 0 then finalFlags OR O_LARGEFILE else finalFlags)
       in case sys_open sys (raw_name s) finalFlags (raw_world s) of
         (newFd, w) \<Rightarrow>
           (case (if newFd = - EACCES then open_readonly_workaround sys (raw_name s) finalFlags w else (newFd, w)) of
              (newFd, w) \<Rightarrow>
                if newFd < 0 then (Inr newFd, s\<lparr>raw_world := w\<rparr>)
                else (Inr newFd, s\<lparr>raw_canWrite := requestWrite, raw_oldfd := raw_fd s, raw_fd := newFd,
                                   raw_world := w\<rparr>)))"

definition raw_getAttr :: "'w sys \<Rightarrow> ('w rawfileio, int + stat) io" where
  "raw_getAttr sys = (\<lambda>s.
     case sys_lstat sys (raw_name s) (raw_world s) of (r, w) \<Rightarrow> (Inr r, s\<lparr>raw_world := w\<rparr>))"

definition raw_getSize :: "'w sys \<Rightarrow> ('w rawfileio, int) io" where
  "raw_getSize sys = (\<lambda>s.
     if \<not> raw_knownSize s then
       (case sys_lstat sys (raw_name s) (raw_world s) of
          (Inr stbuf, w) \<Rightarrow>
            (Inr (st_size stbuf), s\<lparr>raw_fileSize := st_size stbuf, raw_knownSize := True, raw_world := w\<rparr>)
        | (Inl e, w) \<Rightarrow> (Inr e, s\<lparr>raw_world := w\<rparr>))
     else (Inr (raw_fileSize s), s))"

definition raw_read :: "'w sys \<Rightarrow> nat \<Rightarrow> nat \<Rightarrow> ('w rawfileio, int + bytes) io" where
  "raw_read sys off len = (\<lambda>s.
     if \<not> raw_fd s \<ge> 0 then (Inl (Error ''fd >= 0''), s)
     else case sys_pread sys (raw_fd s) len off (raw_world s) of (r, w) \<Rightarrow> (Inr r, s\<lparr>raw_world := w\<rparr>))"

text \<open>The \<open>while\<close> loop of \<open>write\<close>: the last value of \<open>pwrite\<close> when it stops early, else 1.\<close>

function raw_write_loop :: "'w sys \<Rightarrow> int \<Rightarrow> bytes \<Rightarrow> nat \<Rightarrow> 'w \<Rightarrow> int \<times> 'w" where
  "raw_write_loop sys fd buf off w =
     (if buf = [] then (1, w)
      else case sys_pwrite sys fd buf off w of
        (writeSize, w) \<Rightarrow>
          if writeSize \<le> 0 then (writeSize, w)
          else raw_write_loop sys fd (drop (nat writeSize) buf) (off + nat writeSize) w)"
  by pat_completeness auto
termination by (relation "measure (\<lambda>(sys, fd, buf, off, w). length buf)") auto

declare raw_write_loop.simps [simp del]

definition raw_write :: "'w sys \<Rightarrow> nat \<Rightarrow> bytes \<Rightarrow> ('w rawfileio, int) io" where
  "raw_write sys off d = (\<lambda>s.
     if \<not> raw_fd s \<ge> 0 then (Inl (Error ''fd >= 0''), s)
     else if \<not> raw_canWrite s then (Inl (Error ''canWrite''), s)
     else case raw_write_loop sys (raw_fd s) d off (raw_world s) of
       (res, w) \<Rightarrow>
         if res < 0 then (Inr res, s\<lparr>raw_knownSize := False, raw_world := w\<rparr>)
         else if res = 0 then (Inr (- EIO), s\<lparr>raw_world := w\<rparr>)
         else
           let last = int (off + length d) in
           (Inr (int (length d)),
            s\<lparr>raw_world := w,
              raw_fileSize := (if raw_knownSize s \<and> last > raw_fileSize s then last else raw_fileSize s)\<rparr>))"

definition raw_truncate :: "'w sys \<Rightarrow> nat \<Rightarrow> ('w rawfileio, int) io" where
  "raw_truncate sys sz = (\<lambda>s.
     case (if raw_fd s \<ge> 0 \<and> raw_canWrite s then sys_ftruncate sys (raw_fd s) sz (raw_world s)
           else sys_truncate sys (raw_name s) sz (raw_world s)) of
       (res, w) \<Rightarrow>
         let s' = (if res < 0 then s\<lparr>raw_knownSize := False\<rparr>
                   else s\<lparr>raw_fileSize := int sz, raw_knownSize := True\<rparr>);
             w' = (if raw_fd s \<ge> 0 \<and> raw_canWrite s then sys_fdatasync sys (raw_fd s) w else w)
         in (Inr (if res < 0 then res else 0), s'\<lparr>raw_world := w'\<rparr>))"

definition raw_fileio :: "'w sys \<Rightarrow> 'w rawfileio fileio" where
  "raw_fileio sys =
     \<lparr>fio_blockSize = (\<lambda>_. FileIO_blockSize),
      fio_setFileName = (\<lambda>fileName s. s\<lparr>raw_name := fileName\<rparr>),
      fio_getFileName = raw_name,
      fio_setIV = FileIO_setIV,
      fio_open = raw_open sys,
      fio_getAttr = raw_getAttr sys,
      fio_getSize = raw_getSize sys,
      fio_read = raw_read sys,
      fio_write = raw_write sys,
      fio_truncate = raw_truncate sys,
      fio_isWritable = raw_canWrite\<rparr>"

section \<open>What the code relies on\<close>

text \<open>
  \<open>opened name fd c w\<close>: in the state \<open>w\<close> of the system, \<open>fd\<close> is a descriptor, open for reading
  and writing, of the regular file \<open>name\<close> whose content is \<open>c\<close>. A write may be short. A failed
  write may have changed the content.
\<close>

locale posix_file =
  fixes sys :: "'w sys" and faulty :: bool and opened :: "bytes \<Rightarrow> int \<Rightarrow> bytes \<Rightarrow> 'w \<Rightarrow> bool"
  assumes pread: "opened name fd c w \<Longrightarrow> sys_pread sys fd len off w = (r, w') \<Longrightarrow>
      opened name fd c w' \<and> (r = Inr (take len (drop off c)) \<or> faulty \<and> (\<exists>e<0. r = Inl e))"
    and pwrite: "opened name fd c w \<Longrightarrow> d \<noteq> [] \<Longrightarrow> sys_pwrite sys fd d off w = (n, w') \<Longrightarrow>
      0 < n \<and> n \<le> int (length d) \<and> opened name fd (overlay off (take (nat n) d) c) w' \<or> faulty \<and> n \<le> 0"
    and lstat: "opened name fd c w \<Longrightarrow> sys_lstat sys name w = (q, w') \<Longrightarrow>
      opened name fd c w' \<and> ((\<exists>st. q = Inr st \<and> st_size st = int (length c)) \<or> faulty \<and> (\<exists>e<0. q = Inl e))"
    and ftruncate: "opened name fd c w \<Longrightarrow> sys_ftruncate sys fd k w = (n, w') \<Longrightarrow>
      0 \<le> n \<and> opened name fd (take k (pad_to k c)) w' \<or> faulty \<and> n < 0"
    and fdatasync: "opened name fd c w \<Longrightarrow> opened name fd c (sys_fdatasync sys fd w)"
begin

definition raw_holds :: "bytes \<Rightarrow> 'w rawfileio \<Rightarrow> bool" where
  "raw_holds c s = (0 \<le> raw_fd s \<and> opened (raw_name s) (raw_fd s) c (raw_world s) \<and>
     (raw_knownSize s \<longrightarrow> raw_fileSize s = int (length c)))"

lemma raw_write_loop_law:
  assumes "opened name fd c w" "raw_write_loop sys fd buf off w = (r, w')"
  shows "0 < r \<and> opened name fd (if buf = [] then c else overlay off buf c) w' \<or> faulty \<and> r \<le> 0"
  using assms
proof (induction "length buf" arbitrary: buf off c w rule: less_induct)
  case less
  note step = less.prems(2) [unfolded raw_write_loop.simps [of sys fd buf off w]]
  show ?case
  proof (cases "buf = []")
    case True
    then show ?thesis using less.prems(1) step by simp
  next
    case False
    obtain n w1 where one: "sys_pwrite sys fd buf off w = (n, w1)" by fastforce
    note law = pwrite [OF less.prems(1) False one]
    show ?thesis
    proof (cases "n \<le> 0")
      case True
      then show ?thesis using law step False one by auto
    next
      case pos: False
      define c1 where "c1 = overlay off (take (nat n) buf) c"
      have o1: "opened name fd c1 w1" and n: "n \<le> int (length buf)" using law pos by (auto simp: c1_def)
      have "raw_write_loop sys fd (drop (nat n) buf) (off + nat n) w1 = (r, w')"
        using step False one pos by simp
      from less.hyps [OF _ o1 this] have "0 < r \<and> opened name fd
          (if drop (nat n) buf = [] then c1 else overlay (off + nat n) (drop (nat n) buf) c1) w' \<or> faulty \<and> r \<le> 0"
        using False pos by simp
      moreover have "overlay (off + nat n) (drop (nat n) buf) c1 = overlay off buf c"
        using overlay_append [of off "take (nat n) buf" "drop (nat n) buf" c] n by (simp add: c1_def min_absorb2)
      moreover have "c1 = overlay off buf c" if "drop (nat n) buf = []" using that by (simp add: c1_def)
      ultimately show ?thesis using False by (auto split: if_splits)
    qed
  qed
qed

end

text \<open>The raw layer keeps the contract of a file; its remembered size is always right.\<close>

sublocale posix_file \<subseteq> raw: byte_file "raw_fileio sys" faulty raw_holds "\<lambda>_. True"
proof
  fix c s off len r s'
  assume h: "raw_holds c s" and run: "fio_read (raw_fileio sys) off len s = (r, s')"
  obtain q w where one: "sys_pread sys (raw_fd s) len off (raw_world s) = (q, w)" by fastforce
  show "raw_holds c s' \<and> fio_isWritable (raw_fileio sys) s' = fio_isWritable (raw_fileio sys) s \<and>
      (r = Inr (Inr (take len (drop off c))) \<or> faulty \<and> rd_failed r)"
    using h run one pread [OF _ one, of "raw_name s" c]
    by (auto simp: raw_fileio_def raw_read_def raw_holds_def)
next
  fix c s d off w s'
  assume h: "raw_holds c s" and wr: "fio_isWritable (raw_fileio sys) s" and d: "d \<noteq> []"
    and run: "fio_write (raw_fileio sys) off d s = (w, s')"
  obtain q w1 where one: "raw_write_loop sys (raw_fd s) d off (raw_world s) = (q, w1)" by fastforce
  show "fio_isWritable (raw_fileio sys) s' \<and>
      (\<not> wr_failed w \<and> raw_holds (overlay off d c) s' \<or> faulty \<and> wr_failed w)"
    using h wr run one d raw_write_loop_law [OF _ one, of "raw_name s" c]
    by (auto simp: raw_fileio_def raw_write_def raw_holds_def Let_def EIO_def split: if_splits)
next
  fix c s w s'
  assume h: "raw_holds c s" and run: "fio_getSize (raw_fileio sys) s = (w, s')"
  obtain q w1 where one: "sys_lstat sys (raw_name s) (raw_world s) = (q, w1)" by fastforce
  show "raw_holds c s' \<and> fio_isWritable (raw_fileio sys) s' = fio_isWritable (raw_fileio sys) s \<and>
      (w = Inr (int (length c)) \<or> faulty \<and> wr_failed w)"
    using h run one lstat [OF _ one, of "raw_fd s" c]
    by (auto simp: raw_fileio_def raw_getSize_def raw_holds_def split: if_splits)
qed

end
