(* ===== verification/Base64.thy ===== *)
theory Base64
  imports Encfs_Prelude
begin

text \<open>
  Model of \<^verbatim>\<open>encfs/base64.cpp\<close> and \<^verbatim>\<open>encfs/base64.h\<close>: the change of base between powers of two
  that file names go through, its in-place variant, the file-name alphabets (base 64 and
  base 32) and the standard base 64 used in the XML configuration.

  The routines overwrite a caller's buffer. The model returns the list of values they write
  to the front of it; bytes behind that list keep their old value in the code and no caller
  reads them. The lemmas read a list of \<open>n\<close>-bit values as one bit stream, lowest bit first:
  both routines keep that stream, and the round trips follow from it.
\<close>

section \<open>Sizes\<close>

definition B64ToB256Bytes :: "nat \<Rightarrow> nat" where
  "B64ToB256Bytes n = (n * 6) div 8"

definition B32ToB256Bytes :: "nat \<Rightarrow> nat" where
  "B32ToB256Bytes n = (n * 5) div 8"

definition B256ToB64Bytes :: "nat \<Rightarrow> nat" where
  "B256ToB64Bytes n = (n * 8 + 5) div 6"

definition B256ToB32Bytes :: "nat \<Rightarrow> nat" where
  "B256ToB32Bytes n = (n * 8 + 4) div 5"

section \<open>Change of base\<close>

text \<open>\<open>work & mask\<close> stored into an \<open>unsigned char\<close>, with \<open>mask = (1 << dst2Pow) - 1\<close>.\<close>

definition low_bits :: "nat \<Rightarrow> u64 \<Rightarrow> byte" where
  "low_bits d work = ucast (work AND mask d)"

text \<open>
  The inner loop \<open>while (workBits >= dst2Pow)\<close> of \<open>changeBase2\<close>. Every caller passes a
  positive power; the guard \<open>0 < d\<close> only makes the function total.
\<close>

function cb_emit :: "nat \<Rightarrow> u64 \<Rightarrow> nat \<Rightarrow> bytes \<times> u64 \<times> nat" where
  "cb_emit d work wb =
     (if 0 < d \<and> d \<le> wb
      then (case cb_emit d (drop_bit d work) (wb - d) of
              (out, work', wb') \<Rightarrow> (low_bits d work # out, work', wb'))
      else ([], work, wb))"
  by pat_completeness auto
termination
  by (relation "measure (\<lambda>(d, work, wb). wb)") auto

declare cb_emit.simps [simp del]

fun changeBase2_loop :: "bytes \<Rightarrow> nat \<Rightarrow> nat \<Rightarrow> u64 \<Rightarrow> nat \<Rightarrow> bytes \<times> u64 \<times> nat" where
  "changeBase2_loop [] s d work wb = ([], work, wb)"
| "changeBase2_loop (x # src) s d work wb =
     (case cb_emit d (work OR push_bit wb (ucast x)) (wb + s) of
        (out, work', wb') \<Rightarrow>
          (case changeBase2_loop src s d work' wb' of
             (rest, work'', wb'') \<Rightarrow> (out @ rest, work'', wb'')))"

definition changeBase2 :: "bytes \<Rightarrow> nat \<Rightarrow> nat \<Rightarrow> nat \<Rightarrow> bytes" where
  "changeBase2 src src2Pow dstLen dst2Pow =
     (case changeBase2_loop src src2Pow dst2Pow 0 0 of
        (out, work, workBits) \<Rightarrow>
          if workBits \<noteq> 0 \<and> length out < dstLen
          then out @ [low_bits dst2Pow work] else out)"

text \<open>
  The in-place variant. \<open>cbi_fill\<close> is the loop
  \<open>while ((srcLen != 0) && workBits < dst2Pow)\<close> and \<open>cbi_flush\<close> the loop that writes the
  remaining bits; \<open>workBits\<close> is a signed \<open>int\<close> that can go below zero at the end.
\<close>

fun cbi_fill :: "nat \<Rightarrow> nat \<Rightarrow> bytes \<Rightarrow> u64 \<Rightarrow> int \<Rightarrow> bytes \<times> u64 \<times> int" where
  "cbi_fill s d [] work wb = ([], work, wb)"
| "cbi_fill s d (x # src) work wb =
     (if wb < int d
      then cbi_fill s d src (work OR push_bit (nat wb) (ucast x)) (wb + int s)
      else (x # src, work, wb))"

function cbi_flush :: "nat \<Rightarrow> u64 \<Rightarrow> int \<Rightarrow> bytes" where
  "cbi_flush d work wb =
     (if 0 < d \<and> 0 < wb then low_bits d work # cbi_flush d (drop_bit d work) (wb - int d) else [])"
  by pat_completeness auto
termination
  by (relation "measure (\<lambda>(d, work, wb). nat wb)") auto

declare cbi_flush.simps [simp del]

lemma cbi_fill_length: "cbi_fill s d src work wb = (src', work', wb') \<Longrightarrow> length src' \<le> length src"
  by (induction s d src work wb rule: cbi_fill.induct) (auto split: if_splits)

lemma cbi_fill_progress:
  "cbi_fill s d src work wb = (src', work', wb') \<Longrightarrow> src \<noteq> [] \<Longrightarrow> wb < int d \<Longrightarrow>
     length src' < length src"
  by (cases src) (auto dest: cbi_fill_length)

lemma cbi_fill_stay:
  "\<not> wb < int d \<Longrightarrow> cbi_fill s d src work wb = (src, work, wb)"
  by (cases src) auto

function changeBase2Inline_rec :: "bytes \<Rightarrow> nat \<Rightarrow> nat \<Rightarrow> bool \<Rightarrow> u64 \<Rightarrow> int \<Rightarrow> bytes" where
  "changeBase2Inline_rec src s d outputPartialLastByte work wb =
     (if d = 0 then [] else
      case cbi_fill s d src work wb of (src', work', wb') \<Rightarrow>
        low_bits d work' #
          (if src' \<noteq> []
           then changeBase2Inline_rec src' s d outputPartialLastByte (drop_bit d work') (wb' - int d)
           else if outputPartialLastByte
           then cbi_flush d (drop_bit d work') (wb' - int d)
           else []))"
  by pat_completeness auto
termination
proof (relation "measures [\<lambda>(src, s, d, p, work, wb). length src,
                           \<lambda>(src, s, d, p, work, wb). nat wb]")
  show "wf (measures [\<lambda>(src, s, d, p, work, wb). length src,
                      \<lambda>(src, s, d, p, work, wb). nat wb])"
    by simp
next
  fix src :: bytes and s d :: nat and p :: bool and work wb z src' work' wb'
  assume d: "d \<noteq> 0" and "(src', z) = cbi_fill s d src work wb" "(work', wb') = z"
    and ne: "src' \<noteq> []"
  then have fill: "cbi_fill s d src work wb = (src', work', wb')" by (metis)
  show "((src', s, d, p, drop_bit d work', wb' - int d), (src, s, d, p, work, wb))
      \<in> measures [\<lambda>(src, s, d, p, work, wb). length src,
                  \<lambda>(src, s, d, p, work, wb). nat wb]"
  proof (cases "wb < int d")
    case True
    from fill ne have "src \<noteq> []" by (cases src) auto
    with True fill show ?thesis using cbi_fill_progress by auto
  next
    case False
    with fill have "src' = src" "wb' = wb" by (simp_all add: cbi_fill_stay)
    with False d show ?thesis by auto
  qed
qed

declare changeBase2Inline_rec.simps [simp del]

definition changeBase2Inline :: "bytes \<Rightarrow> nat \<Rightarrow> nat \<Rightarrow> bool \<Rightarrow> bytes" where
  "changeBase2Inline src src2Pow dst2Pow outputPartialLastByte =
     changeBase2Inline_rec src src2Pow dst2Pow outputPartialLastByte 0 0"

section \<open>File-name alphabets\<close>

definition B642AsciiTable :: string where
  "B642AsciiTable = '',-0123456789''"

definition b64_to_ascii :: "byte \<Rightarrow> byte" where
  "b64_to_ascii b =
     (let ch = uint b in
      if ch > 11 then
        if ch > 37 then word_of_int (ch + (97 - 38)) else word_of_int (ch + (65 - 12))
      else of_char (B642AsciiTable ! nat ch))"

definition B64ToAscii :: "bytes \<Rightarrow> bytes" where
  "B64ToAscii buf = map b64_to_ascii buf"

definition Ascii2B64Table :: string where
  "Ascii2B64Table = ''                                            01  23456789:;       ''"

definition ascii_to_b64 :: "byte \<Rightarrow> byte" where
  "ascii_to_b64 ch =
     (if ch \<ge> 65 then
        if ch \<ge> 97 then ch + (38 - 97) else ch + (12 - 65)
      else of_char (Ascii2B64Table ! unat ch) - 48)"

definition AsciiToB64 :: "bytes \<Rightarrow> bytes" where
  "AsciiToB64 buf = map ascii_to_b64 buf"

definition b32_to_ascii :: "byte \<Rightarrow> byte" where
  "b32_to_ascii b =
     (let ch = uint b in
      if ch \<ge> 0 \<and> ch < 26 then word_of_int (ch + 65) else word_of_int (ch + (50 - 26)))"

definition B32ToAscii :: "bytes \<Rightarrow> bytes" where
  "B32ToAscii buf = map b32_to_ascii buf"

text \<open>\<open>toupper\<close> of \<^verbatim>\<open><cctype>\<close> in the C locale.\<close>

definition toupper :: "byte \<Rightarrow> byte" where
  "toupper ch = (if 97 \<le> ch \<and> ch \<le> 122 then ch - 32 else ch)"

definition ascii_to_b32 :: "byte \<Rightarrow> byte" where
  "ascii_to_b32 ch =
     (let lch = uint (toupper ch) in
      if lch \<ge> 65 then word_of_int (lch - 65) else word_of_int (lch + (26 - 50)))"

definition AsciiToB32 :: "bytes \<Rightarrow> bytes" where
  "AsciiToB32 buf = map ascii_to_b32 buf"

section \<open>Standard base 64\<close>

definition b64_decode_table :: "nat list" where
  "b64_decode_table =
    [66, 66, 66, 66, 66, 66, 66, 66, 66, 64, 66, 66, 66, 66, 66, 66, 66, 66, 66, 66, 66,
     66, 66, 66, 66, 66, 66, 66, 66, 66, 66, 66, 66, 66, 66, 66, 66, 66, 66, 66, 66, 66,
     66, 62, 66, 66, 66, 63, 52, 53, 54, 55, 56, 57, 58, 59, 60, 61, 66, 66, 66, 65, 66,
     66, 66, 0, 1, 2, 3, 4, 5, 6, 7, 8, 9, 10, 11, 12, 13, 14, 15, 16, 17, 18, 19, 20,
     21, 22, 23, 24, 25, 66, 66, 66, 66, 66, 66, 26, 27, 28, 29, 30, 31, 32, 33, 34, 35,
     36, 37, 38, 39, 40, 41, 42, 43, 44, 45, 46, 47, 48, 49, 50, 51]"

text \<open>
  The loop of \<open>B64StandardDecode\<close>: the bytes written so far and the accumulator \<open>buf\<close>,
  or \<open>None\<close> for \<open>return false\<close>. The classes 64, 65 and 66 of the table are
  \<open>WHITESPACE\<close>, \<open>EQUALS\<close> and \<open>INVALID\<close>.
\<close>

fun b64std_loop :: "bytes \<Rightarrow> u64 \<Rightarrow> bytes \<Rightarrow> (bytes \<times> u64) option" where
  "b64std_loop [] buf out = Some (out, buf)"
| "b64std_loop (v # vs) buf out =
     (if v > 122 then None
      else let c = b64_decode_table ! unat v in
        if c = 64 then b64std_loop vs buf out
        else if c = 66 then None
        else if c = 65 then Some (out, buf)
        else let buf' = push_bit 6 buf OR of_nat c in
          if buf' AND 0x1000000 \<noteq> 0
          then b64std_loop vs 1
                 (out @ [ucast (drop_bit 16 buf'), ucast (drop_bit 8 buf'), ucast buf'])
          else b64std_loop vs buf' out)"

definition B64StandardDecode :: "bytes \<Rightarrow> bytes option" where
  "B64StandardDecode inp =
     (case b64std_loop inp 1 [] of
        None \<Rightarrow> None
      | Some (out, buf) \<Rightarrow>
          Some (if buf AND 0x40000 \<noteq> 0
                then out @ [ucast (drop_bit 10 buf), ucast (drop_bit 2 buf)]
                else if buf AND 0x1000 \<noteq> 0 then out @ [ucast (drop_bit 4 buf)]
                else out))"

definition encodeLookup :: string where
  "encodeLookup = ''ABCDEFGHIJKLMNOPQRSTUVWXYZabcdefghijklmnopqrstuvwxyz0123456789+/''"

definition enc_char :: "u64 \<Rightarrow> byte" where
  "enc_char v = of_char (encodeLookup ! unat v)"

fun B64StandardEncode :: "bytes \<Rightarrow> bytes" where
  "B64StandardEncode (a # b # c # rest) =
     (let temp = push_bit 16 (ucast a) + push_bit 8 (ucast b) + ucast c :: u64 in
      [enc_char (drop_bit 18 (temp AND 0x00FC0000)), enc_char (drop_bit 12 (temp AND 0x0003F000)),
       enc_char (drop_bit 6 (temp AND 0x00000FC0)), enc_char (temp AND 0x0000003F)]
      @ B64StandardEncode rest)"
| "B64StandardEncode [a, b] =
     (let temp = push_bit 16 (ucast a) + push_bit 8 (ucast b) :: u64 in
      [enc_char (drop_bit 18 (temp AND 0x00FC0000)), enc_char (drop_bit 12 (temp AND 0x0003F000)),
       enc_char (drop_bit 6 (temp AND 0x00000FC0)), 61])"
| "B64StandardEncode [a] =
     (let temp = push_bit 16 (ucast a) :: u64 in
      [enc_char (drop_bit 18 (temp AND 0x00FC0000)), enc_char (drop_bit 12 (temp AND 0x0003F000)),
       61, 61])"
| "B64StandardEncode [] = []"

section \<open>Bit streams\<close>

definition wbits :: "nat \<Rightarrow> 'a::len word \<Rightarrow> bool list" where
  "wbits n w = map (bit w) [0..<n]"

definition bitstream :: "nat \<Rightarrow> bytes \<Rightarrow> bool list" where
  "bitstream n xs = concat (map (wbits n) xs)"

definition fits :: "nat \<Rightarrow> 'a::len word \<Rightarrow> bool" where
  "fits n w \<longleftrightarrow> (\<forall>i\<ge>n. \<not> bit w i)"

lemma length_wbits [simp]: "length (wbits n w) = n"
  by (simp add: wbits_def)

lemma length_bitstream [simp]: "length (bitstream n xs) = n * length xs"
  by (induction xs) (simp_all add: bitstream_def)

lemma bitstream_simps [simp]:
  "bitstream n [] = []" "bitstream n (x # xs) = wbits n x @ bitstream n xs"
  by (simp_all add: bitstream_def)

lemma wbits_0 [simp]: "wbits n 0 = replicate n False" "wbits 0 w = []"
  by (auto simp: wbits_def intro: nth_equalityI)

lemma fits_0 [simp]: "fits n 0"
  by (simp add: fits_def)

lemma fits_byte: "8 \<le> n \<Longrightarrow> fits n (x :: byte)"
  by (auto simp: fits_def dest: bit_imp_le_length)

lemma wbits_push:
  fixes work :: u64 and x :: byte
  assumes "fits wb work" "fits s x" "wb + s \<le> 64"
  shows "wbits (wb + s) (work OR push_bit wb (ucast x)) = wbits wb work @ wbits s x"
proof (rule nth_equalityI)
  fix i
  assume "i < length (wbits (wb + s) (work OR push_bit wb (ucast x)))"
  then have i: "i < wb + s" by simp
  show "wbits (wb + s) (work OR push_bit wb (ucast x)) ! i = (wbits wb work @ wbits s x) ! i"
    using assms i
    by (auto simp: wbits_def nth_append fits_def bit_simps not_less dest: bit_imp_le_length)
qed simp

lemma fits_push:
  fixes work :: u64 and x :: byte
  assumes "fits wb work" "fits s x"
  shows "fits (wb + s) (work OR push_bit wb (ucast x))"
  using assms by (auto simp: fits_def bit_simps)

lemma wbits_low_bits: "d \<le> 8 \<Longrightarrow> wbits d (low_bits d work) = wbits d work"
  by (auto simp: wbits_def low_bits_def bit_simps)

lemma fits_low_bits: "fits d (low_bits d work)"
  by (auto simp: fits_def low_bits_def bit_simps)

lemma wbits_drop_bit: "wbits n (drop_bit d work) = drop d (wbits (n + d) work)"
  by (rule nth_equalityI) (auto simp: wbits_def bit_simps add.commute)

lemma fits_drop_bit: "fits wb work \<Longrightarrow> fits (wb - d) (drop_bit d work)"
  by (auto simp: fits_def bit_simps)

lemma wbits_extend: "fits wb work \<Longrightarrow> wb \<le> n \<Longrightarrow> wbits n work = wbits wb work @ replicate (n - wb) False"
  by (rule nth_equalityI) (auto simp: wbits_def fits_def nth_append)

lemma wbits_8_inj: "wbits 8 x = wbits 8 y \<Longrightarrow> x = (y :: byte)"
  by (rule bit_word_eqI) (auto simp: wbits_def)

lemma bitstream_8_inj: "bitstream 8 xs = bitstream 8 ys \<Longrightarrow> xs = ys"
proof (induction xs arbitrary: ys)
  case Nil
  then show ?case by (cases ys) (auto simp: wbits_def)
next
  case (Cons x xs)
  then obtain y ys' where ys: "ys = y # ys'" by (cases ys) (auto simp: wbits_def)
  with Cons.prems have "wbits 8 x = wbits 8 y" "bitstream 8 xs = bitstream 8 ys'"
    by (auto dest: append_eq_append_conv [THEN iffD1, rotated])
  with Cons.IH ys show ?case using wbits_8_inj by blast
qed

lemma take_bitstream: "take (n * k) (bitstream n xs) = bitstream n (take k xs)"
proof (induction xs arbitrary: k)
  case (Cons x xs)
  then show ?case by (cases k) simp_all
qed simp

text \<open>
  \<open>spells d out B\<close>: the \<open>d\<close>-bit values \<open>out\<close> spell the bit stream \<open>B\<close>, cut off or padded
  with zero bits at the end.
\<close>

definition spells :: "nat \<Rightarrow> bytes \<Rightarrow> bool list \<Rightarrow> bool" where
  "spells d out B \<longleftrightarrow>
     bitstream d out = take (d * length out) (B @ replicate (d * length out) False)"

lemma spells_Nil [simp]: "spells d [] B"
  by (simp add: spells_def)

lemma spells_Cons:
  assumes y: "wbits d y = take d (B @ replicate d False)" and rest: "spells d out (drop d B)"
  shows "spells d (y # out) B"
proof -
  let ?m = "d * length out"
  have "take (d + ?m) (B @ replicate (d + ?m) False) =
      take d (B @ replicate (d + ?m) False) @ take ?m (drop d (B @ replicate (d + ?m) False))"
    by (rule take_add)
  also have "take d (B @ replicate (d + ?m) False) = wbits d y"
    by (simp add: y)
  also have "take ?m (drop d (B @ replicate (d + ?m) False)) = bitstream d out"
    using rest by (simp add: spells_def)
  finally show ?thesis by (simp add: spells_def)
qed

lemma cbi_fill_spec:
  assumes "cbi_fill s d src work wb = (src', work', wb')"
    and "fits (nat wb) work" "0 \<le> wb" "wb \<le> 16" "s \<le> 8" "d \<le> 8" "\<forall>x\<in>set src. fits s x"
  shows "fits (nat wb') work' \<and> 0 \<le> wb' \<and> wb' \<le> 16 \<and> (src' = [] \<or> int d \<le> wb') \<and>
    set src' \<subseteq> set src \<and>
    wbits (nat wb) work @ bitstream s src = wbits (nat wb') work' @ bitstream s src'"
  using assms
proof (induction s d src work wb rule: cbi_fill.induct)
  case (1 s d work wb)
  then show ?case by simp
next
  case (2 s d x src work wb)
  show ?case
  proof (cases "wb < int d")
    case True
    let ?w = "work OR push_bit (nat wb) (ucast x)"
    have x: "fits s x" using "2.prems" by simp
    have nat_wb: "nat (wb + int s) = nat wb + s" using "2.prems" by simp
    have bnd: "nat wb + s \<le> 64" using "2.prems" by simp
    have "cbi_fill s d src ?w (wb + int s) = (src', work', wb')" using "2.prems" True by simp
    moreover have "fits (nat (wb + int s)) ?w"
      unfolding nat_wb using "2.prems"(2) x by (rule fits_push)
    moreover have "wb + int s \<le> 16" using "2.prems" True by simp
    moreover have "wbits (nat (wb + int s)) ?w = wbits (nat wb) work @ wbits s x"
      unfolding nat_wb using "2.prems"(2) x bnd by (rule wbits_push)
    ultimately show ?thesis using "2.IH" "2.prems" True by auto
  next
    case False
    with "2.prems" show ?thesis by auto
  qed
qed

lemma cbi_flush_spec:
  assumes "0 < d" "d \<le> 8" "fits (nat wb) work"
  shows "spells d (cbi_flush d work wb) (wbits (nat wb) work) \<and>
    nat wb \<le> d * length (cbi_flush d work wb) \<and> d * length (cbi_flush d work wb) < nat wb + d \<and>
    (\<forall>y\<in>set (cbi_flush d work wb). fits d y)"
  using assms
proof (induction d work wb rule: cbi_flush.induct)
  case (1 d work wb)
  show ?case
  proof (cases "0 < wb")
    case True
    let ?out = "cbi_flush d (drop_bit d work) (wb - int d)"
    have nat_wb: "nat (wb - int d) = nat wb - d" by simp
    have IH: "spells d ?out (wbits (nat wb - d) (drop_bit d work))"
      "nat wb - d \<le> d * length ?out" "d * length ?out < nat wb - d + d" "\<forall>y\<in>set ?out. fits d y"
      using "1.IH" "1.prems" True fits_drop_bit [of "nat wb" work d] unfolding nat_wb by auto
    have rest: "wbits (nat wb - d) (drop_bit d work) = drop d (wbits (nat wb) work)"
      by (cases "d \<le> nat wb") (simp_all add: wbits_drop_bit)
    have "wbits d (low_bits d work) = take d (wbits (nat wb) work @ replicate d False)"
    proof (cases "d \<le> nat wb")
      case True
      then show ?thesis
        using "1.prems" by (simp add: wbits_low_bits) (simp add: wbits_def take_map)
    next
      case False
      then show ?thesis
        using "1.prems" wbits_extend [of "nat wb" work d] by (simp add: wbits_low_bits)
    qed
    with IH(1) rest have "spells d (low_bits d work # ?out) (wbits (nat wb) work)"
      by (simp add: spells_Cons)
    moreover have "nat wb \<le> d * length (low_bits d work # ?out)"
      using IH(2) by simp
    moreover have "d * length (low_bits d work # ?out) < nat wb + d"
      using IH(3) True "1.prems"(1) by (cases "d \<le> nat wb") auto
    moreover have "\<forall>y\<in>set (low_bits d work # ?out). fits d y"
      using IH(4) by (simp add: fits_low_bits)
    moreover have "cbi_flush d work wb = low_bits d work # ?out"
      using True "1.prems"(1) by (simp add: cbi_flush.simps [of d work wb])
    ultimately show ?thesis by simp
  next
    case False
    with "1.prems" show ?thesis by (simp add: cbi_flush.simps [of d work wb])
  qed
qed

lemma cbi_fill_bound:
  "cbi_fill s d src work wb = (src', work', wb') \<Longrightarrow> wb < int d \<Longrightarrow> wb' < int d + int s"
proof (induction s d src work wb rule: cbi_fill.induct)
  case (2 s d x src work wb)
  then show ?case
    using cbi_fill_stay [of "wb + int s" d s src] by (cases "wb + int s < int d") auto
qed simp

lemma cbi_rec_unfold:
  assumes "0 < d" "cbi_fill s d src work wb = (src', work', wb')"
  shows "changeBase2Inline_rec src s d p work wb =
    low_bits d work' #
      (if src' \<noteq> [] then changeBase2Inline_rec src' s d p (drop_bit d work') (wb' - int d)
       else if p then cbi_flush d (drop_bit d work') (wb' - int d) else [])"
  using assms by (simp add: changeBase2Inline_rec.simps [of src])

lemma wbits_head:
  assumes "d \<le> 8" "fits n work" "src = [] \<or> d \<le> n"
  shows "wbits d (low_bits d work) = take d ((wbits n work @ bitstream s src) @ replicate d False)"
    and "drop d (wbits n work @ bitstream s src) = wbits (n - d) (drop_bit d work) @ bitstream s src"
proof -
  consider "d \<le> n" | "src = []" "n < d" using assms(3) by linarith
  then show "wbits d (low_bits d work) = take d ((wbits n work @ bitstream s src) @ replicate d False)"
    using assms(1,2) wbits_extend [of n work d]
    by cases (simp_all add: wbits_low_bits, simp add: wbits_def take_map)
  show "drop d (wbits n work @ bitstream s src) = wbits (n - d) (drop_bit d work) @ bitstream s src"
    using assms(3) by (cases "d \<le> n") (auto simp: wbits_drop_bit)
qed

lemma cbi_rec_spells:
  assumes "0 < d" "d \<le> 8" "s \<le> 8" "fits (nat wb) work" "0 \<le> wb" "wb \<le> 16"
    "\<forall>x\<in>set src. fits s x"
  shows "spells d (changeBase2Inline_rec src s d p work wb) (wbits (nat wb) work @ bitstream s src)"
  using assms
proof (induction src s d p work wb rule: changeBase2Inline_rec.induct)
  case (1 src s d p work wb)
  obtain src' work' wb' where fill: "cbi_fill s d src work wb = (src', work', wb')"
    by (cases "cbi_fill s d src work wb") auto
  note spec = cbi_fill_spec [OF fill "1.prems"(4-6,3,2,7)]
  let ?B = "wbits (nat wb') work' @ bitstream s src'"
  have n: "src' = [] \<or> d \<le> nat wb'" using spec by auto
  note head = wbits_head [OF "1.prems"(2) _ n, of work' s]
  have nat_wb: "nat (wb' - int d) = nat wb' - d" by simp
  have fits': "fits (nat (wb' - int d)) (drop_bit d work')"
    using spec unfolding nat_wb by (simp add: fits_drop_bit)
  have "spells d (changeBase2Inline_rec src s d p work wb) ?B"
  proof (cases "src' = []")
    case False
    have "spells d (changeBase2Inline_rec src' s d p (drop_bit d work') (wb' - int d))
        (wbits (nat (wb' - int d)) (drop_bit d work') @ bitstream s src')"
      using "1.prems" False n spec by (intro "1.IH" [OF _ fill [symmetric] refl]) (auto simp: fits')
    then show ?thesis
      using False spec "1.prems"(1) head
      by (simp add: cbi_rec_unfold [OF _ fill] spells_Cons nat_wb)
  next
    case True
    have "spells d (cbi_flush d (drop_bit d work') (wb' - int d)) (wbits (nat wb' - d) (drop_bit d work'))"
      using cbi_flush_spec [OF "1.prems"(1,2) fits'] unfolding nat_wb by blast
    then show ?thesis
      using True spec "1.prems"(1) head
      by (simp add: cbi_rec_unfold [OF _ fill] spells_Cons)
  qed
  with spec show ?case by simp
qed

lemma cbi_flush_fits: "y \<in> set (cbi_flush d work wb) \<Longrightarrow> fits d y"
  by (induction d work wb rule: cbi_flush.induct)
    (subst (asm) (2) cbi_flush.simps, auto simp: fits_low_bits split: if_splits)

lemma cbi_rec_fits: "y \<in> set (changeBase2Inline_rec src s d p work wb) \<Longrightarrow> fits d y"
proof (induction src s d p work wb rule: changeBase2Inline_rec.induct)
  case (1 src s d p work wb)
  obtain src' work' wb' where fill: "cbi_fill s d src work wb = (src', work', wb')"
    by (cases "cbi_fill s d src work wb") auto
  show ?case
  proof (cases "d = 0")
    case True
    with "1.prems" show ?thesis by (simp add: changeBase2Inline_rec.simps [of src])
  next
    case False
    with "1.prems" "1.IH" [OF False fill [symmetric] refl] show ?thesis
      by (auto simp: cbi_rec_unfold [OF _ fill] fits_low_bits dest: cbi_flush_fits split: if_splits)
  qed
qed

lemma cbi_rec_length_partial:
  assumes "0 < d" "d \<le> 8" "s \<le> 8" "fits (nat wb) work" "0 \<le> wb" "wb \<le> 16"
    "\<forall>x\<in>set src. fits s x" "0 < nat wb + s * length src" "0 < s"
  shows "nat wb + s * length src \<le> d * length (changeBase2Inline_rec src s d True work wb) \<and>
    d * length (changeBase2Inline_rec src s d True work wb) < nat wb + s * length src + d"
  using assms
proof (induction src s d True work wb rule: changeBase2Inline_rec.induct)
  case (1 src s d work wb)
  obtain src' work' wb' where fill: "cbi_fill s d src work wb = (src', work', wb')"
    by (cases "cbi_fill s d src work wb") auto
  note spec = cbi_fill_spec [OF fill "1.prems"(4-6,3,2,7)]
  have total: "nat wb + s * length src = nat wb' + s * length src'"
    using arg_cong [OF conjunct2 [OF conjunct2 [OF conjunct2 [OF conjunct2 [OF conjunct2 [OF spec]]]]], of length]
    by simp
  have nat_wb: "nat (wb' - int d) = nat wb' - d" by simp
  have fits': "fits (nat (wb' - int d)) (drop_bit d work')"
    using spec unfolding nat_wb by (simp add: fits_drop_bit)
  show ?case
  proof (cases "src' = []")
    case False
    then have ge: "d \<le> nat wb'" using spec by auto
    let ?out = "changeBase2Inline_rec src' s d True (drop_bit d work') (wb' - int d)"
    have "0 < nat wb' - d + s * length src'" using "1.prems"(9) False by simp
    then have "nat wb' - d + s * length src' \<le> d * length ?out \<and>
        d * length ?out < nat wb' - d + s * length src' + d"
      using "1.hyps" [OF _ fill [symmetric] refl False] "1.prems" False ge spec fits'
      by (auto simp: nat_wb)
    moreover have "changeBase2Inline_rec src s d True work wb = low_bits d work' # ?out"
      using "1.prems" False by (simp add: cbi_rec_unfold [OF _ fill])
    ultimately show ?thesis unfolding total using ge by (simp only: list.size mult_Suc_right) auto
  next
    case True
    with cbi_flush_spec [OF "1.prems"(1,2) fits'] "1.prems"(1,8) total show ?thesis
      by (cases "d \<le> nat wb'") (auto simp: cbi_rec_unfold [OF _ fill])
  qed
qed

lemma cbi_rec_length_whole:
  assumes "0 < d" "d \<le> 8" "s \<le> d" "fits (nat wb) work" "0 \<le> wb" "wb < int d"
    "\<forall>x\<in>set src. fits s x"
  shows "nat wb + s * length src < d * length (changeBase2Inline_rec src s d p work wb) + d"
  using assms
proof (induction src s d p work wb rule: changeBase2Inline_rec.induct)
  case (1 src s d p work wb)
  obtain src' work' wb' where fill: "cbi_fill s d src work wb = (src', work', wb')"
    by (cases "cbi_fill s d src work wb") auto
  have spec: "fits (nat wb') work'" "0 \<le> wb'" "src' = [] \<or> int d \<le> wb'" "set src' \<subseteq> set src"
    and "wbits (nat wb) work @ bitstream s src = wbits (nat wb') work' @ bitstream s src'"
    using cbi_fill_spec [OF fill] "1.prems" by auto
  then have total: "nat wb + s * length src = nat wb' + s * length src'"
    by (auto dest: arg_cong [where f = length])
  have lt: "wb' < int d + int s" using cbi_fill_bound [OF fill "1.prems"(6)] .
  have nat_wb: "nat (wb' - int d) = nat wb' - d" by simp
  show ?case
  proof (cases "src' = []")
    case False
    have "nat (wb' - int d) + s * length src' <
        d * length (changeBase2Inline_rec src' s d p (drop_bit d work') (wb' - int d)) + d"
      using "1.prems" False spec lt fits_drop_bit [OF spec(1), of d]
      by (intro "1.IH" [OF _ fill [symmetric] refl]) (auto simp: nat_wb)
    with False "1.prems"(1) spec show ?thesis by (simp add: cbi_rec_unfold [OF _ fill] total nat_wb)
  next
    case True
    with "1.prems"(1,3) total lt show ?thesis
      by (auto simp: cbi_rec_unfold [OF _ fill])
  qed
qed

section \<open>Round trips of the change of base\<close>

lemma changeBase2Inline_to_stream:
  assumes "src \<noteq> []" "0 < d" "d \<le> 8"
  shows "\<exists>z. bitstream d (changeBase2Inline src 8 d True) = bitstream 8 src @ replicate z False \<and> z < d"
    and "\<forall>y\<in>set (changeBase2Inline src 8 d True). fits d y"
    and "length (changeBase2Inline src 8 d True) = (8 * length src + (d - 1)) div d"
proof -
  let ?out = "changeBase2Inline src 8 d True"
  have len: "8 * length src \<le> d * length ?out" "d * length ?out < 8 * length src + d"
    using cbi_rec_length_partial [of d 8 0 0 src] assms by (auto simp: changeBase2Inline_def fits_byte)
  have "spells d ?out (bitstream 8 src)"
    using cbi_rec_spells [of d 8 0 0 src True] assms by (auto simp: changeBase2Inline_def fits_byte)
  then have "bitstream d ?out = bitstream 8 src @ replicate (d * length ?out - 8 * length src) False"
    using len by (simp add: spells_def)
  with len show "\<exists>z. bitstream d ?out = bitstream 8 src @ replicate z False \<and> z < d"
    by (intro exI [of _ "d * length ?out - 8 * length src"]) auto
  show "\<forall>y\<in>set ?out. fits d y"
    by (auto simp: changeBase2Inline_def dest: cbi_rec_fits)
  have "d * length ?out \<le> 8 * length src + (d - 1)" "8 * length src + (d - 1) < d * length ?out + d"
    using len assms(2) by auto
  then show "length ?out = (8 * length src + (d - 1)) div d"
    by (intro div_nat_eqI [symmetric]) (auto simp: algebra_simps)
qed

lemma changeBase2Inline_roundtrip:
  assumes "src \<noteq> []" "0 < d" "d \<le> 8"
  shows "take (length src) (changeBase2Inline (changeBase2Inline src 8 d True) d 8 False) = src"
proof -
  let ?enc = "changeBase2Inline src 8 d True"
  let ?dec = "changeBase2Inline ?enc d 8 False"
  obtain z where z: "bitstream d ?enc = bitstream 8 src @ replicate z False" and "z < d"
    using changeBase2Inline_to_stream [OF assms] by blast
  have fits: "\<forall>y\<in>set ?enc. fits d y" using changeBase2Inline_to_stream [OF assms] by blast
  have len_enc: "d * length ?enc = 8 * length src + z" using arg_cong [OF z, of length] by simp
  have len: "8 * length src \<le> 8 * length ?dec"
    using cbi_rec_length_whole [of 8 d 0 0 ?enc False] assms fits len_enc
    by (auto simp: changeBase2Inline_def)
  have "spells 8 ?dec (bitstream d ?enc)"
    using cbi_rec_spells [of 8 d 0 0 ?enc False] assms fits by (auto simp: changeBase2Inline_def)
  then have "take (8 * length src) (bitstream 8 ?dec) = bitstream 8 src"
    using len by (simp add: spells_def z min_def)
  then have "bitstream 8 (take (length src) ?dec) = bitstream 8 src"
    by (simp add: take_bitstream)
  then show ?thesis by (rule bitstream_8_inj)
qed

section \<open>The file-name alphabets are inverse to each other\<close>

definition b64_alphabet :: "byte list" where
  "b64_alphabet = map of_char '',-0123456789ABCDEFGHIJKLMNOPQRSTUVWXYZabcdefghijklmnopqrstuvwxyz''"

definition b32_alphabet :: "byte list" where
  "b32_alphabet = map of_char ''ABCDEFGHIJKLMNOPQRSTUVWXYZ234567''"

lemma fits_less: "fits n w \<Longrightarrow> n < LENGTH('a) \<Longrightarrow> unat w < 2 ^ n" for w :: "'a::len word"
proof -
  assume f: "fits n w"
  have "take_bit n w = w"
    by (rule bit_word_eqI) (use f in \<open>auto simp: fits_def bit_simps not_le\<close>)
  then have "take_bit n (unat w) = unat w" by (metis unsigned_take_bit_eq)
  then show ?thesis by (metis take_bit_nat_less_exp)
qed

lemma byte_cases_less:
  assumes "unat (w :: byte) < n" "\<And>k. k < n \<Longrightarrow> P (of_nat k)"
  shows "P w"
  using assms(2) [OF assms(1)] by simp

lemma b64_chars_ok:
  "list_all (\<lambda>k. ascii_to_b64 (b64_to_ascii (of_nat k)) = of_nat k \<and>
       b64_to_ascii (of_nat k) = b64_alphabet ! k) [0..<64]"
  by code_simp

lemma b32_chars_ok:
  "list_all (\<lambda>k. ascii_to_b32 (b32_to_ascii (of_nat k)) = of_nat k \<and>
       ascii_to_b32 (b32_to_ascii (of_nat k) + (if k < 26 then 32 else 0)) = of_nat k \<and>
       b32_to_ascii (of_nat k) = b32_alphabet ! k) [0..<32]"
  by code_simp

lemma std_chars_ok:
  "list_all (\<lambda>k. enc_char (of_nat k) \<le> 122 \<and>
       b64_decode_table ! unat (enc_char (of_nat k)) = k) [0..<64]"
  by code_simp

lemma b64_ascii_inverse: "fits 6 y \<Longrightarrow> ascii_to_b64 (b64_to_ascii y) = y"
  and b64_ascii_letter: "fits 6 y \<Longrightarrow> b64_to_ascii y \<in> set b64_alphabet"
proof -
  have len: "length b64_alphabet = 64" by (simp add: b64_alphabet_def)
  assume "fits 6 y"
  then have y: "unat y < 64" using fits_less [of 6 y] by simp
  then have "ascii_to_b64 (b64_to_ascii (of_nat (unat y))) = of_nat (unat y) \<and>
      b64_to_ascii (of_nat (unat y)) = b64_alphabet ! unat y"
    using b64_chars_ok unfolding list_all_iff by (metis atLeastLessThan_iff le0 set_upt)
  then show "ascii_to_b64 (b64_to_ascii y) = y" "b64_to_ascii y \<in> set b64_alphabet"
    using len y by (auto simp del: nth_mem intro: nth_mem)
qed

lemma b32_ascii_inverse: "fits 5 y \<Longrightarrow> ascii_to_b32 (b32_to_ascii y) = y"
  and b32_ascii_letter: "fits 5 y \<Longrightarrow> b32_to_ascii y \<in> set b32_alphabet"
proof -
  have len: "length b32_alphabet = 32" by (simp add: b32_alphabet_def)
  assume "fits 5 y"
  then have y: "unat y < 32" using fits_less [of 5 y] by simp
  then have "ascii_to_b32 (b32_to_ascii (of_nat (unat y))) = of_nat (unat y) \<and>
      b32_to_ascii (of_nat (unat y)) = b32_alphabet ! unat y"
    using b32_chars_ok unfolding list_all_iff by (metis atLeastLessThan_iff le0 set_upt)
  then show "ascii_to_b32 (b32_to_ascii y) = y" "b32_to_ascii y \<in> set b32_alphabet"
    using len y by (auto simp del: nth_mem intro: nth_mem)
qed

lemma AsciiToB64_B64ToAscii: "\<forall>y\<in>set buf. fits 6 y \<Longrightarrow> AsciiToB64 (B64ToAscii buf) = buf"
  by (simp add: AsciiToB64_def B64ToAscii_def b64_ascii_inverse map_idI)

lemma AsciiToB32_B32ToAscii: "\<forall>y\<in>set buf. fits 5 y \<Longrightarrow> AsciiToB32 (B32ToAscii buf) = buf"
  by (simp add: AsciiToB32_def B32ToAscii_def b32_ascii_inverse map_idI)

text \<open>
  Lower-casing the output of \<open>B32ToAscii\<close>, as a case-insensitive file system may do, does
  not change what \<open>AsciiToB32\<close> reads.
\<close>

lemma toupper_idem: "toupper (toupper c) = toupper c"
  by (auto simp: toupper_def word_le_nat_alt unat_sub_if')

lemma ascii_to_b32_toupper: "ascii_to_b32 (toupper c) = ascii_to_b32 c"
  by (simp add: ascii_to_b32_def toupper_idem)

section \<open>Standard base 64 round trip\<close>

lemma enc_char_step:
  fixes v :: u64
  assumes "fits 6 v"
  shows "b64std_loop (enc_char v # vs) buf out =
    (let buf' = push_bit 6 buf OR v in
     if bit buf' 24
     then b64std_loop vs 1 (out @ [ucast (drop_bit 16 buf'), ucast (drop_bit 8 buf'), ucast buf'])
     else b64std_loop vs buf' out)"
proof -
  have v: "unat v < 64" using fits_less [OF assms] by simp
  then have *: "enc_char v \<le> 122" "b64_decode_table ! unat (enc_char v) = unat v"
    using std_chars_ok unfolding list_all_iff by (auto dest: bspec [of _ _ "unat v"])
  have "(0x1000000 :: u64) = 2 ^ 24" by simp
  then have bit24: "(x AND 0x1000000 \<noteq> 0) = bit x 24" for x :: u64
    by (metis and_exp_eq_0_iff_not_bit)
  show ?thesis using v * by (simp add: bit24 Let_def leD)
qed

lemma b64std_equals: "b64std_loop (61 # vs) buf out = Some (out, buf)"
  by (simp add: b64_decode_table_def)

lemma word3_or:
  fixes a b c :: byte
  shows "push_bit 16 (ucast a) + push_bit 8 (ucast b) + ucast c =
    (push_bit 16 (ucast a) OR push_bit 8 (ucast b) OR ucast c :: u64)"
proof -
  have "push_bit 16 (ucast a) + push_bit 8 (ucast b) = (push_bit 16 (ucast a) OR push_bit 8 (ucast b) :: u64)"
    by (rule disjunctive_add) (auto simp: bit_simps dest: bit_imp_le_length)
  moreover have "(push_bit 16 (ucast a) OR push_bit 8 (ucast b)) + ucast c =
      ((push_bit 16 (ucast a) OR push_bit 8 (ucast b)) OR ucast c :: u64)"
    by (rule disjunctive_add) (auto simp: bit_simps dest: bit_imp_le_length)
  ultimately show ?thesis by (simp add: or.assoc)
qed

lemma byte_bit_high: "8 \<le> n \<Longrightarrow> \<not> bit (x :: byte) n"
  by (auto dest: bit_imp_le_length)

lemma byte_eq_bits:
  fixes x y :: byte
  assumes "bit x 0 = bit y 0" "bit x 1 = bit y 1" "bit x 2 = bit y 2" "bit x 3 = bit y 3"
    "bit x 4 = bit y 4" "bit x 5 = bit y 5" "bit x 6 = bit y 6" "bit x 7 = bit y 7"
  shows "x = y"
proof (rule bit_word_eqI)
  fix n assume "n < LENGTH(8)"
  then have "n = 0 \<or> n = 1 \<or> n = 2 \<or> n = 3 \<or> n = 4 \<or> n = 5 \<or> n = 6 \<or> n = 7" by auto
  then show "bit x n = bit y n" using assms by auto
qed

text \<open>The four six-bit digits of a 24-bit group.\<close>

definition sextet :: "nat \<Rightarrow> u64 \<Rightarrow> u64" where
  "sextet k temp = take_bit 6 (drop_bit (6 * k) temp)"

lemma fits_sextet: "fits 6 (sextet k temp)"
  by (auto simp: fits_def sextet_def bit_simps)

lemma bit_sextet: "bit (sextet k temp) i \<longleftrightarrow> i < 6 \<and> bit temp (6 * k + i)"
  by (auto simp: sextet_def bit_simps)

lemma masks_sextet:
  "drop_bit 18 (temp AND 0x00FC0000) = sextet 3 temp" "drop_bit 12 (temp AND 0x0003F000) = sextet 2 temp"
  "drop_bit 6 (temp AND 0x00000FC0) = sextet (Suc 0) temp" "temp AND 0x0000003F = sextet 0 temp"
proof -
  have m: "(0x00FC0000 :: u64) = push_bit 18 (mask 6)" "(0x0003F000 :: u64) = push_bit 12 (mask 6)"
    "(0x00000FC0 :: u64) = push_bit 6 (mask 6)" "(0x0000003F :: u64) = mask 6"
    by (simp_all add: mask_eq_exp_minus_1)
  show "drop_bit 18 (temp AND 0x00FC0000) = sextet 3 temp"
    unfolding m by (rule bit_word_eqI) (auto simp: bit_simps sextet_def)
  show "drop_bit 12 (temp AND 0x0003F000) = sextet 2 temp"
    unfolding m by (rule bit_word_eqI) (auto simp: bit_simps sextet_def)
  show "drop_bit 6 (temp AND 0x00000FC0) = sextet (Suc 0) temp"
    unfolding m by (rule bit_word_eqI) (auto simp: bit_simps sextet_def)
  show "temp AND 0x0000003F = sextet 0 temp"
    unfolding m by (rule bit_word_eqI) (auto simp: bit_simps sextet_def)
qed

lemma b64std_group:
  fixes a b c :: byte
  defines "temp \<equiv> push_bit 16 (ucast a) OR push_bit 8 (ucast b) OR ucast c :: u64"
  shows "b64std_loop (enc_char (sextet 3 temp) # enc_char (sextet 2 temp) #
      enc_char (sextet (Suc 0) temp) # enc_char (sextet 0 temp) # vs) 1 out = b64std_loop vs 1 (out @ [a, b, c])"
proof -
  let ?b1 = "push_bit 6 1 OR sextet 3 temp" let ?b2 = "push_bit 6 ?b1 OR sextet 2 temp"
  let ?b3 = "push_bit 6 ?b2 OR sextet (Suc 0) temp" let ?b4 = "push_bit 6 ?b3 OR sextet 0 temp"
  have bits: "\<not> bit ?b1 24" "\<not> bit ?b2 24" "\<not> bit ?b3 24" "bit ?b4 24"
    by (simp_all add: bit_simps bit_sextet)
  have "ucast (drop_bit 16 ?b4) = a"
    by (rule byte_eq_bits)
      (simp_all add: bit_simps bit_sextet temp_def byte_bit_high)
  moreover have "ucast (drop_bit 8 ?b4) = b"
    by (rule byte_eq_bits)
      (simp_all add: bit_simps bit_sextet temp_def byte_bit_high)
  moreover have "ucast ?b4 = c"
    by (rule byte_eq_bits)
      (simp_all add: bit_simps bit_sextet temp_def byte_bit_high, simp only: numeral_2_eq_2)
  ultimately show ?thesis using bits
    by (simp add: enc_char_step fits_sextet Let_def del: b64std_loop.simps)
qed

lemma b64std_tail2:
  fixes a b :: byte
  defines "temp \<equiv> push_bit 16 (ucast a) OR push_bit 8 (ucast b) OR ucast (0 :: byte) :: u64"
  shows "\<exists>buf. b64std_loop (enc_char (sextet 3 temp) # enc_char (sextet 2 temp) #
      enc_char (sextet (Suc 0) temp) # 61 # vs) 1 out = Some (out, buf) \<and> bit buf 18 \<and>
      ucast (drop_bit 10 buf) = a \<and> ucast (drop_bit 2 buf) = b"
proof -
  let ?b1 = "push_bit 6 1 OR sextet 3 temp" let ?b2 = "push_bit 6 ?b1 OR sextet 2 temp"
  let ?b3 = "push_bit 6 ?b2 OR sextet (Suc 0) temp"
  have bits: "\<not> bit ?b1 24" "\<not> bit ?b2 24" "\<not> bit ?b3 24" "bit ?b3 18"
    by (simp_all add: bit_simps bit_sextet)
  have "ucast (drop_bit 10 ?b3) = a"
    by (rule byte_eq_bits)
      (simp_all add: bit_simps bit_sextet temp_def byte_bit_high)
  moreover have "ucast (drop_bit 2 ?b3) = b"
    by (rule byte_eq_bits)
      (simp_all add: bit_simps bit_sextet temp_def byte_bit_high)
  ultimately show ?thesis using bits
    by (intro exI [of _ ?b3]) (simp add: enc_char_step fits_sextet Let_def b64std_equals del: b64std_loop.simps)
qed

lemma b64std_tail1:
  fixes a :: byte
  defines "temp \<equiv> push_bit 16 (ucast a) OR push_bit 8 (ucast (0 :: byte)) OR ucast (0 :: byte) :: u64"
  shows "\<exists>buf. b64std_loop (enc_char (sextet 3 temp) # enc_char (sextet 2 temp) # 61 # vs) 1 out =
      Some (out, buf) \<and> \<not> bit buf 18 \<and> bit buf 12 \<and> ucast (drop_bit 4 buf) = a"
proof -
  let ?b1 = "push_bit 6 1 OR sextet 3 temp" let ?b2 = "push_bit 6 ?b1 OR sextet 2 temp"
  have bits: "\<not> bit ?b1 24" "\<not> bit ?b2 24" "\<not> bit ?b2 18" "bit ?b2 12"
    by (simp_all add: bit_simps bit_sextet)
  have "ucast (drop_bit 4 ?b2) = a"
    by (rule byte_eq_bits)
      (simp_all add: bit_simps bit_sextet temp_def byte_bit_high)
  then show ?thesis using bits
    by (intro exI [of _ ?b2]) (simp add: enc_char_step fits_sextet Let_def b64std_equals del: b64std_loop.simps)
qed

definition b64std_finish :: "(bytes \<times> u64) option \<Rightarrow> bytes option" where
  "b64std_finish r = map_option (\<lambda>(out, buf).
     if bit buf 18 then out @ [ucast (drop_bit 10 buf), ucast (drop_bit 2 buf)]
     else if bit buf 12 then out @ [ucast (drop_bit 4 buf)] else out) r"

lemma B64StandardDecode_finish: "B64StandardDecode inp = b64std_finish (b64std_loop inp 1 [])"
proof -
  have "(0x40000 :: u64) = 2 ^ 18" "(0x1000 :: u64) = 2 ^ 12" by simp_all
  then have "(x AND 0x40000 \<noteq> 0) = bit x 18" "(x AND 0x1000 \<noteq> 0) = bit x 12" for x :: u64
    by (metis and_exp_eq_0_iff_not_bit)+
  then show ?thesis
    by (simp add: B64StandardDecode_def b64std_finish_def map_option_case split: option.split)
qed

lemma B64StandardEncode_sextets:
  fixes a b c :: byte
  defines "t \<equiv> \<lambda>b c. push_bit 16 (ucast a) OR push_bit 8 (ucast b) OR ucast (c :: byte) :: u64"
  shows "B64StandardEncode (a # b # c # rest) =
      enc_char (sextet 3 (t b c)) # enc_char (sextet 2 (t b c)) # enc_char (sextet (Suc 0) (t b c)) #
      enc_char (sextet 0 (t b c)) # B64StandardEncode rest"
    and "B64StandardEncode [a, b] = [enc_char (sextet 3 (t b 0)), enc_char (sextet 2 (t b 0)),
      enc_char (sextet (Suc 0) (t b 0)), 61]"
    and "B64StandardEncode [a] = [enc_char (sextet 3 (t 0 0)), enc_char (sextet 2 (t 0 0)), 61, 61]"
  unfolding B64StandardEncode.simps Let_def word3_or masks_sextet t_def
  using word3_or [of a b 0] word3_or [of a 0 0] by (simp_all only: append_Cons append_Nil One_nat_def
      unsigned_0 push_bit_of_0 add_0_right masks_sextet)

lemma b64std_loop_encode:
  "b64std_finish (b64std_loop (B64StandardEncode xs) 1 out) = Some (out @ xs)"
proof (induction xs arbitrary: out rule: B64StandardEncode.induct)
  case (1 a b c rest)
  show ?case
    unfolding B64StandardEncode_sextets b64std_group "1.IH" [OF refl] by simp
next
  case (2 a b)
  show ?case
    using b64std_tail2 [of a b "[]" out] unfolding B64StandardEncode_sextets
    by (auto simp: b64std_finish_def simp del: b64std_loop.simps)
next
  case (3 a)
  show ?case
    using b64std_tail1 [of a "[61]" out] unfolding B64StandardEncode_sextets
    by (auto simp: b64std_finish_def simp del: b64std_loop.simps)
next
  case 4
  then show ?case by (simp add: b64std_finish_def bit_simps)
qed

section \<open>The in-place routine computes the same digits as the buffered one\<close>

lemma cb_emit_spec:
  assumes "0 < d" "d \<le> 8" "fits wb work" "cb_emit d work wb = (out, work', wb')"
  shows "bitstream d out @ wbits wb' work' = wbits wb work \<and> fits wb' work' \<and> wb' < d \<and>
    (\<forall>y\<in>set out. fits d y)"
  using assms
proof (induction d work wb arbitrary: out rule: cb_emit.induct)
  case (1 d work wb)
  show ?case
  proof (cases "d \<le> wb")
    case True
    obtain out1 where rec: "cb_emit d (drop_bit d work) (wb - d) = (out1, work', wb')"
      and out: "out = low_bits d work # out1"
      using "1.prems" True by (auto simp: cb_emit.simps [of d work wb] split: prod.splits)
    have IH: "bitstream d out1 @ wbits wb' work' = wbits (wb - d) (drop_bit d work)"
      "fits wb' work'" "wb' < d" "\<forall>y\<in>set out1. fits d y"
      using "1.IH" [OF _ _ _ _ rec] "1.prems" True fits_drop_bit by blast+
    have "wbits d work @ drop d (wbits wb work) = wbits wb work"
      using True by (metis append_take_drop_id take_map take_upt wbits_def add_0 diff_zero)
    with IH "1.prems" True show ?thesis
      by (simp add: out fits_low_bits wbits_low_bits wbits_drop_bit)
  next
    case False
    with "1.prems" show ?thesis by (auto simp: cb_emit.simps [of d work wb])
  qed
qed

lemma changeBase2_loop_spec:
  assumes "0 < d" "d \<le> 8" "s \<le> 8" "fits wb work" "wb < d" "\<forall>x\<in>set src. fits s x"
    "changeBase2_loop src s d work wb = (out, work', wb')"
  shows "bitstream d out @ wbits wb' work' = wbits wb work @ bitstream s src \<and> fits wb' work' \<and>
    wb' < d \<and> (\<forall>y\<in>set out. fits d y)"
  using assms
proof (induction src s d work wb arbitrary: out rule: changeBase2_loop.induct)
  case (1 s d work wb)
  then show ?case by simp
next
  case (2 x src s d work wb)
  let ?w = "work OR push_bit wb (ucast x)"
  obtain o1 w1 b1 where emit: "cb_emit d ?w (wb + s) = (o1, w1, b1)" by (cases "cb_emit d ?w (wb + s)") auto
  obtain o2 where rec: "changeBase2_loop src s d w1 b1 = (o2, work', wb')" and out: "out = o1 @ o2"
    using "2.prems" emit by (auto split: prod.splits)
  have x: "fits s x" and bnd: "wb + s \<le> 64" using "2.prems" by auto
  have e: "bitstream d o1 @ wbits b1 w1 = wbits (wb + s) ?w" "fits b1 w1" "b1 < d" "\<forall>y\<in>set o1. fits d y"
    using cb_emit_spec [OF "2.prems"(1,2) fits_push [OF "2.prems"(4) x] emit] by auto
  have "wbits (wb + s) ?w = wbits wb work @ wbits s x"
    using "2.prems"(4) x bnd by (rule wbits_push)
  moreover have "bitstream d o2 @ wbits wb' work' = wbits b1 w1 @ bitstream s src \<and> fits wb' work' \<and>
      wb' < d \<and> (\<forall>y\<in>set o2. fits d y)"
    using "2.prems" e rec by (intro "2.IH" [OF emit [symmetric] refl]) auto
  ultimately show ?case
    using e by (auto simp: out bitstream_def)
qed

lemma fits_wbits_inj: "fits d x \<Longrightarrow> fits d y \<Longrightarrow> wbits d x = wbits d y \<Longrightarrow> x = (y :: byte)"
  by (rule bit_word_eqI) (auto simp: wbits_def fits_def not_le [symmetric])

lemma bitstream_inj:
  assumes "bitstream d xs = bitstream d ys" "0 < d" "\<forall>y\<in>set xs. fits d y" "\<forall>y\<in>set ys. fits d y"
  shows "xs = ys"
  using assms
proof (induction xs arbitrary: ys)
  case Nil
  then show ?case by (cases ys) (auto dest: arg_cong [where f = length])
next
  case (Cons x xs)
  then obtain y ys' where ys: "ys = y # ys'" by (cases ys) (auto dest: arg_cong [where f = length])
  with Cons.prems have "wbits d x = wbits d y" "bitstream d xs = bitstream d ys'" by auto
  with Cons ys fits_wbits_inj show ?case by auto
qed

lemma changeBase2_eq_inline:
  assumes "src \<noteq> []" "0 < s" "s \<le> 8" "0 < d" "d \<le> 8" "\<forall>x\<in>set src. fits s x"
    "length (changeBase2Inline src s d True) \<le> dstLen"
  shows "changeBase2 src s dstLen d = changeBase2Inline src s d True"
proof -
  let ?inl = "changeBase2Inline src s d True"
  obtain out work wb where loop: "changeBase2_loop src s d 0 0 = (out, work, wb)"
    by (cases "changeBase2_loop src s d 0 0") auto
  have l: "bitstream d out @ wbits wb work = bitstream s src" "fits wb work" "wb < d" "\<forall>y\<in>set out. fits d y"
    using changeBase2_loop_spec [OF assms(4,5,3) _ _ assms(6) loop] assms(4) by auto
  have total: "d * length out + wb = s * length src" using arg_cong [OF l(1), of length] by simp
  have len: "s * length src \<le> d * length ?inl" "d * length ?inl < s * length src + d"
    using cbi_rec_length_partial [of d s 0 0 src] assms by (auto simp: changeBase2Inline_def)
  have inl: "bitstream d ?inl = bitstream s src @ replicate (d * length ?inl - s * length src) False"
    using cbi_rec_spells [of d s 0 0 src True] assms len by (auto simp: changeBase2Inline_def spells_def)
  have fits: "\<forall>y\<in>set ?inl. fits d y" by (auto simp: changeBase2Inline_def dest: cbi_rec_fits)
  show ?thesis
  proof (cases "wb = 0")
    case True
    then have "d * length ?inl < d * length out + d" "d * length out \<le> d * length ?inl"
      using total len by auto
    then have "length ?inl = length out" using assms(4) by (metis add.commute le_antisym less_Suc_eq_le
        mult_Suc_right mult_less_cancel1 mult_le_cancel1)
    then have "bitstream d out = bitstream d ?inl" using l(1) inl total True by simp
    then have "out = ?inl" using assms(4) l(4) fits by (rule bitstream_inj)
    then show ?thesis using True by (simp add: changeBase2_def loop)
  next
    case False
    let ?full = "out @ [low_bits d work]"
    have n: "length ?inl = length ?full"
    proof -
      have "d * length out < d * length ?inl"
        using total len False by linarith
      moreover have "d * length ?inl < d * length out + d + d"
        using total len l(3) by linarith
      then have "d * length ?inl < d * (length out + 2)"
        by (simp add: algebra_simps)
      ultimately have "length out < length ?inl" "length ?inl < length out + 2"
        using mult_less_cancel1 by blast+
      then show ?thesis by simp
    qed
    have "wbits d (low_bits d work) = wbits wb work @ replicate (d - wb) False"
      using l(2,3) assms(5) wbits_extend [of wb work d] by (simp add: wbits_low_bits)
    then have "bitstream d ?full = bitstream s src @ replicate (d - wb) False"
      using l(1) by (simp add: bitstream_def)
    moreover have "d * length ?inl - s * length src = d - wb"
      using n total l(3) by simp
    ultimately have "bitstream d ?full = bitstream d ?inl" using inl by simp
    then have "?full = ?inl"
      using assms(4) l(4) fits by (intro bitstream_inj) (auto simp: fits_low_bits)
    moreover have "length out < dstLen" using n assms(7) by simp
    ultimately show ?thesis using False by (simp add: changeBase2_def loop)
  qed
qed


lemma base64_name_facts:
  assumes "src \<noteq> []"
  defines "enc \<equiv> B64ToAscii (changeBase2Inline src 8 6 True)"
  shows "take (length src) (changeBase2Inline (AsciiToB64 enc) 6 8 False) = src \<and>
    length enc = B256ToB64Bytes (length src) \<and> set enc \<subseteq> set b64_alphabet"
proof -
  have f: "\<forall>y\<in>set (changeBase2Inline src 8 6 True). fits 6 y"
    using changeBase2Inline_to_stream [OF assms(1), of 6] by simp
  have "take (length src) (changeBase2Inline (AsciiToB64 enc) 6 8 False) = src"
    using changeBase2Inline_roundtrip [OF assms(1), of 6] f by (simp add: enc_def AsciiToB64_B64ToAscii)
  moreover have "length enc = B256ToB64Bytes (length src)"
    using changeBase2Inline_to_stream(3) [OF assms(1), of 6]
    by (simp add: enc_def B64ToAscii_def B256ToB64Bytes_def mult.commute)
  moreover have "set enc \<subseteq> set b64_alphabet"
    using f by (auto simp: enc_def B64ToAscii_def b64_ascii_letter)
  ultimately show ?thesis by blast
qed

lemma base32_name_facts:
  assumes "src \<noteq> []"
  defines "enc \<equiv> B32ToAscii (changeBase2Inline src 8 5 True)"
  shows "take (length src) (changeBase2Inline (AsciiToB32 enc) 5 8 False) = src \<and>
    length enc = B256ToB32Bytes (length src) \<and> set enc \<subseteq> set b32_alphabet \<and>
    (\<forall>enc'. map toupper enc' = map toupper enc \<longrightarrow> AsciiToB32 enc' = AsciiToB32 enc)"
proof -
  have f: "\<forall>y\<in>set (changeBase2Inline src 8 5 True). fits 5 y"
    using changeBase2Inline_to_stream [OF assms(1), of 5] by simp
  have "take (length src) (changeBase2Inline (AsciiToB32 enc) 5 8 False) = src"
    using changeBase2Inline_roundtrip [OF assms(1), of 5] f by (simp add: enc_def AsciiToB32_B32ToAscii)
  moreover have "length enc = B256ToB32Bytes (length src)"
    using changeBase2Inline_to_stream(3) [OF assms(1), of 5]
    by (simp add: enc_def B32ToAscii_def B256ToB32Bytes_def mult.commute)
  moreover have "set enc \<subseteq> set b32_alphabet"
    using f by (auto simp: enc_def B32ToAscii_def b32_ascii_letter)
  moreover have "AsciiToB32 enc' = AsciiToB32 enc" if "map toupper enc' = map toupper enc" for enc'
  proof -
    have a: "AsciiToB32 xs = map ascii_to_b32 (map toupper xs)" for xs
      by (simp add: AsciiToB32_def ascii_to_b32_toupper)
    show ?thesis unfolding a that ..
  qed
  ultimately show ?thesis by blast
qed

section \<open>What the callers rely on\<close>

text \<open>
  Claim C23. File-name bytes survive the trip through the base 64 alphabet: changing 8-bit
  bytes to 6-bit digits in place, spelling them in the file-name alphabet, reading the letters
  back and changing to 8-bit bytes again gives the original bytes; the encoded name has the
  length \<open>B256ToB64Bytes\<close> predicts and uses only the 64 letters of the alphabet (so neither
  a slash, nor a dot, nor a NUL).
\<close>

theorem base64_name_roundtrip:
  assumes "src \<noteq> []"
  defines "enc \<equiv> B64ToAscii (changeBase2Inline src 8 6 True)"
  shows "take (length src) (changeBase2Inline (AsciiToB64 enc) 6 8 False) = src \<and>
    length enc = B256ToB64Bytes (length src) \<and> set enc \<subseteq> set b64_alphabet"
  unfolding enc_def by (rule base64_name_facts [OF assms(1)])

theorem base64_name_roundtrip_witness:
  "take (length [255, 7 :: byte])
      (changeBase2Inline (AsciiToB64 (B64ToAscii (changeBase2Inline [255, 7] 8 6 True))) 6 8 False)
     = [255, 7] \<and> [255, 7 :: byte] \<noteq> []"
  using base64_name_roundtrip [of "[255, 7]"] by blast

text \<open>
  Claim C24. The same round trip for the base 32 alphabet of case-insensitive file systems;
  moreover reading the encoded name after its letters were upper-cased or lower-cased by the
  file system gives the same bytes, since \<open>AsciiToB32\<close> folds case first.
\<close>

theorem base32_name_roundtrip:
  assumes "src \<noteq> []"
  defines "enc \<equiv> B32ToAscii (changeBase2Inline src 8 5 True)"
  shows "take (length src) (changeBase2Inline (AsciiToB32 enc) 5 8 False) = src \<and>
    length enc = B256ToB32Bytes (length src) \<and> set enc \<subseteq> set b32_alphabet \<and>
    (\<forall>enc'. map toupper enc' = map toupper enc \<longrightarrow> AsciiToB32 enc' = AsciiToB32 enc)"
  unfolding enc_def by (rule base32_name_facts [OF assms(1)])

theorem base32_name_roundtrip_witness:
  "take (length [1, 2, 200 :: byte])
      (changeBase2Inline (AsciiToB32 (B32ToAscii (changeBase2Inline [1, 2, 200] 8 5 True))) 5 8 False)
     = [1, 2, 200] \<and> [1, 2, 200 :: byte] \<noteq> []"
  using base32_name_roundtrip [of "[1, 2, 200]"] by blast

text \<open>
  Claim C25. The recursive in-place routine writes exactly the digits that the buffered
  \<open>changeBase2\<close> writes when the destination has the room \<open>B256ToB64Bytes\<close> asks for, as it
  has in \<open>Cipher::encodeAsString\<close>.
\<close>

theorem changeBase2_inline_equiv:
  assumes "src \<noteq> []"
  shows "changeBase2 src 8 (B256ToB64Bytes (length src)) 6 = changeBase2Inline src 8 6 True"
  using assms changeBase2Inline_to_stream(3) [OF assms, of 6]
  by (intro changeBase2_eq_inline) (simp_all add: B256ToB64Bytes_def fits_byte mult.commute)

theorem changeBase2_inline_equiv_witness:
  "changeBase2 [9, 8, 7, 6] 8 (B256ToB64Bytes (length [9, 8, 7, 6 :: byte])) 6 = changeBase2Inline [9, 8, 7, 6] 8 6 True \<and>
   [9, 8, 7, 6 :: byte] \<noteq> []"
  using changeBase2_inline_equiv [of "[9, 8, 7, 6]"] by blast

text \<open>
  Claim C26. \<open>B64StandardDecode\<close> inverts \<open>B64StandardEncode\<close> on every byte vector, with the
  padding characters the encoder adds; these two carry the key and the salt through the XML
  configuration.
\<close>

theorem b64_standard_roundtrip: "B64StandardDecode (B64StandardEncode xs) = Some xs"
  by (simp add: B64StandardDecode_finish b64std_loop_encode)

end
