(* ===== verification/Versioning.thy ===== *)
theory Versioning
  imports Encfs_Prelude "HOL-Library.List_Lexorder" "HOL-Library.Product_Lexorder"
    "HOL-Library.Signed_Division"
begin

text \<open>
  Interface descriptions (\<^verbatim>\<open>encfs/Interface.cpp\<close>) and ranges of permitted sizes
  (\<^verbatim>\<open>encfs/Range.h\<close>), with which a volume names the algorithms it needs.

  The relational operators of \<open>Interface\<close> are compared with the lexicographic order they
  mean; \<open>Range::closest\<close>, which calls itself, is a partial function whose every outcome is
  determined, not returning included.
\<close>

section \<open>Interface\<close>

record interface =
  if_name :: bytes
  if_current :: int
  if_revision :: int
  if_age :: int

definition Interface :: "bytes \<Rightarrow> int \<Rightarrow> int \<Rightarrow> int \<Rightarrow> interface" where
  "Interface nm Current Revision Age =
     \<lparr>if_name = nm, if_current = Current, if_revision = Revision, if_age = Age\<rparr>"

definition Interface_default :: interface where
  "Interface_default = Interface [] 0 0 0"

definition iface_eq :: "interface \<Rightarrow> interface \<Rightarrow> bool" where
  "iface_eq A B = (if_name A = if_name B \<and> if_current A = if_current B \<and>
     if_revision A = if_revision B \<and> if_age A = if_age B)"

definition iface_ne :: "interface \<Rightarrow> interface \<Rightarrow> bool" where
  "iface_ne A B = (if_name A \<noteq> if_name B \<or> if_current A \<noteq> if_current B \<or>
     if_revision A \<noteq> if_revision B \<or> if_age A \<noteq> if_age B)"

definition sign :: "int \<Rightarrow> int \<Rightarrow> int" where
  "sign a b = (if a < b then 0 else if a = b then 1 else 2)"

definition diffSum :: "interface \<Rightarrow> interface \<Rightarrow> int" where
  "diffSum A B =
     (let cS = sign (if_current A) (if_current B);
          aS = sign (if_age A) (if_age B);
          rS = sign (if_revision A) (if_revision B)
      in (cS * 3 + aS) * 3 + rS)"

definition EqualVersion :: int where
  "EqualVersion = (1 * 3 + 1) * 3 + 1"

definition implements :: "interface \<Rightarrow> interface \<Rightarrow> bool" where
  "implements A B =
     (if if_name A \<noteq> if_name B then False
      else let currentDiff = if_current A - if_current B
           in currentDiff \<ge> 0 \<and> currentDiff \<le> if_age A)"

definition iface_lt :: "interface \<Rightarrow> interface \<Rightarrow> bool" where
  "iface_lt A B = (if if_name A = if_name B then diffSum A B < EqualVersion
                   else if_name A < if_name B)"

definition iface_gt :: "interface \<Rightarrow> interface \<Rightarrow> bool" where
  "iface_gt A B = (if if_name A = if_name B then diffSum A B > EqualVersion
                   else if_name A < if_name B)"

definition iface_le :: "interface \<Rightarrow> interface \<Rightarrow> bool" where
  "iface_le A B = (if if_name A = if_name B then diffSum A B \<le> EqualVersion
                   else if_name A < if_name B)"

definition iface_ge :: "interface \<Rightarrow> interface \<Rightarrow> bool" where
  "iface_ge A B = (if if_name A = if_name B then diffSum A B \<ge> EqualVersion
                   else if_name A < if_name B)"

section \<open>Range\<close>

record range =
  minVal :: int
  maxVal :: int
  increment :: int

definition Range_single :: "int \<Rightarrow> range" where
  "Range_single minMax = \<lparr>minVal = minMax, maxVal = minMax, increment = 1\<rparr>"

definition Range :: "int \<Rightarrow> int \<Rightarrow> int \<Rightarrow> range" where
  "Range mn mx increm =
     \<lparr>minVal = mn, maxVal = mx, increment = (if increm = 0 then 1 else increm)\<rparr>"

definition Range_default :: range where
  "Range_default = \<lparr>minVal = -1, maxVal = -1, increment = 1\<rparr>"

definition allowed :: "range \<Rightarrow> int \<Rightarrow> bool" where
  "allowed r value =
     (value \<ge> minVal r \<and> value \<le> maxVal r \<and>
      (let tmp = value - minVal r in tmp smod increment r = 0))"

text \<open>The call of \<open>closest\<close> on itself may not end; not returning is the value \<open>None\<close>.\<close>

partial_function (option) closest :: "range \<Rightarrow> int \<Rightarrow> int option" where
  "closest r value =
     (if allowed r value then Some value
      else if value < minVal r then Some (minVal r)
      else if value > maxVal r then Some (maxVal r)
      else let tmp = value - minVal r;
               tmp = tmp + drop_bit 1 (increment r);
               tmp = tmp - tmp smod increment r
           in closest r (value + tmp))"

section \<open>Lemmas\<close>

abbreviation version_key :: "interface \<Rightarrow> bytes \<times> int \<times> int \<times> int" where
  "version_key A \<equiv> (if_name A, if_current A, if_age A, if_revision A)"

lemma sign_cases:
  obtains "a < b" "sign a b = 0" | "a = b" "sign a b = 1" | "a > b" "sign a b = 2"
  by (cases "a < b"; cases "a = b") (auto simp: sign_def)

lemma diffSum_order:
  "diffSum A B < EqualVersion \<longleftrightarrow>
     (if_current A, if_age A, if_revision A) < (if_current B, if_age B, if_revision B)"
  "diffSum A B > EqualVersion \<longleftrightarrow>
     (if_current A, if_age A, if_revision A) > (if_current B, if_age B, if_revision B)"
  by (auto simp: diffSum_def EqualVersion_def sign_def)

lemma smod_nonneg: "0 \<le> (a::int) \<Longrightarrow> 0 < b \<Longrightarrow> a smod b = a mod b"
  by (cases "a = 0") (simp_all add: signed_modulo_int_def signed_divide_int_def minus_div_mult_eq_mod)

lemma allowed_pos:
  "0 < increment r \<Longrightarrow>
   allowed r v \<longleftrightarrow> minVal r \<le> v \<and> v \<le> maxVal r \<and> (v - minVal r) mod increment r = 0"
  by (auto simp: allowed_def smod_nonneg)

text \<open>Inside the range and off the grid the call continues at a value with the same residue.\<close>

definition closest_step :: "range \<Rightarrow> int \<Rightarrow> int" where
  "closest_step r v = (let t = v - minVal r + increment r div 2 in v + (t - t mod increment r))"

lemma closest_rec:
  assumes "0 < increment r" "minVal r \<le> v" "v \<le> maxVal r" "\<not> allowed r v"
  shows "closest r v = closest r (closest_step r v)"
  using assms
  by (subst closest.simps) (simp add: Let_def closest_step_def smod_nonneg drop_bit_Suc drop_bit_eq_div)

lemma closest_step_residue:
  "(closest_step r v - minVal r) mod increment r = (v - minVal r) mod increment r"
proof -
  let ?i = "increment r" and ?t = "v - minVal r + increment r div 2"
  have "closest_step r v - minVal r = (v - minVal r) + ?t div ?i * ?i"
    by (simp add: closest_step_def Let_def minus_mod_eq_div_mult)
  then show ?thesis by (simp only: mod_mult_self1)
qed

lemma closest_step_grows:
  assumes "0 < increment r" "increment r \<le> v - minVal r + increment r div 2"
  shows "v + increment r \<le> closest_step r v"
proof -
  let ?i = "increment r" and ?t = "v - minVal r + increment r div 2"
  have "1 \<le> ?t div ?i" using assms by (simp add: pos_imp_zdiv_pos_iff int_one_le_iff_zero_less)
  then have "?i \<le> ?t div ?i * ?i" using assms(1) by (simp add: mult_le_cancel_right1)
  then show ?thesis by (simp add: closest_step_def Let_def minus_mod_eq_div_mult)
qed

lemma closest_climbs:
  assumes "0 < increment r" "minVal r \<le> v" "(v - minVal r) mod increment r \<noteq> 0"
    and "increment r \<le> v - minVal r + increment r div 2"
  shows "closest r v = Some (maxVal r)"
  using assms
proof (induction "nat (maxVal r + 1 - v)" arbitrary: v rule: less_induct)
  case less
  have na: "\<not> allowed r v" using less.prems by (simp add: allowed_pos)
  show ?case
  proof (cases "v \<le> maxVal r")
    case False
    then show ?thesis using na less.prems by (subst closest.simps) simp
  next
    case True
    have g: "v + increment r \<le> closest_step r v" using less.prems by (intro closest_step_grows)
    have "closest r (closest_step r v) = Some (maxVal r)"
      using g True less.prems by (intro less.hyps) (auto simp: closest_step_residue)
    then show ?thesis using closest_rec na True less.prems by simp
  qed
qed

text \<open>Where the rounding goes down to the first multiple the argument does not change.\<close>

lemma closest_stuck:
  assumes "0 < increment r" "minVal r \<le> v" "v \<le> maxVal r"
    and "(v - minVal r) mod increment r \<noteq> 0" "v - minVal r + increment r div 2 < increment r"
  shows "closest r v = None"
proof (rule ccontr)
  assume "closest r v \<noteq> None"
  then obtain y where "closest r v = Some y" by blast
  then have "\<not> (r = r \<and> v = v)"
  proof (rule closest.raw_induct [of "\<lambda>r' v' y. \<not> (r' = r \<and> v' = v)", rotated])
    fix f r' v' y
    assume ih: "\<And>r' v' y. f r' v' = Some y \<Longrightarrow> \<not> (r' = r \<and> v' = v)"
      and eq: "(if allowed r' v' then Some v' else if v' < minVal r' then Some (minVal r')
        else if v' > maxVal r' then Some (maxVal r')
        else let tmp = v' - minVal r'; tmp = tmp + drop_bit 1 (increment r');
                 tmp = tmp - tmp smod increment r' in f r' (v' + tmp)) = Some y"
    show "\<not> (r' = r \<and> v' = v)"
    proof
      assume "r' = r \<and> v' = v"
      moreover have "\<not> allowed r v" using assms by (simp add: allowed_pos)
      moreover have "(v - minVal r + drop_bit 1 (increment r)) smod increment r
          = v - minVal r + increment r div 2"
        using assms by (simp add: drop_bit_Suc drop_bit_eq_div smod_nonneg)
      ultimately have "f r v = Some y" using eq assms(2,3) by (simp add: Let_def drop_bit_Suc drop_bit_eq_div)
      then show False using ih by blast
    qed
  qed
  then show False by simp
qed

section \<open>What the callers rely on\<close>

text \<open>
  Claim C27. \<open>operator<\<close> on interfaces, computed from the base 3 number of the signs, is the
  strict lexicographic order on name, current version, age and revision, and on interfaces
  of one name \<open>operator<=\<close>, \<open>operator>\<close> and \<open>operator>=\<close> are its companions; \<open>operator==\<close>
  is equality and \<open>operator!=\<close> its negation.
\<close>

theorem interface_order:
  "(iface_lt A B \<longleftrightarrow> version_key A < version_key B) \<and>
   (iface_eq A B \<longleftrightarrow> A = B) \<and> (iface_ne A B \<longleftrightarrow> A \<noteq> B) \<and>
   (if_name A = if_name B \<longrightarrow>
      (iface_le A B \<longleftrightarrow> version_key A \<le> version_key B) \<and>
      (iface_gt A B \<longleftrightarrow> version_key B < version_key A) \<and>
      (iface_ge A B \<longleftrightarrow> version_key B \<le> version_key A))"
proof -
  have "iface_eq A B \<longleftrightarrow> A = B" by (auto simp: iface_eq_def)
  moreover have "iface_ne A B \<longleftrightarrow> A \<noteq> B" by (auto simp: iface_ne_def)
  moreover have "iface_lt A B \<longleftrightarrow> version_key A < version_key B"
    by (auto simp: iface_lt_def diffSum_order)
  moreover have "iface_gt A B \<longleftrightarrow> version_key B < version_key A"
    "iface_le A B \<longleftrightarrow> version_key A \<le> version_key B"
    "iface_ge A B \<longleftrightarrow> version_key B \<le> version_key A" if "if_name A = if_name B"
    using that diffSum_order [of A B]
    by (simp_all add: iface_gt_def iface_le_def iface_ge_def linorder_not_less [symmetric])
  ultimately show ?thesis by blast
qed

theorem interface_order_witness:
  "iface_le (Interface [65] 2 1 0) (Interface [65] 2 0 1) \<longleftrightarrow>
   version_key (Interface [65] 2 1 0) \<le> version_key (Interface [65] 2 0 1)"
  using interface_order [of "Interface [65] 2 1 0" "Interface [65] 2 0 1"]
  by (simp add: Interface_def)

text \<open>
  Across different names \<open>operator>\<close> and \<open>operator>=\<close> answer \<open>operator<\<close>: two
  interfaces with different names are each both smaller and greater than the other, or neither,
  so \<open>operator>\<close> is not the converse of \<open>operator<\<close>.
\<close>

theorem interface_gt_names:
  assumes "if_name A \<noteq> if_name B"
  shows "(iface_gt A B \<longleftrightarrow> iface_lt A B) \<and> (iface_ge A B \<longleftrightarrow> iface_lt A B) \<and>
    (iface_gt A B \<longleftrightarrow> \<not> iface_lt B A)"
  using assms by (auto simp: iface_gt_def iface_ge_def iface_lt_def)

theorem interface_gt_names_witness:
  "if_name (Interface (str ''nameio/block'') 4 0 2) \<noteq> if_name (Interface (str ''nameio/stream'') 2 1 2) \<and>
   iface_lt (Interface (str ''nameio/block'') 4 0 2) (Interface (str ''nameio/stream'') 2 1 2) \<and>
   iface_gt (Interface (str ''nameio/block'') 4 0 2) (Interface (str ''nameio/stream'') 2 1 2)"
  using interface_gt_names [of "Interface (str ''nameio/block'') 4 0 2" "Interface (str ''nameio/stream'') 2 1 2"]
  by (simp add: Interface_def str_def iface_lt_def)

text \<open>
  \<open>implements\<close> accepts exactly the versions from \<open>current - age\<close> to \<open>current\<close> of the
  same interface; a provider extended by one compatible version (current and age both grown)
  still implements everything it did.
\<close>

theorem implements_window:
  "(implements A B \<longleftrightarrow> if_name A = if_name B \<and> if_current B \<in> {if_current A - if_age A..if_current A}) \<and>
   (implements A B \<longrightarrow> implements (A\<lparr>if_current := if_current A + 1, if_age := if_age A + 1\<rparr>) B)"
  by (auto simp: implements_def Let_def)

theorem implements_window_witness:
  "implements (Interface [98] 3 0 2) (Interface [98] 1 0 0) \<and>
   implements ((Interface [98] 3 0 2)\<lparr>if_current := 4, if_age := 3\<rparr>) (Interface [98] 1 0 0)"
  using implements_window [of "Interface [98] 3 0 2" "Interface [98] 1 0 0"]
  by (simp add: Interface_def)



end
