(* ===== verification/Cipher_Core.thy ===== *)
theory Cipher_Core
  imports Base64 Versioning
begin

text \<open>
  The abstract class \<open>Cipher\<close> (\<^verbatim>\<open>encfs/Cipher.h\<close>, \<^verbatim>\<open>encfs/Cipher.cpp\<close>): its virtual
  functions as the record \<open>cipher\<close>, the reductions of the 64 bit MAC, the registry of
  algorithms, and \<open>NullCipher\<close> (\<^verbatim>\<open>encfs/NullCipher.cpp\<close>).

  A coder works in place and tells whether it succeeded: it is a function from the buffer and
  the seed to an exception, \<open>None\<close> (it returned false) or the new buffer. Keys are values of
  the type \<open>'k\<close>; \<open>'r\<close> is the state of the random number generator.

  \<open>block_codec\<close> states what the file and name layers rely on: decoding inverts encoding, and
  the length does not change.
\<close>

section \<open>The interface\<close>

type_synonym coder = "bytes \<Rightarrow> u64 \<Rightarrow> exn + bytes option"

record ('k, 'r) cipher =
  c_interface :: interface
  c_keySize :: nat
  c_encodedKeySize :: nat
  c_cipherBlockSize :: nat
  c_randomize :: "nat \<Rightarrow> 'r \<Rightarrow> bytes option \<times> 'r"
  c_MAC_64 :: "bytes \<Rightarrow> 'k \<Rightarrow> u64 option \<Rightarrow> exn + u64"
  c_MAC_chains :: bool
  c_readKey :: "bytes \<Rightarrow> 'k \<Rightarrow> bool \<Rightarrow> exn + 'k option"
  c_writeKey :: "'k \<Rightarrow> 'k \<Rightarrow> exn + bytes"
  c_streamEncode :: "'k \<Rightarrow> coder"
  c_streamDecode :: "'k \<Rightarrow> coder"
  c_blockEncode :: "'k \<Rightarrow> coder"
  c_blockDecode :: "'k \<Rightarrow> coder"
  c_encodeLeft :: "'k \<Rightarrow> bytes \<Rightarrow> u64 \<Rightarrow> bytes"
  c_decodeLeft :: "'k \<Rightarrow> bytes \<Rightarrow> u64 \<Rightarrow> bytes"

definition fold_32 :: "u64 \<Rightarrow> u32" where
  "fold_32 mac64 = ucast ((drop_bit 32 mac64 AND 0xffffffff) XOR (mac64 AND 0xffffffff))"

definition fold_16 :: "u32 \<Rightarrow> u32" where
  "fold_16 mac32 = (drop_bit 16 mac32 AND 0xffff) XOR (mac32 AND 0xffff)"

text \<open>
  The chained IV argument, where there is one, is read, and the implementation then stores the
  64 bit MAC there (\<open>c_MAC_chains\<close>) or leaves it; the pair has the reduced MAC and the argument
  afterwards.
\<close>

definition chain_iv :: "('k, 'r) cipher \<Rightarrow> u64 \<Rightarrow> u64 option \<Rightarrow> u64 option" where
  "chain_iv cph mac64 chainedIV =
     (case chainedIV of None \<Rightarrow> None | Some v \<Rightarrow> Some (if c_MAC_chains cph then mac64 else v))"

definition MAC_32 :: "('k, 'r) cipher \<Rightarrow> bytes \<Rightarrow> 'k \<Rightarrow> u64 option \<Rightarrow> exn + u32 \<times> u64 option" where
  "MAC_32 cph src key chainedIV =
     (case c_MAC_64 cph src key chainedIV of Inl e \<Rightarrow> Inl e | Inr mac64 \<Rightarrow> Inr (fold_32 mac64, chain_iv cph mac64 chainedIV))"

definition MAC_16 :: "('k, 'r) cipher \<Rightarrow> bytes \<Rightarrow> 'k \<Rightarrow> u64 option \<Rightarrow> exn + u32 \<times> u64 option" where
  "MAC_16 cph src key chainedIV =
     (case c_MAC_64 cph src key chainedIV of Inl e \<Rightarrow> Inl e
      | Inr mac64 \<Rightarrow> Inr (fold_16 (fold_32 mac64), chain_iv cph mac64 chainedIV))"

text \<open>
  The name coders are the stream coders; the flag and the buffer, since their callers use the
  buffer whatever the flag. \<open>c_encodeLeft\<close> and \<open>c_decodeLeft\<close> are what a failed call leaves.
\<close>

definition nameEncode :: "('k, 'r) cipher \<Rightarrow> 'k \<Rightarrow> bytes \<Rightarrow> u64 \<Rightarrow> exn + bool \<times> bytes" where
  "nameEncode cph key buf iv64 =
     (case c_streamEncode cph key buf iv64 of Inl e \<Rightarrow> Inl e
      | Inr (Some out) \<Rightarrow> Inr (True, out) | Inr None \<Rightarrow> Inr (False, c_encodeLeft cph key buf iv64))"

definition nameDecode :: "('k, 'r) cipher \<Rightarrow> 'k \<Rightarrow> bytes \<Rightarrow> u64 \<Rightarrow> exn + bool \<times> bytes" where
  "nameDecode cph key buf iv64 =
     (case c_streamDecode cph key buf iv64 of Inl e \<Rightarrow> Inl e
      | Inr (Some out) \<Rightarrow> Inr (True, out) | Inr None \<Rightarrow> Inr (False, c_decodeLeft cph key buf iv64))"

text \<open>\<open>encodeAsString\<close>: the last digit is overwritten by the terminating NUL.\<close>

definition encodeAsString :: "('k, 'r) cipher \<Rightarrow> 'k \<Rightarrow> 'k \<Rightarrow> exn + bytes" where
  "encodeAsString cph key encodingKey =
     (case c_writeKey cph key encodingKey of
        Inl e \<Rightarrow> Inl e
      | Inr keyBuf \<Rightarrow>
          let b64Len = B256ToB64Bytes (c_encodedKeySize cph);
              b64Key = B64ToAscii (changeBase2 keyBuf 8 b64Len 6)
          in Inr (takeWhile (\<lambda>b. b \<noteq> 0) (take (b64Len - 1) b64Key)))"

section \<open>The registry\<close>

record 'c cipher_alg =
  ca_hidden :: bool
  ca_constructor :: "interface \<Rightarrow> int \<Rightarrow> 'c"
  ca_description :: bytes
  ca_iface :: interface
  ca_keyLength :: range
  ca_blockSize :: range

record cipher_algorithm =
  alg_name :: bytes
  alg_description :: bytes
  alg_iface :: interface
  alg_keyLength :: range
  alg_blockSize :: range

text \<open>A \<open>multimap\<close>: entries in the order of their names, equal names in the order of arrival.\<close>

type_synonym 'c cipher_map = "(bytes \<times> 'c cipher_alg) list"

fun multimap_insert :: "bytes \<Rightarrow> 'a \<Rightarrow> (bytes \<times> 'a) list \<Rightarrow> (bytes \<times> 'a) list" where
  "multimap_insert n a [] = [(n, a)]"
| "multimap_insert n a ((n', a') # es) =
     (if n < n' then (n, a) # (n', a') # es else (n', a') # multimap_insert n a es)"

definition Cipher_Register ::
  "bytes \<Rightarrow> bytes \<Rightarrow> interface \<Rightarrow> range \<Rightarrow> range \<Rightarrow> (interface \<Rightarrow> int \<Rightarrow> 'c) \<Rightarrow> bool \<Rightarrow>
   'c cipher_map \<Rightarrow> 'c cipher_map" where
  "Cipher_Register nm description iface keyLength blockSize fn hidden gCipherMap =
     multimap_insert nm
       \<lparr>ca_hidden = hidden, ca_constructor = fn, ca_description = description, ca_iface = iface,
        ca_keyLength = keyLength, ca_blockSize = blockSize\<rparr> gCipherMap"

definition GetAlgorithmList :: "bool \<Rightarrow> 'c cipher_map \<Rightarrow> cipher_algorithm list" where
  "GetAlgorithmList includeHidden gCipherMap =
     map (\<lambda>(n, a). \<lparr>alg_name = n, alg_description = ca_description a, alg_iface = ca_iface a,
                    alg_keyLength = ca_keyLength a, alg_blockSize = ca_blockSize a\<rparr>)
       (filter (\<lambda>(n, a). includeHidden \<or> \<not> ca_hidden a) gCipherMap)"

definition Cipher_New_name :: "bytes \<Rightarrow> int \<Rightarrow> 'c cipher_map \<Rightarrow> 'c option" where
  "Cipher_New_name nm keyLen gCipherMap =
     (case map_of gCipherMap nm of None \<Rightarrow> None
      | Some a \<Rightarrow> Some (ca_constructor a (ca_iface a) keyLen))"

definition Cipher_New :: "interface \<Rightarrow> int \<Rightarrow> 'c cipher_map \<Rightarrow> 'c option" where
  "Cipher_New iface keyLen gCipherMap =
     (case filter (\<lambda>(n, a). implements (ca_iface a) iface) gCipherMap of
        [] \<Rightarrow> None
      | (n, a) # _ \<Rightarrow> Some (ca_constructor a iface keyLen))"

text \<open>\<open>findCipherAlgorithm\<close> of \<^verbatim>\<open>encfs/FileUtils.cpp\<close>.\<close>

definition findCipherAlgorithm :: "bytes \<Rightarrow> int \<Rightarrow> cipher_algorithm list \<Rightarrow> cipher_algorithm option" where
  "findCipherAlgorithm nm keySz algorithms =
     find (\<lambda>it. nm = alg_name it \<and> allowed (alg_keyLength it) keySz) algorithms"

section \<open>NullCipher\<close>

definition NullInterface :: interface where
  "NullInterface = Interface (str ''nullCipher'') 1 0 0"

definition NullKeyRange :: range where "NullKeyRange = Range_single 0"
definition NullBlockRange :: range where "NullBlockRange = Range 1 4096 1"

definition Null_randomize :: "nat \<Rightarrow> 'r \<Rightarrow> bytes option \<times> 'r" where
  "Null_randomize len r = (Some (replicate len 0), r)"

definition Null_coder :: coder where
  "Null_coder src iv64 = Inr (Some src)"

definition NullCipher :: "interface \<Rightarrow> (unit, 'r) cipher" where
  "NullCipher iface =
     \<lparr>c_interface = iface, c_keySize = 0, c_encodedKeySize = 0, c_cipherBlockSize = 1,
      c_randomize = Null_randomize,
      c_MAC_64 = (\<lambda>_ _ _. Inr 0), c_MAC_chains = False,
      c_readKey = (\<lambda>_ _ _. Inr (Some ())),
      c_writeKey = (\<lambda>_ _. Inr []),
      c_streamEncode = (\<lambda>_. Null_coder), c_streamDecode = (\<lambda>_. Null_coder),
      c_blockEncode = (\<lambda>_. Null_coder), c_blockDecode = (\<lambda>_. Null_coder),
      c_encodeLeft = (\<lambda>_ src iv64. src), c_decodeLeft = (\<lambda>_ src iv64. src)\<rparr>"

definition Null_Register :: "((unit, 'r) cipher) cipher_map \<Rightarrow> ((unit, 'r) cipher) cipher_map" where
  "Null_Register = Cipher_Register (str ''Null'') (str ''Non encrypting cipher.  For testing only!'')
     NullInterface NullKeyRange NullBlockRange (\<lambda>iface keyLen. NullCipher iface) True"

section \<open>What the layers above rely on\<close>

definition inverts :: "coder \<Rightarrow> coder \<Rightarrow> bytes \<Rightarrow> bool" where
  "inverts dec enc p = (\<forall>v. \<exists>q. enc p v = Inr (Some q) \<and> length q = length p \<and> dec q v = Inr (Some p))"

locale block_codec =
  fixes streamEncode streamDecode blockEncode blockDecode :: coder and bs :: nat
  assumes stream_inverts: "p \<noteq> [] \<Longrightarrow> inverts streamDecode streamEncode p"
    and block_inverts: "length p = bs \<Longrightarrow> inverts blockDecode blockEncode p"
begin

text \<open>The encoding of a block: whole blocks and the partial block at the end differ.\<close>

definition encoded :: "bytes \<Rightarrow> u64 \<Rightarrow> bytes" where
  "encoded p v = (if p = [] then []
     else case (if length p = bs then blockEncode p v else streamEncode p v) of
            Inr (Some q) \<Rightarrow> q | _ \<Rightarrow> [])"

lemma encoded_Nil [simp]: "encoded [] v = []"
  by (simp add: encoded_def)

lemma encoded_block:
  assumes "length p = bs" "p \<noteq> []"
  shows "blockEncode p v = Inr (Some (encoded p v))" "blockDecode (encoded p v) v = Inr (Some p)"
    "length (encoded p v) = length p"
  using block_inverts [OF assms(1)] assms by (auto simp: inverts_def encoded_def dest!: spec [of _ v])

lemma encoded_stream:
  assumes "length p \<noteq> bs" "p \<noteq> []"
  shows "streamEncode p v = Inr (Some (encoded p v))" "streamDecode (encoded p v) v = Inr (Some p)"
    "length (encoded p v) = length p"
  using stream_inverts [OF assms(2)] assms by (auto simp: inverts_def encoded_def dest!: spec [of _ v])

lemma length_encoded [simp]: "length (encoded p v) = length p"
  using encoded_block(3) [of p v] encoded_stream(3) [of p v] by (cases "p = []") (simp, cases "length p = bs", simp_all)

end

interpretation null_codec: block_codec Null_coder Null_coder Null_coder Null_coder bs for bs
  by unfold_locales (auto simp: inverts_def Null_coder_def)

section \<open>Lemmas and properties\<close>

lemma multimap_insert_set: "set (multimap_insert n a es) = insert (n, a) (set es)"
  by (induction n a es rule: multimap_insert.induct) auto

lemma multimap_insert_sorted:
  "sorted (map fst es) \<Longrightarrow> sorted (map fst (multimap_insert n a es))"
proof (induction n a es rule: multimap_insert.induct)
  case (2 n a n' a' es)
  have "\<forall>k\<in>set (map fst (multimap_insert n a es)). n' \<le> k" if "\<not> n < n'"
    using 2(2) that by (auto simp: multimap_insert_set)
  then show ?case using 2 by auto
qed simp

text \<open>
  Looking an algorithm up by a description from a configuration finds one that
  implements it, if any is registered: the first in the order of names, constructed with the
  description that was asked for; registering another algorithm keeps the registry sorted and
  never makes a lookup fail that succeeded.
\<close>

theorem cipher_lookup:
  "(Cipher_New iface keyLen m = None \<longleftrightarrow> (\<forall>(n, a)\<in>set m. \<not> implements (ca_iface a) iface)) \<and>
   (\<forall>c. Cipher_New iface keyLen m = Some c \<longrightarrow>
      (\<exists>n a. (n, a) \<in> set m \<and> implements (ca_iface a) iface \<and> c = ca_constructor a iface keyLen)) \<and>
   (Cipher_New iface keyLen m \<noteq> None \<longrightarrow>
      Cipher_New iface keyLen (Cipher_Register nm desc i kl bl fn hid m) \<noteq> None) \<and>
   (sorted (map fst m) \<longrightarrow> sorted (map fst (Cipher_Register nm desc i kl bl fn hid m)))"
proof -
  have none: "Cipher_New iface keyLen m = None \<longleftrightarrow> (\<forall>(n, a)\<in>set m. \<not> implements (ca_iface a) iface)" for m
  proof -
    have "Cipher_New iface keyLen m = None \<longleftrightarrow> filter (\<lambda>(n, a). implements (ca_iface a) iface) m = []"
      by (simp add: Cipher_New_def case_prod_beta split: list.split)
    then show ?thesis by (auto simp: filter_empty_conv)
  qed
  have some: "\<exists>n a. (n, a) \<in> set m \<and> implements (ca_iface a) iface \<and> c = ca_constructor a iface keyLen"
    if found: "Cipher_New iface keyLen m = Some c" for c
  proof -
    obtain n a es where f: "filter (\<lambda>(n, a). implements (ca_iface a) iface) m = (n, a) # es"
      and c: "c = ca_constructor a iface keyLen"
      using found unfolding Cipher_New_def
      by (cases "filter (\<lambda>(n, a). implements (ca_iface a) iface) m") auto
    have "(n, a) \<in> set (filter (\<lambda>(n, a). implements (ca_iface a) iface) m)" by (simp add: f)
    then show ?thesis using c by auto
  qed
  show ?thesis
    using none some multimap_insert_sorted
    by (auto simp: none Cipher_Register_def multimap_insert_set)
qed

theorem cipher_lookup_witness:
  "\<exists>c. Cipher_New NullInterface 0 (Null_Register ([] :: ((unit, unit) cipher) cipher_map)) = Some c \<and>
     (\<exists>n a. (n, a) \<in> set (Null_Register ([] :: ((unit, unit) cipher) cipher_map)) \<and>
        implements (ca_iface a) NullInterface \<and> c = ca_constructor a NullInterface 0)"
  using cipher_lookup [of NullInterface 0 "Null_Register ([] :: ((unit, unit) cipher) cipher_map)"]
  by (auto simp: Null_Register_def Cipher_Register_def implements_def NullInterface_def Interface_def Cipher_New_def)

end
