(* ===== verification/Cipher_File_IO.thy ===== *)
theory Cipher_File_IO
  imports Block_File_IO Raw_File_IO Cipher_Core
begin

text \<open>
  \<open>CipherFileIO\<close> of \<^verbatim>\<open>encfs/CipherFileIO.cpp\<close>: a file whose blocks are encrypted on their way
  to the file below, with an optional header of eight bytes that holds the file's own
  initialisation vector. In reverse mode the roles of plain and cipher text are exchanged.

  The object is the record \<open>cipherfileio\<close>, an extension of \<open>blockfileio\<close>; the file below, the
  cipher, the key and \<open>SHA1\<close> are the record \<open>cipher_env\<close>. The loop that draws a
  vector until it is not zero may not end; \<open>ce_tries\<close> bounds the draws of the model, and
  running out of them is the exception \<open>Diverged\<close>.

  \<open>cipher_file\<close> shows that over a file that keeps its contract and with a cipher that inverts
  itself this class, in its forward mode, keeps the contract \<open>block_device\<close>, so that reads and
  writes through the whole stack behave like those on the plain text. When holes are passed through, a full
  block of zeros below stands for a block of zeros; a block that is not all zeros and encrypts
  to zeros would be lost, and \<open>hole_safe\<close> says that a block is not such a one.
\<close>

section \<open>The code\<close>

definition HEADER_SIZE :: nat where
  "HEADER_SIZE = 8"

record ('b, 'r) cipherfileio = blockfileio +
  cf_base :: 'b
  cf_haveHeader :: bool
  cf_externalIV :: u64
  cf_fileIV :: u64
  cf_lastFlags :: int
  cf_reverse :: bool
  cf_rng :: 'r

record ('b, 'k, 'r) cipher_env =
  ce_base :: "'b fileio"
  ce_cipher :: "('k, 'r) cipher"
  ce_key :: 'k
  ce_sha1 :: "bytes \<Rightarrow> bytes"
  ce_tries :: nat

text \<open>The constructor; both \<open>CHECK\<close>s end the process.\<close>

definition CipherFileIO_new ::
  "('b, 'k, 'r) cipher_env \<Rightarrow> nat \<Rightarrow> bool \<Rightarrow> bool \<Rightarrow> bool \<Rightarrow> bool \<Rightarrow> 'b \<Rightarrow> 'r \<Rightarrow> exn + ('b, 'r) cipherfileio" where
  "CipherFileIO_new env blockSize allowHoles noCache uniqueIV reverse base rng =
     (if \<not> blockSize > 1 then Inl (Fatal ''_blockSize > 1'')
      else if blockSize mod c_cipherBlockSize (ce_cipher env) \<noteq> 0
      then Inl (Fatal ''FS block size must be multiple of cipher block size'')
      else Inr \<lparr>bf_blockSize = blockSize, bf_allowHoles = allowHoles, bf_noCache = noCache,
                bf_cache_offset = 0, bf_cache_data = [],
                cf_base = base, cf_haveHeader = uniqueIV, cf_externalIV = 0, cf_fileIV = 0,
                cf_lastFlags = 0, cf_reverse = reverse, cf_rng = rng\<rparr>)"

definition on_base :: "('b, 'a) io \<Rightarrow> (('b, 'r) cipherfileio, 'a) io" where
  "on_base m = io_lift cf_base (\<lambda>b s. s\<lparr>cf_base := b\<rparr>) m"

definition cipher_open :: "('b, 'k, 'r) cipher_env \<Rightarrow> int \<Rightarrow> (('b, 'r) cipherfileio, int) io" where
  "cipher_open env flags =
     io_bind (on_base (fio_open (ce_base env) flags)) (\<lambda>res.
     io_bind (if res \<ge> 0 then io_modify (\<lambda>s. s\<lparr>cf_lastFlags := flags\<rparr>) else io_return ()) (\<lambda>_.
     io_return res))"

text \<open>The vector from and to the eight bytes of the header, most significant byte first.\<close>

definition bytes_to_iv :: "bytes \<Rightarrow> u64" where
  "bytes_to_iv buf = foldl (\<lambda>iv b. push_bit 8 iv OR ucast b) 0 buf"

definition iv_to_bytes :: "u64 \<Rightarrow> bytes" where
  "iv_to_bytes iv = rev (map (\<lambda>i. ucast (drop_bit (8 * i) iv AND 0xff)) [0..<8])"

text \<open>The \<open>do\<close> loop of \<open>initHeader\<close>: \<open>None\<close> when \<open>randomize\<close> failed.\<close>

fun draw_iv :: "(nat \<Rightarrow> 'r \<Rightarrow> bytes option \<times> 'r) \<Rightarrow> nat \<Rightarrow> 'r \<Rightarrow> (exn + bytes option) \<times> 'r" where
  "draw_iv randomize 0 rng = (Inl Diverged, rng)"
| "draw_iv randomize (Suc n) rng =
     (case randomize 8 rng of
        (None, rng) \<Rightarrow> (Inr None, rng)
      | (Some buf, rng) \<Rightarrow>
          if bytes_to_iv buf = 0 then draw_iv randomize n rng else (Inr (Some buf), rng))"

definition initHeader :: "('b, 'k, 'r) cipher_env \<Rightarrow> (('b, 'r) cipherfileio, int) io" where
  "initHeader env =
     io_bind (on_base (fio_getSize (ce_base env))) (\<lambda>rawSize.
     if rawSize \<ge> int HEADER_SIZE then
       io_bind (on_base (fio_read (ce_base env) 0 8)) (\<lambda>r.
         case r of Inl e \<Rightarrow> io_return e
         | Inr d \<Rightarrow>
           io_bind (io_get cf_externalIV) (\<lambda>ext.
           io_bind (io_of (c_streamDecode (ce_cipher env) (ce_key env) (pad_to 8 d) ext)) (\<lambda>dec.
             case dec of None \<Rightarrow> io_return (- EBADMSG)
             | Some buf \<Rightarrow>
               io_bind (io_modify (\<lambda>s. s\<lparr>cf_fileIV := bytes_to_iv buf\<rparr>)) (\<lambda>_.
               io_bind (rAssert (bytes_to_iv buf \<noteq> 0) ''fileIV != 0'') (\<lambda>_.
               io_return 0)))))
     else
       io_bind (\<lambda>s. case draw_iv (c_randomize (ce_cipher env)) (ce_tries env) (cf_rng s) of
                      (r, rng) \<Rightarrow> (r, s\<lparr>cf_rng := rng\<rparr>)) (\<lambda>drawn.
         case drawn of None \<Rightarrow> io_return (- EBADMSG)
         | Some buf \<Rightarrow>
           io_bind (io_modify (\<lambda>s. s\<lparr>cf_fileIV := bytes_to_iv buf\<rparr>)) (\<lambda>_.
           io_bind (io_get (\<lambda>s. fio_isWritable (ce_base env) (cf_base s))) (\<lambda>writable.
           if \<not> writable then io_return 0
           else
             io_bind (io_get cf_externalIV) (\<lambda>ext.
             io_bind (io_of (c_streamEncode (ce_cipher env) (ce_key env) buf ext)) (\<lambda>enc.
               case enc of None \<Rightarrow> io_return (- EBADMSG)
               | Some hdr \<Rightarrow>
                 io_bind (on_base (fio_write (ce_base env) 0 hdr)) (\<lambda>writeSize.
                 io_return (if writeSize < 0 then writeSize else 0))))))))"

text \<open>The shifts that take the vector apart leave \<open>fileIV\<close> at 0.\<close>

definition writeHeader :: "('b, 'k, 'r) cipher_env \<Rightarrow> (('b, 'r) cipherfileio, bool) io" where
  "writeHeader env =
     io_bind (io_get (\<lambda>s. (iv_to_bytes (cf_fileIV s), cf_externalIV s))) (\<lambda>(buf, ext).
     io_bind (io_modify (\<lambda>s. s\<lparr>cf_fileIV := 0\<rparr>)) (\<lambda>_.
     io_bind (io_of (c_streamEncode (ce_cipher env) (ce_key env) buf ext)) (\<lambda>enc.
       case enc of None \<Rightarrow> io_return False
       | Some hdr \<Rightarrow>
         io_bind (on_base (fio_write (ce_base env) 0 hdr)) (\<lambda>n. io_return (n \<ge> 0)))))"

definition cipher_setIV :: "('b, 'k, 'r) cipher_env \<Rightarrow> u64 \<Rightarrow> (('b, 'r) cipherfileio, bool) io" where
  "cipher_setIV env iv =
     io_bind (io_get id) (\<lambda>s0.
     if cf_externalIV s0 = 0 then
       io_bind (io_modify (\<lambda>s. s\<lparr>cf_externalIV := iv\<rparr>)) (\<lambda>_. on_base (fio_setIV (ce_base env) iv))
     else if cf_haveHeader s0 then
       io_bind (on_base (fio_open (ce_base env) (cf_lastFlags s0 OR O_RDWR))) (\<lambda>res.
       if res < 0 then
         (if res = - EISDIR
          then io_bind (io_modify (\<lambda>s. s\<lparr>cf_externalIV := iv\<rparr>)) (\<lambda>_. on_base (fio_setIV (ce_base env) iv))
          else io_return False)
       else
         io_bind (if cf_fileIV s0 = 0 then initHeader env else io_return 0) (\<lambda>h.
         if h < 0 then io_return False
         else
           io_bind (io_get cf_externalIV) (\<lambda>oldIV.
           io_bind (io_modify (\<lambda>s. s\<lparr>cf_externalIV := iv\<rparr>)) (\<lambda>_.
           io_bind (writeHeader env) (\<lambda>ok.
           if \<not> ok then io_bind (io_modify (\<lambda>s. s\<lparr>cf_externalIV := oldIV\<rparr>)) (\<lambda>_. io_return False)
           else on_base (fio_setIV (ce_base env) iv))))))
     else on_base (fio_setIV (ce_base env) iv))"

definition cipher_getAttr :: "('b, 'k, 'r) cipher_env \<Rightarrow> (('b, 'r) cipherfileio, int + stat) io" where
  "cipher_getAttr env =
     io_bind (on_base (fio_getAttr (ce_base env))) (\<lambda>res.
     case res of Inl e \<Rightarrow> io_return (Inl e)
     | Inr stbuf \<Rightarrow>
       io_bind (io_get (\<lambda>s. (cf_haveHeader s, cf_reverse s))) (\<lambda>(haveHeader, reverse).
       if haveHeader \<and> S_ISREG (st_mode stbuf) \<and> st_size stbuf > 0 then
         (if \<not> reverse then
            io_bind (rAssert (st_size stbuf \<ge> int HEADER_SIZE) ''stbuf->st_size >= HEADER_SIZE'') (\<lambda>_.
            io_return (Inr (stbuf\<lparr>st_size := st_size stbuf - int HEADER_SIZE\<rparr>)))
          else io_return (Inr (stbuf\<lparr>st_size := st_size stbuf + int HEADER_SIZE\<rparr>)))
       else io_return (Inr stbuf)))"

definition cipher_getSize :: "('b, 'k, 'r) cipher_env \<Rightarrow> (('b, 'r) cipherfileio, int) io" where
  "cipher_getSize env =
     io_bind (on_base (fio_getSize (ce_base env))) (\<lambda>sz.
     io_bind (io_get (\<lambda>s. (cf_haveHeader s, cf_reverse s))) (\<lambda>(haveHeader, reverse).
     if haveHeader \<and> sz > 0 then
       (if \<not> reverse then
          io_bind (rAssert (sz \<ge> int HEADER_SIZE) ''size >= HEADER_SIZE'') (\<lambda>_. io_return (sz - int HEADER_SIZE))
        else io_return (sz + int HEADER_SIZE))
     else io_return sz))"

text \<open>The inode number least significant byte first, hashed and cut to the header's size.\<close>

definition ino_to_bytes :: "u64 \<Rightarrow> bytes" where
  "ino_to_bytes ino = map (\<lambda>i. ucast (drop_bit (8 * i) ino AND 0xff)) [0..<8]"

definition generateReverseHeader :: "('b, 'k, 'r) cipher_env \<Rightarrow> (('b, 'r) cipherfileio, int + bytes) io" where
  "generateReverseHeader env =
     io_bind (cipher_getAttr env) (\<lambda>res.
     case res of Inl _ \<Rightarrow> io_throw (Error ''res == 0'')
     | Inr stbuf \<Rightarrow>
       io_bind (rAssert (st_ino stbuf \<noteq> 0) ''ino != 0'') (\<lambda>_.
       let headerBuf = take HEADER_SIZE (ce_sha1 env (ino_to_bytes (st_ino stbuf))) in
       io_bind (io_modify (\<lambda>s. s\<lparr>cf_fileIV := bytes_to_iv headerBuf\<rparr>)) (\<lambda>_.
       io_bind (io_get cf_externalIV) (\<lambda>ext.
       io_bind (io_of (c_streamEncode (ce_cipher env) (ce_key env) headerBuf ext)) (\<lambda>enc.
         case enc of None \<Rightarrow> io_return (Inl (- EBADMSG)) | Some hdr \<Rightarrow> io_return (Inr hdr))))))"

definition blockWrite :: "('b, 'k, 'r) cipher_env \<Rightarrow> bool \<Rightarrow> coder" where
  "blockWrite env reverse =
     (if \<not> reverse then c_blockEncode (ce_cipher env) (ce_key env)
      else c_blockDecode (ce_cipher env) (ce_key env))"

definition streamWrite :: "('b, 'k, 'r) cipher_env \<Rightarrow> bool \<Rightarrow> coder" where
  "streamWrite env reverse =
     (if \<not> reverse then c_streamEncode (ce_cipher env) (ce_key env)
      else c_streamDecode (ce_cipher env) (ce_key env))"

definition blockRead :: "('b, 'k, 'r) cipher_env \<Rightarrow> bool \<Rightarrow> bool \<Rightarrow> coder" where
  "blockRead env reverse allowHoles = (\<lambda>buf iv64.
     if reverse then c_blockEncode (ce_cipher env) (ce_key env) buf iv64
     else if allowHoles then
       (if \<exists>b\<in>set buf. b \<noteq> 0 then c_blockDecode (ce_cipher env) (ce_key env) buf iv64 else Inr (Some buf))
     else c_blockDecode (ce_cipher env) (ce_key env) buf iv64)"

definition streamRead :: "('b, 'k, 'r) cipher_env \<Rightarrow> bool \<Rightarrow> coder" where
  "streamRead env reverse =
     (if reverse then c_streamEncode (ce_cipher env) (ce_key env)
      else c_streamDecode (ce_cipher env) (ce_key env))"

definition cipher_readOneBlock ::
  "('b, 'k, 'r) cipher_env \<Rightarrow> nat \<Rightarrow> nat \<Rightarrow> (('b, 'r) cipherfileio, int + bytes) io" where
  "cipher_readOneBlock env off len =
     io_bind (io_get id) (\<lambda>s0.
     let bs = bf_blockSize s0;
         blockNum = off div bs;
         off' = (if cf_haveHeader s0 \<and> \<not> cf_reverse s0 then off + HEADER_SIZE else off)
     in
     io_bind (on_base (fio_read (ce_base env) off' len)) (\<lambda>r.
     case r of Inl e \<Rightarrow> io_return (Inl e)
     | Inr d \<Rightarrow>
       if d = [] then io_return (Inr [])
       else
         io_bind (if cf_haveHeader s0 \<and> cf_fileIV s0 = 0 then initHeader env else io_return 0) (\<lambda>res.
         if res < 0 then io_return (Inl res)
         else
           io_bind (io_get cf_fileIV) (\<lambda>fileIV.
           io_bind (io_of (if length d \<noteq> bs then streamRead env (cf_reverse s0) d (of_nat blockNum XOR fileIV)
                           else blockRead env (cf_reverse s0) (bf_allowHoles s0) d (of_nat blockNum XOR fileIV))) (\<lambda>ok.
             case ok of None \<Rightarrow> io_return (Inl (- EBADMSG)) | Some p \<Rightarrow> io_return (Inr p))))))"

definition cipher_writeOneBlock ::
  "('b, 'k, 'r) cipher_env \<Rightarrow> nat \<Rightarrow> bytes \<Rightarrow> (('b, 'r) cipherfileio, int) io" where
  "cipher_writeOneBlock env off d =
     io_bind (io_get id) (\<lambda>s0.
     if cf_haveHeader s0 \<and> cf_reverse s0 then io_return (- EPERM)
     else
       let bs = bf_blockSize s0; blockNum = off div bs in
       io_bind (if cf_haveHeader s0 \<and> cf_fileIV s0 = 0 then initHeader env else io_return 0) (\<lambda>res.
       if res < 0 then io_return res
       else
         io_bind (io_get cf_fileIV) (\<lambda>fileIV.
         io_bind (io_of (if length d \<noteq> bs then streamWrite env (cf_reverse s0) d (of_nat blockNum XOR fileIV)
                         else blockWrite env (cf_reverse s0) d (of_nat blockNum XOR fileIV))) (\<lambda>ok.
           case ok of None \<Rightarrow> io_return (- EBADMSG)
           | Some q \<Rightarrow> on_base (fio_write (ce_base env) (if cf_haveHeader s0 then off + HEADER_SIZE else off) q)))))"

definition cipher_ops :: "('b, 'k, 'r) cipher_env \<Rightarrow> ('b, 'r) cipherfileio block_ops" where
  "cipher_ops env =
     \<lparr>readOneBlock = cipher_readOneBlock env, writeOneBlock = cipher_writeOneBlock env,
      ops_getSize = cipher_getSize env\<rparr>"

definition cipher_truncate :: "('b, 'k, 'r) cipher_env \<Rightarrow> nat \<Rightarrow> (('b, 'r) cipherfileio, int) io" where
  "cipher_truncate env sz =
     io_bind (io_get id) (\<lambda>s0.
     let needOpen = (\<not> fio_isWritable (ce_base env) (cf_base s0)) in
     io_bind (if needOpen then on_base (fio_open (ce_base env) (cf_lastFlags s0 OR O_RDWR)) else io_return 0) (\<lambda>opened.
     if opened < 0 then
       io_bind (on_base (fio_open (ce_base env) (cf_lastFlags s0))) (\<lambda>_. io_return opened)
     else
       io_bind
         (if \<not> cf_haveHeader s0 then
            truncateBase (cipher_ops env) sz (Some (\<lambda>n. on_base (fio_truncate (ce_base env) n)))
          else
            io_bind (if cf_fileIV s0 = 0 then initHeader env else io_return 0) (\<lambda>res.
            io_bind (if res = 0 then truncateBase (cipher_ops env) sz None else io_return res) (\<lambda>res.
            if res = 0 then on_base (fio_truncate (ce_base env) (sz + HEADER_SIZE)) else io_return res))) (\<lambda>res.
       if needOpen then
         io_bind (on_base (fio_open (ce_base env) (cf_lastFlags s0))) (\<lambda>reopen.
         io_return (if res < 0 then reopen else res))
       else io_return res)))"

definition cipher_read ::
  "('b, 'k, 'r) cipher_env \<Rightarrow> nat \<Rightarrow> nat \<Rightarrow> (('b, 'r) cipherfileio, int + bytes) io" where
  "cipher_read env off len =
     io_bind (io_get id) (\<lambda>s0.
     if \<not> (cf_reverse s0 \<and> cf_haveHeader s0) then block_read (cipher_ops env) off len
     else
       io_bind (generateReverseHeader env) (\<lambda>h.
       case h of Inl e \<Rightarrow> io_return (Inl e)
       | Inr headerBuf \<Rightarrow>
         let offset = int off - int HEADER_SIZE in
         if offset < 0 then
           let headerBytes = min (nat (- offset)) len;
               headerOffset = HEADER_SIZE - headerBytes;
               pre = take headerBytes (drop headerOffset headerBuf)
           in if headerBytes = len then io_return (Inr pre)
              else
                io_bind (rAssert (offset + int headerBytes = 0) ''req.offset == 0'') (\<lambda>_.
                io_bind (block_read (cipher_ops env) 0 (len - headerBytes)) (\<lambda>r.
                io_return (case r of Inl e \<Rightarrow> Inl e | Inr d \<Rightarrow> Inr (pre @ d))))
         else block_read (cipher_ops env) (nat offset) len))"

definition cipher_fileio :: "('b, 'k, 'r) cipher_env \<Rightarrow> ('b, 'r) cipherfileio fileio" where
  "cipher_fileio env =
     \<lparr>fio_blockSize = bf_blockSize,
      fio_setFileName = (\<lambda>fileName s. s\<lparr>cf_base := fio_setFileName (ce_base env) fileName (cf_base s)\<rparr>),
      fio_getFileName = (\<lambda>s. fio_getFileName (ce_base env) (cf_base s)),
      fio_setIV = cipher_setIV env,
      fio_open = cipher_open env,
      fio_getAttr = cipher_getAttr env,
      fio_getSize = cipher_getSize env,
      fio_read = cipher_read env,
      fio_write = block_write (cipher_ops env),
      fio_truncate = cipher_truncate env,
      fio_isWritable = (\<lambda>s. fio_isWritable (ce_base env) (cf_base s))\<rparr>"

section \<open>Blocks of zeros\<close>

definition all_zero :: "bytes \<Rightarrow> bool" where
  "all_zero d = (\<forall>b\<in>set d. b = 0)"

definition hole_safe :: "coder \<Rightarrow> nat \<Rightarrow> bytes \<Rightarrow> bool" where
  "hole_safe encode bs d =
     (length d = bs \<and> (\<exists>v q. encode d v = Inr (Some q) \<and> all_zero q) \<longrightarrow> all_zero d)"

lemma all_zero_replicate [simp]: "all_zero (replicate n 0)"
  by (simp add: all_zero_def)

lemma all_zero_iff: "all_zero d \<longleftrightarrow> d = replicate (length d) 0"
  by (metis all_zero_def in_set_replicate replicate_eqI)

lemma all_zero_eq: "all_zero p \<Longrightarrow> all_zero q \<Longrightarrow> length p = length q \<Longrightarrow> p = q"
  unfolding all_zero_iff by simp

lemma hole_safe_zeros [simp]: "hole_safe encode bs (replicate n 0)"
  by (simp add: hole_safe_def)

section \<open>The contract of the class\<close>

text \<open>
  What is assumed: the file below keeps its contract and knows its size, the cipher inverts
  itself, random bytes come in the number asked for, and, where nothing may fail, some draw
  among the allowed ones is not zero.
\<close>

locale cipher_file =
  base: byte_file "ce_base env" faulty B "\<lambda>_. True" +
  codec: block_codec "c_streamEncode (ce_cipher env) (ce_key env)" "c_streamDecode (ce_cipher env) (ce_key env)"
    "c_blockEncode (ce_cipher env) (ce_key env)" "c_blockDecode (ce_cipher env) (ce_key env)" bs
  for env :: "('b, 'k, 'r) cipher_env" and faulty :: bool and B :: "bytes \<Rightarrow> 'b \<Rightarrow> bool" and bs :: nat +
  fixes hdr :: bool and xiv :: u64 and holes :: bool
  assumes bs_gt_1: "1 < bs"
    and size_exact: "B raw b \<Longrightarrow> fst (fio_getSize (ce_base env) b) = Inr (int (length raw))"
    and random_length: "c_randomize (ce_cipher env) n rng = (Some buf, rng') \<Longrightarrow> length buf = n"
    and random_draw: "\<not> faulty \<Longrightarrow>
      \<exists>buf. fst (draw_iv (c_randomize (ce_cipher env)) (ce_tries env) rng) = Inr (Some buf)"
begin

abbreviation "base_writable \<equiv> \<lambda>s. fio_isWritable (ce_base env) (cf_base s)"

abbreviation "encode_block \<equiv> c_blockEncode (ce_cipher env) (ce_key env)"

text \<open>How a block may be stored: encoded, or, with holes, as zeros when it is a full block of zeros.\<close>

definition stored :: "bytes \<Rightarrow> u64 \<Rightarrow> bytes \<Rightarrow> bool" where
  "stored p v q = (length q = length p \<and>
     (if holes \<and> length p = bs \<and> all_zero q then p = q else q = codec.encoded p v))"

text \<open>Block by block, the encoding of a plain text with a file vector.\<close>

definition body_ok :: "u64 \<Rightarrow> bytes \<Rightarrow> bytes \<Rightarrow> bool" where
  "body_ok iv c body = (length body = length c \<and>
     (\<forall>k. stored (blk bs k c) (of_nat k XOR iv) (blk bs k body)))"

definition header_ok :: "u64 \<Rightarrow> u64 \<Rightarrow> bytes \<Rightarrow> bool" where
  "header_ok ext iv h = (iv \<noteq> 0 \<and> length h = 8 \<and>
     (\<exists>buf. c_streamDecode (ce_cipher env) (ce_key env) h ext = Inr (Some buf) \<and> bytes_to_iv buf = iv))"

definition layout :: "bool \<Rightarrow> u64 \<Rightarrow> u64 \<Rightarrow> bytes \<Rightarrow> bytes \<Rightarrow> bool" where
  "layout haveHeader ext fileIV c raw =
     (if haveHeader then
        raw = [] \<and> c = [] \<and> fileIV = 0 \<or>
        (\<exists>iv h body. raw = h @ body \<and> header_ok ext iv h \<and> (fileIV = 0 \<or> fileIV = iv) \<and> body_ok iv c body)
      else fileIV = 0 \<and> body_ok 0 c raw)"

definition cipher_holds :: "bytes \<Rightarrow> ('b, 'r) cipherfileio \<Rightarrow> bool" where
  "cipher_holds c s = (bf_blockSize s = bs \<and> bf_allowHoles s = holes \<and> \<not> cf_reverse s \<and>
     cf_haveHeader s = hdr \<and> cf_externalIV s = xiv \<and>
     (\<exists>raw. B raw (cf_base s) \<and> layout (cf_haveHeader s) (cf_externalIV s) (cf_fileIV s) c raw))"

lemma stored_encoded:
  assumes "d \<noteq> []" "holes \<longrightarrow> hole_safe encode_block bs d"
  shows "stored d v (codec.encoded d v)"
proof (cases "holes \<and> length d = bs \<and> all_zero (codec.encoded d v)")
  case True
  then have "encode_block d v = Inr (Some (codec.encoded d v))" using assms(1) by (intro codec.encoded_block(1)) auto
  then have "all_zero d" using True assms(2) by (auto simp: hole_safe_def)
  then have "d = codec.encoded d v" using True by (intro all_zero_eq) simp_all
  then show ?thesis unfolding stored_def if_P [OF True] by simp
next
  case False
  then show ?thesis unfolding stored_def if_not_P [OF False] by simp
qed

lemma stored_Nil [simp]: "stored [] v []"
  using codec.length_encoded [of "[]" v] bs_gt_1 by (auto simp: stored_def)

lemma stored_hole: "holes \<Longrightarrow> stored (replicate bs 0) v (replicate bs 0)"
  unfolding stored_def by simp

lemma body_ok_write:
  assumes "body_ok iv c body" "k * bs \<le> length c \<or> holes \<and> bs dvd length c" "d \<noteq> []"
    and "length d = bs \<or> length d < bs \<and> length c \<le> k * bs + length d" "holes \<longrightarrow> hole_safe encode_block bs d"
  shows "body_ok iv (overlay (k * bs) d c) (overlay (k * bs) (codec.encoded d (of_nat k XOR iv)) body)"
proof -
  let ?q = "codec.encoded d (of_nat k XOR iv)"
  have len: "length body = length c" "length ?q = length d" "length d \<le> bs" "?q \<noteq> []"
    using assms(1,3,4) codec.length_encoded [of d "of_nat k XOR iv"] by (auto simp: body_ok_def simp del: codec.length_encoded)
  have "stored (blk bs j (overlay (k * bs) d c)) (of_nat j XOR iv) (blk bs j (overlay (k * bs) ?q body))" for j
  proof (cases "j = k")
    case True
    then show ?thesis using assms(4) stored_encoded [OF assms(3,5)] len by (simp add: blk_overlay_same)
  next
    case False
    show ?thesis
    proof (cases "k * bs \<le> length c")
      case True
      then show ?thesis using False assms(1) len by (simp add: blk_overlay_other body_ok_def)
    next
      case gap: False
      then have h: holes and dvd: "bs dvd length c" using assms(2) by auto
      have old: "stored (blk bs j c) (of_nat j XOR iv) (blk bs j body)" using assms(1) by (simp add: body_ok_def)
      show ?thesis
        unfolding blk_overlay_gap [OF False dvd len(3) assms(3)]
          blk_overlay_gap [OF False dvd [folded len(1)] len(3) [folded len(2)] len(4)] len(1)
        using old stored_hole [OF h] by (cases "length c \<le> j * bs \<and> j < k") (simp_all only: if_True if_False simp_thms)
    qed
  qed
  then show ?thesis using assms(1) by (simp add: body_ok_def)
qed

lemma on_base_apply: "m (cf_base s) = (r, b) \<Longrightarrow> on_base m s = (r, s\<lparr>cf_base := b\<rparr>)"
  by (simp add: on_base_def io_lift_def)

subsection \<open>The header\<close>

lemma initHeader_reads:
  assumes B: "B (h @ body) (cf_base s)" and h: "header_ok (cf_externalIV s) iv h"
    and run: "initHeader env s = (r, s')"
  shows "\<exists>b. B (h @ body) b \<and> fio_isWritable (ce_base env) b = base_writable s \<and>
    (r = Inr 0 \<and> s' = s\<lparr>cf_base := b, cf_fileIV := iv\<rparr> \<or> faulty \<and> wr_failed r \<and> s' = s\<lparr>cf_base := b\<rparr>)"
proof -
  obtain w b1 where sz: "fio_getSize (ce_base env) (cf_base s) = (w, b1)" by fastforce
  note l1 = base.size_law [OF B sz]
  have w: "w = Inr (int (length (h @ body)))" using size_exact [OF B] sz by simp
  obtain r2 b2 where rd: "fio_read (ce_base env) 0 8 b1 = (r2, b2)" by fastforce
  have "B (h @ body) b1" using l1 by simp
  note l2 = base.read_law [OF this rd]
  have len: "length h = 8" "iv \<noteq> 0" using h by (auto simp: header_ok_def)
  have hdr: "take 8 (drop 0 (h @ body)) = h" using len by simp
  obtain buf where buf: "c_streamDecode (ce_cipher env) (ce_key env) h (cf_externalIV s) = Inr (Some buf)"
      "bytes_to_iv buf = iv" using h by (auto simp: header_ok_def)
  have step: "initHeader env s = (case (r2, s\<lparr>cf_base := b2\<rparr>) of
      (Inl ex, s) \<Rightarrow> (Inl ex, s)
    | (Inr (Inl e), s) \<Rightarrow> (Inr e, s)
    | (Inr (Inr d), s) \<Rightarrow>
       (case c_streamDecode (ce_cipher env) (ce_key env) (pad_to 8 d) (cf_externalIV s) of
         Inl ex \<Rightarrow> (Inl ex, s) | Inr None \<Rightarrow> (Inr (- EBADMSG), s)
       | Inr (Some buf) \<Rightarrow>
           if bytes_to_iv buf \<noteq> 0 then (Inr 0, s\<lparr>cf_fileIV := bytes_to_iv buf\<rparr>)
           else (Inl (Error ''fileIV != 0''), s\<lparr>cf_fileIV := bytes_to_iv buf\<rparr>)))"
    using on_base_apply [of "fio_getSize (ce_base env)" s, OF sz]
      on_base_apply [of "fio_read (ce_base env) 0 8" "s\<lparr>cf_base := b1\<rparr>" r2 b2] rd
    by (auto simp: initHeader_def io_bind_split w HEADER_SIZE_def len io_simps rAssert_def
        split: sum.splits option.splits)
  show ?thesis
  proof (cases "rd_failed r2")
    case True
    have f: "faulty" using True l2 by auto
    from True show ?thesis
    proof (cases rule: rd_failed_cases)
      case (throws ex)
      then show ?thesis using f l1 l2 step [unfolded run] by (intro exI [of _ b2]) simp
    next
      case (err e)
      then show ?thesis using f l1 l2 step [unfolded run] by (intro exI [of _ b2]) simp
    qed
  next
    case False
    then have "r2 = Inr (Inr h)" using l2 unfolding hdr by blast
    then show ?thesis using l1 l2 step [unfolded run] buf len by (intro exI [of _ b2]) auto
  qed
qed

lemma initHeader_creates:
  assumes B: "B [] (cf_base s)" and w: "base_writable s" and run: "initHeader env s = (r, s')"
  shows "base_writable s' \<and> bf_cache_offset s' = bf_cache_offset s \<and> bf_cache_data s' = bf_cache_data s \<and>
    bf_blockSize s' = bf_blockSize s \<and> bf_allowHoles s' = bf_allowHoles s \<and> cf_reverse s' = cf_reverse s \<and>
    cf_haveHeader s' = cf_haveHeader s \<and> cf_externalIV s' = cf_externalIV s \<and>
    (faulty \<and> wr_failed r \<or> r = Inr 0 \<and> (\<exists>h. B h (cf_base s') \<and> header_ok (cf_externalIV s) (cf_fileIV s') h))"
proof -
  obtain w b1 where sz: "fio_getSize (ce_base env) (cf_base s) = (w, b1)" by fastforce
  note l1 = base.size_law [OF B sz]
  have w0: "w = Inr 0" using size_exact [OF B] sz by simp
  obtain dr rng where draw: "draw_iv (c_randomize (ce_cipher env)) (ce_tries env) (cf_rng s) = (dr, rng)"
    by fastforce
  have drawn: "length buf = 8 \<and> bytes_to_iv buf \<noteq> 0"
    if "draw_iv (c_randomize (ce_cipher env)) n rng0 = (Inr (Some buf), rng1)" for n rng0 rng1 buf
    using that by (induction n arbitrary: rng0)
      (auto split: prod.splits option.splits if_splits dest: random_length)
  let ?s1 = "s\<lparr>cf_base := b1, cf_rng := rng\<rparr>"
  note start = on_base_apply [of "fio_getSize (ce_base env)" s, OF sz]
  show ?thesis
  proof (cases "\<exists>buf. dr = Inr (Some buf)")
    case False
    then have "faulty" using random_draw [of "cf_rng s"] draw by auto
    then show ?thesis
      using False run l1 w start draw
      by (cases dr) (auto simp: initHeader_def io_bind_split w0 HEADER_SIZE_def io_simps EBADMSG_def
          split: option.splits)
  next
    case True
    then obtain buf where buf: "dr = Inr (Some buf)" by blast
    have b8: "length buf = 8" "bytes_to_iv buf \<noteq> 0" using drawn draw buf by auto
    have "buf \<noteq> []" using b8 by auto
    from codec.stream_inverts [OF this] obtain hd where hd:
        "c_streamEncode (ce_cipher env) (ce_key env) buf (cf_externalIV s) = Inr (Some hd)" "length hd = 8"
        "c_streamDecode (ce_cipher env) (ce_key env) hd (cf_externalIV s) = Inr (Some buf)"
      using b8 by (auto simp: inverts_def)
    let ?s2 = "?s1\<lparr>cf_fileIV := bytes_to_iv buf\<rparr>"
    obtain n b2 where wr: "fio_write (ce_base env) 0 hd b1 = (n, b2)" by fastforce
    have "B [] b1" "fio_isWritable (ce_base env) b1" "hd \<noteq> []" using l1 w hd by auto
    note l2 = base.write_law [OF this TrueI wr]
    have ok: "header_ok (cf_externalIV s) (bytes_to_iv buf) hd" using b8 hd by (auto simp: header_ok_def)
    have "(r, s') = (case n of Inl ex \<Rightarrow> Inl ex | Inr k \<Rightarrow> Inr (if k < 0 then k else 0), ?s2\<lparr>cf_base := b2\<rparr>)"
      using run l1 w start draw buf hd wr on_base_apply [of "fio_write (ce_base env) 0 hd" ?s2 n b2]
      by (auto simp: initHeader_def io_bind_split w0 HEADER_SIZE_def io_simps split: sum.splits)
    then show ?thesis using l2 ok hd by (cases n) auto
  qed
qed

end

context cipher_file
begin

subsection \<open>Reading a block\<close>

lemma decode_stored:
  assumes "p \<noteq> []" "stored p v q"
  shows "(if length q \<noteq> bs then streamRead env False q v else blockRead env False holes q v) = Inr (Some p)"
proof (cases "holes \<and> length p = bs \<and> all_zero q")
  case True
  then have "p = q" using assms(2) unfolding stored_def by simp
  moreover have "\<not> (\<exists>b\<in>set q. b \<noteq> 0)" using True by (auto simp: all_zero_def)
  ultimately show ?thesis using True by (simp add: blockRead_def)
next
  case False
  then have q: "q = codec.encoded p v" using assms(2) unfolding stored_def by (simp only: if_not_P [OF False] if_False)
  then have "length q = length p" by simp
  then show ?thesis
    using False assms(1) codec.encoded_block(2) [of p v] codec.encoded_stream(2) [of p v]
    unfolding streamRead_def blockRead_def q [symmetric] by (simp add: all_zero_def)
qed

lemma encode_encoded:
  assumes "p \<noteq> []"
  shows "(if length p \<noteq> bs then streamWrite env False p v else blockWrite env False p v)
    = Inr (Some (codec.encoded p v))"
  using assms codec.encoded_block(1) [of p v] codec.encoded_stream(1) [of p v]
  by (simp add: streamWrite_def blockWrite_def)

text \<open>Where block \<open>k\<close> is in the file below, and with which vector it is encoded.\<close>

lemma layout_block:
  assumes "layout hh ext fiv c raw"
  obtains iv where "stored (blk bs k c) (of_nat k XOR iv) (take bs (drop (if hh then k * bs + 8 else k * bs) raw))"
    and "blk bs k c \<noteq> [] \<Longrightarrow> \<not> hh \<Longrightarrow> iv = fiv"
    and "blk bs k c \<noteq> [] \<Longrightarrow> hh \<Longrightarrow>
      \<exists>h body. raw = h @ body \<and> header_ok ext iv h \<and> (fiv = 0 \<or> fiv = iv) \<and> body_ok iv c body"
proof (cases "hh \<and> raw \<noteq> []")
  case True
  then obtain iv h body where l: "raw = h @ body" "header_ok ext iv h" "fiv = 0 \<or> fiv = iv" "body_ok iv c body"
    using assms by (auto simp: layout_def)
  then have "take bs (drop (k * bs + 8) raw) = blk bs k body" by (simp add: header_ok_def blk_def)
  then show thesis using that [of iv] True l by (auto simp: body_ok_def)
next
  case False
  show thesis
  proof (cases hh)
    case True
    then have "raw = []" "c = []" using False assms by (auto simp: layout_def header_ok_def)
    then show thesis using that [of 0] True by (auto simp: blk_def)
  next
    case no: False
    then have "fiv = 0" "body_ok 0 c raw" using assms by (auto simp: layout_def)
    then show thesis using that [of 0] no by (auto simp: body_ok_def blk_def)
  qed
qed

lemma cipher_holds_base:
  "cipher_holds c s \<Longrightarrow> (\<And>raw. B raw (cf_base s) \<Longrightarrow> B raw b) \<Longrightarrow> cipher_holds c (s\<lparr>cf_base := b\<rparr>)"
  by (auto simp: cipher_holds_def)

lemma read_one_law:
  assumes hold: "cipher_holds c s" and off: "bs dvd off" and run: "cipher_readOneBlock env off bs s = (r, s')"
  shows "cipher_holds c s' \<and> base_writable s' = base_writable s \<and>
      bf_cache_offset s' = bf_cache_offset s \<and> bf_cache_data s' = bf_cache_data s \<and>
      (r = Inr (Inr (take bs (drop off c))) \<or> faulty \<and> rd_failed r)"
proof -
  define k where "k = off div bs"
  have k: "off = k * bs" using off by (simp add: k_def)
  have geo: "bf_blockSize s = bs" "bf_allowHoles s = holes" "\<not> cf_reverse s" using hold by (auto simp: cipher_holds_def)
  have own: "cf_haveHeader s = hdr" "cf_externalIV s = xiv" using hold by (auto simp: cipher_holds_def)
  obtain raw where B: "B raw (cf_base s)"
    and lay: "layout (cf_haveHeader s) (cf_externalIV s) (cf_fileIV s) c raw"
    using hold by (auto simp: cipher_holds_def)
  define p where "p = blk bs k c"
  define off' where "off' = (if cf_haveHeader s then k * bs + 8 else k * bs)"
  define q where "q = take bs (drop off' raw)"
  obtain iv where enc: "stored p (of_nat k XOR iv) q"
    and iv0: "p \<noteq> [] \<Longrightarrow> \<not> cf_haveHeader s \<Longrightarrow> iv = cf_fileIV s"
    and iv1: "p \<noteq> [] \<Longrightarrow> cf_haveHeader s \<Longrightarrow> \<exists>h body. raw = h @ body \<and> header_ok (cf_externalIV s) iv h \<and>
      (cf_fileIV s = 0 \<or> cf_fileIV s = iv) \<and> body_ok iv c body"
    unfolding p_def q_def off'_def using layout_block [OF lay, of k] by metis
  obtain r1 b1 where rd: "fio_read (ce_base env) off' bs (cf_base s) = (r1, b1)" by fastforce
  have l1: "B raw b1" "fio_isWritable (ce_base env) b1 = base_writable s"
    "r1 = Inr (Inr q) \<or> faulty \<and> rd_failed r1"
    using base.read_law [OF B rd] by (auto simp: q_def)
  have lq: "length q = length p" using enc by (simp add: stored_def)
  have h1: "cipher_holds c (s\<lparr>cf_base := b1\<rparr>)" using geo l1 lay by (auto simp: cipher_holds_def own)
  have base_read: "on_base (fio_read (ce_base env) off' bs) s = (r1, s\<lparr>cf_base := b1\<rparr>)"
    using rd by (rule on_base_apply)
  have offs: "(if cf_haveHeader s \<and> \<not> cf_reverse s then off + HEADER_SIZE else off) = off'"
    using geo by (simp add: off'_def k HEADER_SIZE_def)
  note step = run [unfolded cipher_readOneBlock_def Let_def io_bind_Inr [OF io_get_apply] id_apply offs]
  consider (failed) "faulty" "rd_failed r1" | (eof) "r1 = Inr (Inr [])" "p = []"
    | (data) "p \<noteq> []" "r1 = Inr (Inr q)"
    using l1(3) lq by (cases "p = []") auto
  then show ?thesis
  proof cases
    case failed
    from failed(2) show ?thesis
      by (cases rule: rd_failed_cases)
        (use step base_read failed(1) l1 h1 in \<open>auto simp: io_bind_split io_simps\<close>)
  next
    case eof
    then show ?thesis
      using step base_read l1 h1 by (auto simp: io_bind_split io_simps p_def blk_def k)
  next
    case data
    have d: "q \<noteq> []" using data(1) lq by auto
    obtain r2 s2 where ih: "(if cf_haveHeader s \<and> cf_fileIV s = 0 then initHeader env else io_return 0)
        (s\<lparr>cf_base := b1\<rparr>) = (r2, s2)" by fastforce
    have l2: "base_writable s2 = base_writable s \<and> cipher_holds c s2 \<and>
        bf_cache_offset s2 = bf_cache_offset s \<and> bf_cache_data s2 = bf_cache_data s \<and>
        (r2 = Inr 0 \<and> cf_fileIV s2 = iv \<or> faulty \<and> wr_failed r2)"
    proof (cases "cf_haveHeader s \<and> cf_fileIV s = 0")
      case True
      then obtain h body where hb: "raw = h @ body" "header_ok (cf_externalIV s) iv h" "body_ok iv c body"
        using iv1 data(1) by blast
      obtain b where b: "B (h @ body) b" "fio_isWritable (ce_base env) b = fio_isWritable (ce_base env) b1"
          "r2 = Inr 0 \<and> s2 = s\<lparr>cf_base := b1, cf_base := b, cf_fileIV := iv\<rparr> \<or>
           faulty \<and> wr_failed r2 \<and> s2 = s\<lparr>cf_base := b1, cf_base := b\<rparr>"
        using initHeader_reads [of h body "s\<lparr>cf_base := b1\<rparr>" iv r2 s2] l1(1) hb ih True by auto
      have "layout (cf_haveHeader s) (cf_externalIV s) iv c raw"
        "layout (cf_haveHeader s) (cf_externalIV s) 0 c raw"
        using True hb by (auto simp: layout_def)
      then show ?thesis unfolding cipher_holds_def using b geo l1(2) hb(1) True own by auto
    next
      case False
      then have "r2 = Inr 0" "s2 = s\<lparr>cf_base := b1\<rparr>" using ih by (auto simp: io_simps)
      moreover have "cf_fileIV s = iv" using False iv0 iv1 data(1) by (cases "cf_haveHeader s") auto
      ultimately show ?thesis using l1 h1 by simp
    qed
    show ?thesis
    proof (cases "wr_failed r2")
      case True
      then show ?thesis
        using step base_read data(2) d ih l2 geo
        by (cases r2) (auto simp: io_bind_split io_simps)
    next
      case False
      then have r2: "r2 = Inr 0" "cf_fileIV s2 = iv" using l2 by auto
      have "(r, s') = (Inr (Inr p), s2)"
        using step base_read data(2) d ih r2 geo decode_stored [OF data(1) enc]
        by (cases "length q = bs") (simp_all add: io_bind_split io_simps k_def [symmetric])
      then show ?thesis using l2 by (simp add: p_def blk_def k)
    qed
  qed
qed

subsection \<open>Writing a block\<close>

lemma layout_write:
  assumes lay: "layout hh ext iv c raw" and init: "hh \<longrightarrow> raw \<noteq> [] \<and> iv \<noteq> 0"
    and k: "k * bs \<le> length c \<or> holes \<and> bs dvd length c"
    and d: "d \<noteq> []" "length d = bs \<or> length d < bs \<and> length c \<le> k * bs + length d" "holes \<longrightarrow> hole_safe encode_block bs d"
  shows "layout hh ext iv (overlay (k * bs) d c)
    (overlay (if hh then k * bs + 8 else k * bs) (codec.encoded d (of_nat k XOR iv)) raw)"
proof (cases hh)
  case True
  then obtain h body where l: "raw = h @ body" "header_ok ext iv h" "body_ok iv c body"
    using lay init by (auto simp: layout_def)
  have h: "length h = 8" using l(2) by (simp add: header_ok_def)
  let ?q = "codec.encoded d (of_nat k XOR iv)"
  have "overlay (k * bs + 8) ?q (h @ body) = h @ overlay (k * bs) ?q body"
    using h by (simp add: overlay_def pad_to_def)
  then show ?thesis
    using True l body_ok_write [OF l(3) k d] by (auto simp: layout_def)
next
  case False
  then show ?thesis using lay body_ok_write [OF _ k d, of 0 raw] by (auto simp: layout_def)
qed

text \<open>Before it writes, an object with a header makes sure that the header is there and known.\<close>

lemma ensure_header:
  assumes hold: "cipher_holds c s" and w: "base_writable s"
    and ih: "(if cf_haveHeader s \<and> cf_fileIV s = 0 then initHeader env else io_return 0) s = (r1, s1)"
  shows "base_writable s1 \<and> (faulty \<and> wr_failed r1 \<or> r1 = Inr 0 \<and>
      bf_blockSize s1 = bs \<and> bf_allowHoles s1 = holes \<and> \<not> cf_reverse s1 \<and> cf_haveHeader s1 = cf_haveHeader s \<and>
      cf_externalIV s1 = cf_externalIV s \<and> bf_cache_offset s1 = bf_cache_offset s \<and> bf_cache_data s1 = bf_cache_data s \<and>
      (cf_haveHeader s \<longrightarrow> cf_fileIV s1 \<noteq> 0) \<and>
      (\<exists>raw. B raw (cf_base s1) \<and> (cf_haveHeader s \<longrightarrow> raw \<noteq> []) \<and>
         layout (cf_haveHeader s) (cf_externalIV s1) (cf_fileIV s1) c raw))"
proof -
  have geo: "bf_blockSize s = bs" "bf_allowHoles s = holes" "\<not> cf_reverse s" using hold by (auto simp: cipher_holds_def)
  obtain raw where B: "B raw (cf_base s)"
    and lay: "layout (cf_haveHeader s) (cf_externalIV s) (cf_fileIV s) c raw"
    using hold by (auto simp: cipher_holds_def)
  show ?thesis
  proof (cases "cf_haveHeader s \<and> cf_fileIV s = 0")
    case True
    then have run1: "initHeader env s = (r1, s1)" using ih by simp
    show ?thesis
    proof (cases "raw = []")
      case empty: True
      then have "c = []" using lay True by (auto simp: layout_def header_ok_def)
      moreover have "layout True ext iv [] h \<and> h \<noteq> [] \<and> iv \<noteq> 0" if "header_ok ext iv h" for ext iv h
        using that by (auto simp: layout_def header_ok_def body_ok_def blk_def intro!: exI [of _ iv] exI [of _ h])
      moreover have "B [] (cf_base s)" using B empty by simp
      ultimately show ?thesis
        using initHeader_creates [OF _ w run1] geo True by metis
    next
      case False
      then obtain iv h body where l: "raw = h @ body" "header_ok (cf_externalIV s) iv h" "body_ok iv c body"
        using lay True by (auto simp: layout_def)
      then have "layout True (cf_externalIV s) iv c raw" "iv \<noteq> 0" by (auto simp: layout_def header_ok_def)
      then show ?thesis
        using initHeader_reads [OF _ l(2) run1, of body] B l(1) geo True w False by auto
    qed
  next
    case False
    then have "r1 = Inr 0" "s1 = s" using ih by (auto simp: io_simps)
    moreover have "raw \<noteq> []" if "cf_haveHeader s" using that False lay by (auto simp: layout_def header_ok_def)
    ultimately show ?thesis using False w geo B lay by auto
  qed
qed

lemma write_one_law:
  assumes hold: "cipher_holds c s" and w: "base_writable s" and off: "bs dvd off"
    and start: "off \<le> length c \<or> holes \<and> bs dvd length c"
    and d: "d \<noteq> []" "length d = bs \<or> length d < bs \<and> length c \<le> off + length d" "holes \<longrightarrow> hole_safe encode_block bs d"
    and run: "cipher_writeOneBlock env off d s = (r, s')"
  shows "base_writable s' \<and> (\<not> wr_failed r \<and> cipher_holds (overlay off d c) s' \<or> faulty \<and> wr_failed r)"
proof -
  define k where "k = off div bs"
  have k: "off = k * bs" using off by (simp add: k_def)
  have geo: "bf_blockSize s = bs" "bf_allowHoles s = holes" "\<not> cf_reverse s" using hold by (auto simp: cipher_holds_def)
  have own: "cf_haveHeader s = hdr" "cf_externalIV s = xiv" using hold by (auto simp: cipher_holds_def)
  obtain raw where B: "B raw (cf_base s)"
    and lay: "layout (cf_haveHeader s) (cf_externalIV s) (cf_fileIV s) c raw"
    using hold by (auto simp: cipher_holds_def)
  obtain r1 s1 where ih: "(if cf_haveHeader s \<and> cf_fileIV s = 0 then initHeader env else io_return 0) s = (r1, s1)"
    by fastforce
  note l1 = ensure_header [OF hold w ih]
  note step = run [unfolded cipher_writeOneBlock_def Let_def io_bind_Inr [OF io_get_apply] id_apply]
  show ?thesis
  proof (cases "wr_failed r1")
    case True
    then show ?thesis using step ih l1 geo by (cases r1) (auto simp: io_bind_split io_simps)
  next
    case False
    then obtain raw1 where r1: "r1 = Inr 0" "bf_blockSize s1 = bs" "bf_allowHoles s1 = holes" "\<not> cf_reverse s1"
        "cf_haveHeader s1 = cf_haveHeader s" "B raw1 (cf_base s1)" "base_writable s1"
        "cf_haveHeader s \<longrightarrow> raw1 \<noteq> [] \<and> cf_fileIV s1 \<noteq> 0"
        "layout (cf_haveHeader s) (cf_externalIV s1) (cf_fileIV s1) c raw1"
        "cf_externalIV s1 = cf_externalIV s"
      using l1 by auto
    define q where "q = codec.encoded d (of_nat k XOR cf_fileIV s1)"
    define off' where "off' = (if cf_haveHeader s then k * bs + 8 else k * bs)"
    have q: "q \<noteq> []" using d(1) unfolding q_def by (metis length_0_conv codec.length_encoded)
    obtain n b2 where wr: "fio_write (ce_base env) off' q (cf_base s1) = (n, b2)" by fastforce
    note l2 = base.write_law [OF r1(6,7) q TrueI wr]
    have put: "on_base (fio_write (ce_base env) off' q) s1 = (n, s1\<lparr>cf_base := b2\<rparr>)"
      using wr by (rule on_base_apply)
    have num: "off div bs = k" by (simp add: k_def)
    have enc: "(if length d \<noteq> bs then streamWrite env False d (of_nat k XOR cf_fileIV s1)
        else blockWrite env False d (of_nat k XOR cf_fileIV s1)) = Inr (Some q)"
      unfolding q_def by (rule encode_encoded [OF d(1)])
    have offs: "(if cf_haveHeader s then off + HEADER_SIZE else off) = off'"
      by (simp add: off'_def k HEADER_SIZE_def)
    have "(r, s') = (n, s1\<lparr>cf_base := b2\<rparr>)"
      using step geo enc
      by (cases "length d = bs") (simp_all add: io_bind_split ih r1(1) num offs put io_simps)
    moreover have "layout (cf_haveHeader s) (cf_externalIV s1) (cf_fileIV s1) (overlay off d c) (overlay off' q raw1)"
      using layout_write [OF r1(9,8) _ d(1)] start d(2,3) unfolding k off'_def q_def by blast
    ultimately show ?thesis using l2 r1 by (auto simp: cipher_holds_def own)
  qed
qed

subsection \<open>The size\<close>

lemma size_one_law:
  assumes hold: "cipher_holds c s" and run: "cipher_getSize env s = (r, s')"
  shows "cipher_holds c s' \<and> base_writable s' = base_writable s \<and>
      bf_cache_offset s' = bf_cache_offset s \<and> bf_cache_data s' = bf_cache_data s \<and> r = Inr (int (length c))"
proof -
  obtain raw where B: "B raw (cf_base s)" and rev: "\<not> cf_reverse s"
    and lay: "layout (cf_haveHeader s) (cf_externalIV s) (cf_fileIV s) c raw"
    using hold by (auto simp: cipher_holds_def)
  obtain w b where sz: "fio_getSize (ce_base env) (cf_base s) = (w, b)" by fastforce
  note l1 = base.size_law [OF B sz]
  have w: "w = Inr (int (length raw))" using size_exact [OF B] sz by simp
  have len: "int (length c) = (if cf_haveHeader s \<and> raw \<noteq> [] then int (length raw) - 8 else int (length raw))"
    "cf_haveHeader s \<and> raw \<noteq> [] \<longrightarrow> 8 \<le> length raw"
    using lay by (auto simp: layout_def header_ok_def body_ok_def split: if_splits)
  have "(r, s') = (Inr (int (length c)), s\<lparr>cf_base := b\<rparr>)"
    using run on_base_apply [of "fio_getSize (ce_base env)" s, OF sz] rev len
    by (auto simp: cipher_getSize_def io_bind_split io_simps w HEADER_SIZE_def rAssert_def split: if_splits)
  then show ?thesis using l1 hold lay B by (auto simp: cipher_holds_def)
qed

end

text \<open>The class keeps the contract of a block device, with and without holes.\<close>

sublocale cipher_file \<subseteq> dev: block_device "cipher_ops env" bs holes faulty cipher_holds
  "\<lambda>s. fio_isWritable (ce_base env) (cf_base s)" "\<lambda>d. holes \<longrightarrow> hole_safe (c_blockEncode (ce_cipher env) (ce_key env)) bs d"
proof
  show "1 < bs" by (rule bs_gt_1)
  show "holes \<longrightarrow> hole_safe encode_block bs (replicate bs 0)" by simp
  show "bf_blockSize s = bs \<and> bf_allowHoles s = holes" if "cipher_holds c s" for c s
    using that by (simp add: cipher_holds_def)
  show "cipher_holds c (s\<lparr>bf_cache_offset := x, bf_cache_data := y\<rparr>) = cipher_holds c s"
    "base_writable (s\<lparr>bf_cache_offset := x, bf_cache_data := y\<rparr>) = base_writable s" for c s x y
    by (simp_all add: cipher_holds_def)
  show "cipher_holds c s' \<and> base_writable s' = base_writable s \<and>
      bf_cache_offset s' = bf_cache_offset s \<and> bf_cache_data s' = bf_cache_data s \<and>
      (r = Inr (Inr (take bs (drop off c))) \<or> faulty \<and> rd_failed r)"
    if "cipher_holds c s" "bs dvd off" "readOneBlock (cipher_ops env) off bs s = (r, s')" for c s off r s'
    using read_one_law [OF that(1,2)] that(3) by (simp add: cipher_ops_def)
  show "base_writable s' \<and> (\<not> wr_failed w \<and> cipher_holds (overlay off d c) s' \<or> faulty \<and> wr_failed w)"
    if "cipher_holds c s" "base_writable s" "bs dvd off" "off \<le> length c \<or> holes \<and> bs dvd length c" "d \<noteq> []"
      "length d = bs \<or> length d < bs \<and> length c \<le> off + length d" "holes \<longrightarrow> hole_safe encode_block bs d" "writeOneBlock (cipher_ops env) off d s = (w, s')"
    for c s off d w s'
    using write_one_law [OF that(1-7)] that(8) by (simp add: cipher_ops_def)
  show "cipher_holds c s' \<and> base_writable s' = base_writable s \<and>
      bf_cache_offset s' = bf_cache_offset s \<and> bf_cache_data s' = bf_cache_data s \<and>
      (w = Inr (int (length c)) \<or> faulty \<and> wr_failed w)"
    if "cipher_holds c s" "ops_getSize (cipher_ops env) s = (w, s')" for c s w s'
    using size_one_law [OF that(1)] that(2) by (simp add: cipher_ops_def)
qed

text \<open>Through the cache it is a file like the one below it.\<close>

sublocale cipher_file \<subseteq> cf: byte_file "cipher_fileio env" faulty dev.flat dev.clear
proof
  fix c s off len r s'
  assume f: "dev.flat c s" and run: "fio_read (cipher_fileio env) off len s = (r, s')"
  have "\<not> cf_reverse s" using f by (auto simp: dev.flat_def cipher_holds_def)
  then have "block_read (cipher_ops env) off len s = (r, s')"
    using run by (simp add: cipher_fileio_def cipher_read_def io_bind_split io_simps)
  from dev.block_read_law [OF f this]
  show "dev.flat c s' \<and> fio_isWritable (cipher_fileio env) s' = fio_isWritable (cipher_fileio env) s \<and>
      (r = Inr (Inr (take len (drop off c))) \<or> faulty \<and> rd_failed r)"
    by (simp add: cipher_fileio_def)
next
  fix c s d off w s'
  assume f: "dev.flat c s" and w: "fio_isWritable (cipher_fileio env) s" and d: "d \<noteq> []" and clear: "dev.clear (overlay off d c)"
    and run: "fio_write (cipher_fileio env) off d s = (w, s')"
  show "fio_isWritable (cipher_fileio env) s' \<and>
      (\<not> wr_failed w \<and> dev.flat (overlay off d c) s' \<or> faulty \<and> wr_failed w)"
    using dev.block_write_law [OF f _ d clear, of w s'] w run by (simp add: cipher_fileio_def)
next
  fix c s w s'
  assume "dev.flat c s" "fio_getSize (cipher_fileio env) s = (w, s')"
  then show "dev.flat c s' \<and> fio_isWritable (cipher_fileio env) s' = fio_isWritable (cipher_fileio env) s \<and>
      (w = Inr (int (length c)) \<or> faulty \<and> wr_failed w)"
    using dev.size_law [of c s w s'] by (simp add: cipher_fileio_def cipher_ops_def)
qed



section \<open>Changing the external vector\<close>

text \<open>The bytes of a header name its vector.\<close>

lemma fold_bytes:
  "foldl (\<lambda>iv b. push_bit 8 iv OR ucast b) (0 :: u64) (rev (map (\<lambda>i. ucast (drop_bit (8 * i) iv AND 0xff) :: byte) [0..<n]))
     = take_bit (8 * n) iv"
proof (induction n arbitrary: iv)
  case 0 then show ?case by simp
next
  case (Suc n)
  have "rev (map (\<lambda>i. ucast (drop_bit (8 * i) iv AND 0xff) :: byte) [0..<Suc n]) =
    rev (map (\<lambda>i. ucast (drop_bit (8 * i) (drop_bit 8 iv) AND 0xff)) [0..<n]) @ [ucast (iv AND 0xff)]"
    by (simp only: map_upt_Suc rev.simps) (simp add: add.commute)
  then have "foldl (\<lambda>iv b. push_bit 8 iv OR ucast b) (0 :: u64) (rev (map (\<lambda>i. ucast (drop_bit (8 * i) iv AND 0xff) :: byte) [0..<Suc n]))
     = push_bit 8 (take_bit (8 * n) (drop_bit 8 iv)) OR ucast (ucast iv :: byte)"
    using Suc.IH [of "drop_bit 8 iv"] by (simp add: low_byte)
  also have "\<dots> = take_bit (8 * Suc n) iv"
    by (rule bit_word_eqI) (auto simp: bit_simps)
  finally show ?case .
qed

lemma bytes_to_iv_of: "bytes_to_iv (iv_to_bytes iv) = iv"
  using fold_bytes [of iv 8] by (simp add: bytes_to_iv_def iv_to_bytes_def take_bit_word_eq_self)

lemma length_iv_to_bytes [simp]: "length (iv_to_bytes iv) = 8"
  by (simp add: iv_to_bytes_def)

context cipher_file
begin

lemma header_rewritten:
  assumes h: "header_ok ext iv h" "B (h @ body) (cf_base s)" "base_writable s" "cf_fileIV s = iv" "\<not> faulty"
  shows "\<exists>h' b. writeHeader env s = (Inr True, s\<lparr>cf_fileIV := 0, cf_base := b\<rparr>) \<and> B (h' @ body) b \<and>
    header_ok (cf_externalIV s) iv h' \<and> fio_isWritable (ce_base env) b"
proof -
  have nonempty: "iv_to_bytes iv \<noteq> []" by (simp add: iv_to_bytes_def)
  obtain h' where h': "c_streamEncode (ce_cipher env) (ce_key env) (iv_to_bytes iv) (cf_externalIV s) = Inr (Some h')"
    "length h' = 8" "c_streamDecode (ce_cipher env) (ce_key env) h' (cf_externalIV s) = Inr (Some (iv_to_bytes iv))"
    using codec.stream_inverts [OF nonempty] by (auto simp: inverts_def)
  obtain n b where wr: "fio_write (ce_base env) 0 h' (cf_base s) = (n, b)" by fastforce
  have "h' \<noteq> []" using h'(2) by auto
  from base.write_law [OF h(2,3) this TrueI wr] h(5)
  obtain k where k: "n = Inr k" "0 \<le> k" "B (overlay 0 h' (h @ body)) b" "fio_isWritable (ce_base env) b"
    by (cases n) auto
  have "overlay 0 h' (h @ body) = h' @ body" using h(1) h'(2) by (simp add: overlay_def header_ok_def)
  moreover have "header_ok (cf_externalIV s) iv h'" using h(1) h' by (auto simp: header_ok_def bytes_to_iv_of)
  ultimately show ?thesis using k h' h(4) wr
    by (intro exI [of _ h'] exI [of _ b]) (auto simp: writeHeader_def io_bind_split io_simps on_base_apply)
qed

text \<open>
  \<open>setIV\<close> on a file that has a header and is open for writing rewrites the header for the new
  vector and leaves the content alone.
\<close>

lemma setIV_rewrites:
  assumes f: "dev.flat c s" and "hdr" "xiv \<noteq> 0" "\<not> faulty" "base_writable s"
    and op: "fio_open (ce_base env) (cf_lastFlags s OR O_RDWR) (cf_base s) = (Inr fd, cf_base s)" "0 \<le> fd"
    and base_setIV: "\<And>b. fio_setIV (ce_base env) iv b = (Inr True, b)"
  shows "\<exists>s' raw. cipher_setIV env iv s = (Inr True, s') \<and> bf_blockSize s' = bs \<and> bf_allowHoles s' = holes \<and> \<not> cf_reverse s' \<and>
    cf_haveHeader s' \<and> cf_externalIV s' = iv \<and> coherent c s' \<and> B raw (cf_base s') \<and>
    layout True iv (cf_fileIV s') c raw \<and> base_writable s'"
proof -
  have hold: "cipher_holds c s" and coh: "coherent c s" using f by (simp_all add: dev.flat_def)
  have own: "cf_haveHeader s" "cf_externalIV s = xiv" using hold assms(2) unfolding cipher_holds_def by auto
  obtain r1 s1 where ih: "(if cf_fileIV s = 0 then initHeader env else io_return 0) s = (r1, s1)" by fastforce
  obtain raw where s1: "r1 = Inr 0" "base_writable s1" "bf_blockSize s1 = bs" "bf_allowHoles s1 = holes" "\<not> cf_reverse s1"
    "cf_haveHeader s1" "bf_cache_offset s1 = bf_cache_offset s" "bf_cache_data s1 = bf_cache_data s" "cf_fileIV s1 \<noteq> 0"
    "B raw (cf_base s1)" "raw \<noteq> []" "layout True xiv (cf_fileIV s1) c raw"
    using ensure_header [OF hold assms(5), of r1 s1] ih own assms(4) by auto
  then obtain h body where l: "raw = h @ body" "header_ok xiv (cf_fileIV s1) h" "body_ok (cf_fileIV s1) c body"
    by (auto simp: layout_def)
  let ?s2 = "s1\<lparr>cf_externalIV := iv\<rparr>"
  have "B (h @ body) (cf_base ?s2)" "base_writable ?s2" "cf_fileIV ?s2 = cf_fileIV s1" using s1 l by simp_all
  from header_rewritten [OF l(2) this assms(4)] obtain h' b where h':
    "writeHeader env ?s2 = (Inr True, ?s2\<lparr>cf_fileIV := 0, cf_base := b\<rparr>)" "B (h' @ body) b"
    "header_ok iv (cf_fileIV s1) h'" "fio_isWritable (ce_base env) b" by auto
  have op': "on_base (fio_open (ce_base env) (cf_lastFlags s OR O_RDWR)) s = (Inr fd, s)"
    using op(1) by (simp add: on_base_def io_lift_def)
  have "cipher_setIV env iv s = (Inr True, ?s2\<lparr>cf_fileIV := 0, cf_base := b\<rparr>)"
    using own assms(3) op(2) op' ih s1(1) h'(1) base_setIV [of b]
    by (simp add: cipher_setIV_def io_bind_split io_simps on_base_def io_lift_def split: if_splits)
  moreover have "layout True iv 0 c (h' @ body)" using h'(3) l(3) by (auto simp: layout_def)
  moreover have "coherent c ?s2" using coh hold s1 by (simp add: coherent_def cipher_holds_def)
  ultimately show ?thesis using s1 h'(2,4)
    by (intro exI [of _ "?s2\<lparr>cf_fileIV := 0, cf_base := b\<rparr>"] exI [of _ "h' @ body"]) (simp add: coherent_def)
qed

end

end
