(* ===== verification/MAC_File_IO.thy ===== *)
theory MAC_File_IO
  imports Cipher_File_IO
begin

text \<open>
  \<open>MACFileIO\<close> of \<^verbatim>\<open>encfs/MACFileIO.cpp\<close>: every block of the file below starts with a header of
  authentication bytes and random bytes. The object extends \<open>blockfileio\<close>, whose block size is
  here the number of user bytes in a block.

  \<open>mac_file\<close> shows that the class keeps the contract \<open>block_device\<close> over a file that keeps the
  contract \<open>byte_file\<close>, in particular over \<open>CipherFileIO\<close>.
\<close>

section \<open>The code\<close>

record ('b, 'r) macfileio = blockfileio +
  mf_base :: 'b
  mf_macBytes :: nat
  mf_randBytes :: nat
  mf_warnOnly :: bool
  mf_rng :: 'r

record ('b, 'k, 'r) mac_env =
  me_base :: "'b fileio"
  me_cipher :: "('k, 'r) cipher"
  me_key :: 'k

definition dataBlockSize :: "int \<Rightarrow> int \<Rightarrow> int \<Rightarrow> int" where
  "dataBlockSize blockSize blockMACBytes blockMACRandBytes = blockSize - blockMACBytes - blockMACRandBytes"

text \<open>
  The constructor, on the sizes of the configuration. The data block size is passed as an
  \<open>unsigned int\<close>; a configuration whose headers do not fit wraps around.
\<close>

definition MACFileIO_new ::
  "int \<Rightarrow> int \<Rightarrow> int \<Rightarrow> bool \<Rightarrow> bool \<Rightarrow> bool \<Rightarrow> 'b \<Rightarrow> 'r \<Rightarrow> exn + ('b, 'r) macfileio" where
  "MACFileIO_new blockSize macBytes randBytes allowHoles noCache forceDecode base rng =
     (let dbs = unat (word_of_int (dataBlockSize blockSize macBytes randBytes) :: u32) in
      if \<not> dbs > 1 then Inl (Fatal ''_blockSize > 1'')
      else if \<not> (macBytes \<ge> 0 \<and> macBytes \<le> 8) then Inl (Error ''macBytes >= 0 && macBytes <= 8'')
      else if \<not> randBytes \<ge> 0 then Inl (Error ''randBytes >= 0'')
      else Inr \<lparr>bf_blockSize = dbs, bf_allowHoles = allowHoles, bf_noCache = noCache,
                bf_cache_offset = 0, bf_cache_data = [],
                mf_base = base, mf_macBytes = nat macBytes, mf_randBytes = nat randBytes,
                mf_warnOnly = forceDecode, mf_rng = rng\<rparr>)"

definition mac_on_base :: "('b, 'a) io \<Rightarrow> (('b, 'r) macfileio, 'a) io" where
  "mac_on_base m = io_lift mf_base (\<lambda>b s. s\<lparr>mf_base := b\<rparr>) m"

definition roundUpDivide :: "nat \<Rightarrow> nat \<Rightarrow> nat" where
  "roundUpDivide numerator denominator = (numerator + denominator - 1) div denominator"

definition locWithHeader :: "nat \<Rightarrow> nat \<Rightarrow> nat \<Rightarrow> nat" where
  "locWithHeader offset blockSize headerSize =
     (let blockNum = roundUpDivide offset (blockSize - headerSize) in offset + blockNum * headerSize)"

definition locWithoutHeader :: "nat \<Rightarrow> nat \<Rightarrow> nat \<Rightarrow> int" where
  "locWithoutHeader offset blockSize headerSize =
     (let blockNum = roundUpDivide offset blockSize in int offset - int blockNum * int headerSize)"

definition mac_getAttr :: "('b, 'k, 'r) mac_env \<Rightarrow> (('b, 'r) macfileio, int + stat) io" where
  "mac_getAttr env =
     io_bind (mac_on_base (fio_getAttr (me_base env))) (\<lambda>res.
     case res of Inl e \<Rightarrow> io_return (Inl e)
     | Inr stbuf \<Rightarrow>
       if S_ISREG (st_mode stbuf) then
         io_bind (io_get id) (\<lambda>s.
         let headerSize = mf_macBytes s + mf_randBytes s; bs = bf_blockSize s + headerSize in
         io_return (Inr (stbuf\<lparr>st_size := locWithoutHeader (nat (st_size stbuf)) bs headerSize\<rparr>)))
       else io_return (Inr stbuf))"

definition mac_getSize :: "('b, 'k, 'r) mac_env \<Rightarrow> (('b, 'r) macfileio, int) io" where
  "mac_getSize env =
     io_bind (io_get id) (\<lambda>s.
     let headerSize = mf_macBytes s + mf_randBytes s; bs = bf_blockSize s + headerSize in
     io_bind (mac_on_base (fio_getSize (me_base env))) (\<lambda>sz.
     io_return (if sz > 0 then locWithoutHeader (nat sz) bs headerSize else sz)))"

text \<open>Byte \<open>i\<close> of the MAC, least significant first, and the comparison over all bytes.\<close>

definition mac_byte :: "u64 \<Rightarrow> nat \<Rightarrow> byte" where
  "mac_byte mac i = ucast (drop_bit (8 * i) mac AND 0xff)"

definition mac_fail :: "bytes \<Rightarrow> u64 \<Rightarrow> nat \<Rightarrow> byte" where
  "mac_fail d mac macBytes = foldl (\<lambda>fail i. fail OR (mac_byte mac i XOR d ! i)) 0 [0..<macBytes]"

definition mac_readOneBlock ::
  "('b, 'k, 'r) mac_env \<Rightarrow> nat \<Rightarrow> nat \<Rightarrow> (('b, 'r) macfileio, int + bytes) io" where
  "mac_readOneBlock env off len =
     io_bind (io_get id) (\<lambda>s.
     let macBytes = mf_macBytes s;
         headerSize = macBytes + mf_randBytes s;
         bs = bf_blockSize s + headerSize
     in
     io_bind (mac_on_base (fio_read (me_base env) (locWithHeader off bs headerSize) (headerSize + len))) (\<lambda>r.
     case r of Inl e \<Rightarrow> io_return (Inl e)
     | Inr d \<Rightarrow>
       let skipBlock = (if bf_allowHoles s then \<not> (\<exists>b\<in>set d. b \<noteq> 0) else \<not> macBytes > 0) in
       if length d > headerSize then
         (if \<not> skipBlock then
            io_bind (io_of (c_MAC_64 (me_cipher env) (drop macBytes d) (me_key env) None)) (\<lambda>mac.
            if mac_fail d mac macBytes > 0 \<and> \<not> mf_warnOnly s then io_return (Inl (- EBADMSG))
            else io_return (Inr (drop headerSize d)))
          else io_return (Inr (drop headerSize d)))
       else io_return (Inr [])))"

definition mac_writeOneBlock ::
  "('b, 'k, 'r) mac_env \<Rightarrow> nat \<Rightarrow> bytes \<Rightarrow> (('b, 'r) macfileio, int) io" where
  "mac_writeOneBlock env off d =
     io_bind (io_get id) (\<lambda>s.
     let macBytes = mf_macBytes s;
         randBytes = mf_randBytes s;
         headerSize = macBytes + randBytes;
         bs = bf_blockSize s + headerSize
     in
     io_bind (if randBytes > 0
              then (\<lambda>s. case c_randomize (me_cipher env) randBytes (mf_rng s) of
                          (buf, rng) \<Rightarrow> (Inr buf, s\<lparr>mf_rng := rng\<rparr>))
              else io_return (Some [])) (\<lambda>rnd.
     case rnd of None \<Rightarrow> io_return (- EBADMSG)
     | Some rand \<Rightarrow>
       io_bind (if macBytes > 0 then io_of (c_MAC_64 (me_cipher env) (rand @ d) (me_key env) None) else io_return 0) (\<lambda>mac.
       mac_on_base (fio_write (me_base env) (locWithHeader off bs headerSize)
         (map (mac_byte mac) [0..<macBytes] @ rand @ d)))))"

definition mac_ops :: "('b, 'k, 'r) mac_env \<Rightarrow> ('b, 'r) macfileio block_ops" where
  "mac_ops env =
     \<lparr>readOneBlock = mac_readOneBlock env, writeOneBlock = mac_writeOneBlock env, ops_getSize = mac_getSize env\<rparr>"

definition mac_truncate :: "('b, 'k, 'r) mac_env \<Rightarrow> nat \<Rightarrow> (('b, 'r) macfileio, int) io" where
  "mac_truncate env sz =
     io_bind (io_get id) (\<lambda>s.
     let headerSize = mf_macBytes s + mf_randBytes s; bs = bf_blockSize s + headerSize in
     io_bind (truncateBase (mac_ops env) sz None) (\<lambda>res.
     if res = 0 then mac_on_base (fio_truncate (me_base env) (locWithHeader sz bs headerSize))
     else io_return res))"

definition mac_fileio :: "('b, 'k, 'r) mac_env \<Rightarrow> ('b, 'r) macfileio fileio" where
  "mac_fileio env =
     \<lparr>fio_blockSize = bf_blockSize,
      fio_setFileName = (\<lambda>fileName s. s\<lparr>mf_base := fio_setFileName (me_base env) fileName (mf_base s)\<rparr>),
      fio_getFileName = (\<lambda>s. fio_getFileName (me_base env) (mf_base s)),
      fio_setIV = (\<lambda>iv. mac_on_base (fio_setIV (me_base env) iv)),
      fio_open = (\<lambda>flags. mac_on_base (fio_open (me_base env) flags)),
      fio_getAttr = mac_getAttr env,
      fio_getSize = mac_getSize env,
      fio_read = block_read (mac_ops env),
      fio_write = block_write (mac_ops env),
      fio_truncate = mac_truncate env,
      fio_isWritable = (\<lambda>s. fio_isWritable (me_base env) (mf_base s))\<rparr>"

section \<open>Positions\<close>

text \<open>
  With data blocks of \<open>n\<close> bytes and headers of \<open>h\<close> bytes: a block boundary, and a position
  behind \<open>x\<close> bytes of block \<open>k\<close>.
\<close>


lemma roundUpDivide_boundary: "0 < n \<Longrightarrow> roundUpDivide (k * n) n = k"
proof -
  assume n: "0 < n"
  then have eq: "k * n + n - 1 = k * n + (n - 1)" by simp
  have "(k * n + (n - 1)) div n = k + (n - 1) div n" using n by (intro div_mult_self3) simp
  then have "(k * n + (n - 1)) div n = k" using n by (simp only: div_less diff_less zero_less_one add_0_right)
  then show ?thesis unfolding roundUpDivide_def eq .
qed

lemma roundUpDivide_inside:
  assumes "0 < x" "x \<le> n"
  shows "roundUpDivide (k * n + x) n = Suc k"
proof -
  have "k * n + x + n - 1 = Suc k * n + (x - 1)" using assms by simp
  moreover have "(Suc k * n + (x - 1)) div n = Suc k + (x - 1) div n"
    using assms by (intro div_mult_self3 [THEN trans]) auto
  moreover have "(x - 1) div n = 0" using assms by simp
  ultimately show ?thesis by (simp add: roundUpDivide_def)
qed

lemma roundUpDivide_mono: "a \<le> b \<Longrightarrow> roundUpDivide a n \<le> roundUpDivide b n"
  by (simp add: roundUpDivide_def div_le_mono)

lemma locWithHeader_boundary: "0 < n \<Longrightarrow> locWithHeader (k * n) (n + h) h = k * (n + h)"
  by (simp add: locWithHeader_def roundUpDivide_boundary algebra_simps)

lemma locWithHeader_inside:
  "0 < x \<Longrightarrow> x \<le> n \<Longrightarrow> locWithHeader (k * n + x) (n + h) h = k * (n + h) + (h + x)"
  by (simp add: locWithHeader_def roundUpDivide_inside) (simp add: algebra_simps)

lemma locWithHeader_mono: "a \<le> b \<Longrightarrow> locWithHeader a n h \<le> locWithHeader b n h"
  by (simp add: locWithHeader_def Let_def add_mono roundUpDivide_mono)

text \<open>A position is a boundary or lies behind some bytes of a block.\<close>

lemma position_cases:
  assumes "0 < (n::nat)"
  obtains k where "a = k * n" | k x where "a = k * n + x" "0 < x" "x \<le> n"
proof (cases "a mod n = 0")
  case True
  then have "a = a div n * n" using div_mult_mod_eq [of a n] by simp
  then show thesis using that(1) by blast
next
  case False
  then show thesis using that(2) [of "a div n" "a mod n"] assms by (simp add: less_imp_le)
qed

lemma locWithoutHeader_locWithHeader:
  assumes "0 < n"
  shows "locWithoutHeader (locWithHeader a (n + h) h) (n + h) h = int a"
proof (cases rule: position_cases [OF assms, of a])
  case (1 k)
  have "roundUpDivide (k * (n + h)) (n + h) = k" using assms by (intro roundUpDivide_boundary) simp
  then show ?thesis using assms 1 locWithHeader_boundary [of n k h]
    by (simp add: locWithoutHeader_def algebra_simps)
next
  case (2 k x)
  have "roundUpDivide (k * (n + h) + (h + x)) (n + h) = Suc k" using 2 by (intro roundUpDivide_inside) auto
  then show ?thesis using 2 locWithHeader_inside [of x n k h]
    by (simp add: locWithoutHeader_def algebra_simps)
qed

section \<open>The comparison\<close>

lemma or_eq_0_iff: "(a OR b = 0) = (a = 0 \<and> b = 0)" for a b :: "'a::len word"
  by (auto simp: bit_eq_iff bit_or_iff)

lemma xor_eq_0_iff: "(a XOR b = 0) = (a = b)" for a b :: "'a::len word"
  by (auto simp: bit_eq_iff bit_xor_iff)

lemma mac_fail_acc:
  "foldl (\<lambda>fail i. fail OR (mac_byte mac i XOR d ! i)) f is = 0 \<longleftrightarrow>
     f = 0 \<and> (\<forall>i\<in>set is. mac_byte mac i = d ! i)"
  by (induction "is" arbitrary: f) (auto simp: or_eq_0_iff xor_eq_0_iff)

lemma mac_fail_iff:
  assumes "n \<le> length d"
  shows "mac_fail d mac n > 0 \<longleftrightarrow> take n d \<noteq> map (mac_byte mac) [0..<n]"
proof -
  have "mac_fail d mac n = 0 \<longleftrightarrow> take n d = map (mac_byte mac) [0..<n]"
    using assms unfolding mac_fail_def mac_fail_acc by (auto simp: list_eq_iff_nth_eq)
  then show ?thesis by (simp add: word_gt_0)
qed

section \<open>The contract of the class\<close>

text \<open>
  What is assumed: the file below keeps its contract, the MAC of a buffer that is not empty
  exists, random bytes come in the number asked for, and come at all where nothing may fail. The
  file below can store contents whose blocks are good; with holes that may not be all of them.
\<close>

locale mac_file = base: byte_file "me_base env" faulty B clearB
  for env :: "('b, 'k, 'r) mac_env" and faulty :: bool and B :: "bytes \<Rightarrow> 'b \<Rightarrow> bool" and clearB :: "bytes \<Rightarrow> bool" +
  fixes n m k :: nat and holes :: bool and gB :: "bytes \<Rightarrow> bool"
  assumes n_gt_1: "1 < n" and m_le_8: "m \<le> 8"
    and mac_total: "x \<noteq> [] \<Longrightarrow> \<exists>mac. c_MAC_64 (me_cipher env) x (me_key env) None = Inr mac"
    and random_length: "c_randomize (me_cipher env) len rng = (Some buf, rng') \<Longrightarrow> length buf = len"
    and random_some: "\<not> faulty \<Longrightarrow> fst (c_randomize (me_cipher env) len rng) \<noteq> None"
    and base_clear: "(\<And>j. gB (blk (n + (m + k)) j raw)) \<Longrightarrow> clearB raw"
    and base_zero: "gB (replicate (n + (m + k)) 0)" and base_all: "\<not> holes \<Longrightarrow> gB q"
begin

abbreviation "h \<equiv> m + k"
abbreviation "mac_writable \<equiv> \<lambda>s. fio_isWritable (me_base env) (mf_base s)"

text \<open>
  A block below: nothing; authentication bytes, random bytes and data; or, with holes, zeros
  for data of zeros.
\<close>

definition sealed :: "bytes \<Rightarrow> bytes \<Rightarrow> bool" where
  "sealed p q = (if p = [] then q = []
     else (holes \<and> all_zero p \<and> all_zero q \<and> length q = h + length p) \<or> (\<exists>rand mac. length rand = k \<and> (m > 0 \<longrightarrow> c_MAC_64 (me_cipher env) (rand @ p) (me_key env) None = Inr mac) \<and>
       q = map (mac_byte mac) [0..<m] @ rand @ p))"

text \<open>What the class can store: whatever the header, the file below can store the block.\<close>

definition mac_good :: "bytes \<Rightarrow> bool" where
  "mac_good d = (\<forall>hd. length hd = h \<longrightarrow> gB (hd @ d))"

definition mac_holds :: "bytes \<Rightarrow> ('b, 'r) macfileio \<Rightarrow> bool" where
  "mac_holds c s = (bf_blockSize s = n \<and> bf_allowHoles s = holes \<and> mf_macBytes s = m \<and> mf_randBytes s = k \<and>
     (\<exists>raw. B raw (mf_base s) \<and> length raw = locWithHeader (length c) (n + h) h \<and>
        (\<forall>j. sealed (blk n j c) (blk (n + h) j raw) \<and> gB (blk (n + h) j raw))))"

lemma mac_on_base_apply: "op (mf_base s) = (r, b) \<Longrightarrow> mac_on_base op s = (r, s\<lparr>mf_base := b\<rparr>)"
  by (simp add: mac_on_base_def io_lift_def)

text \<open>A block below gives its data, and where its MAC is checked the check passes.\<close>

lemma sealed_opens:
  assumes "sealed p q" "p \<noteq> []"
  shows "drop h q = p \<and> length q > h \<and> (\<not> holes \<or> \<not> all_zero q \<longrightarrow> m > 0 \<or> holes \<longrightarrow>
    (\<exists>mac. c_MAC_64 (me_cipher env) (drop m q) (me_key env) None = Inr mac \<and> \<not> mac_fail q mac m > 0))"
proof (cases "holes \<and> all_zero p \<and> all_zero q \<and> length q = h + length p")
  case True
  have "all_zero (drop h q)" using True by (auto simp: all_zero_def dest: in_set_dropD)
  then have "drop h q = p" using True by (intro all_zero_eq) simp_all
  then show ?thesis using True assms(2) by auto
next
  case False
  then obtain rand mac where q: "q = map (mac_byte mac) [0..<m] @ rand @ p" "length rand = k"
      and mac: "m > 0 \<longrightarrow> c_MAC_64 (me_cipher env) (rand @ p) (me_key env) None = Inr mac"
    using assms unfolding sealed_def if_not_P [OF assms(2)] by blast
  have "\<not> mac_fail q mac m > 0" by (subst mac_fail_iff) (simp_all add: q)
  moreover have "drop h q = p" "drop m q = rand @ p" "length q > h" using q assms(2) by auto
  moreover obtain mac2 where "c_MAC_64 (me_cipher env) (rand @ p) (me_key env) None = Inr mac2"
    using mac_total [of "rand @ p"] assms(2) by auto
  ultimately show ?thesis using mac by (cases "m > 0") (auto simp: mac_fail_def)
qed

lemma mac_read_one_law:
  assumes hold: "mac_holds c s" and off: "n dvd off" and run: "mac_readOneBlock env off n s = (r, s')"
  shows "mac_holds c s' \<and> mac_writable s' = mac_writable s \<and>
      bf_cache_offset s' = bf_cache_offset s \<and> bf_cache_data s' = bf_cache_data s \<and>
      (r = Inr (Inr (take n (drop off c))) \<or> faulty \<and> rd_failed r)"
proof -
  define j where "j = off div n"
  have j: "off = j * n" using off by (simp add: j_def)
  have geo: "bf_blockSize s = n" "bf_allowHoles s = holes" "mf_macBytes s = m" "mf_randBytes s = k"
    using hold by (auto simp: mac_holds_def)
  obtain raw where B: "B raw (mf_base s)" and len: "length raw = locWithHeader (length c) (n + h) h"
    and seal: "\<And>j. sealed (blk n j c) (blk (n + h) j raw) \<and> gB (blk (n + h) j raw)"
    using hold by (auto simp: mac_holds_def)
  define p where "p = blk n j c"
  define q where "q = blk (n + h) j raw"
  have pq: "sealed p q" using seal by (simp add: p_def q_def)
  have loc: "locWithHeader off (n + h) h = j * (n + h)" using n_gt_1 by (simp add: j locWithHeader_boundary)
  obtain r1 b1 where rd: "fio_read (me_base env) (j * (n + h)) (h + n) (mf_base s) = (r1, b1)" by fastforce
  have l1: "B raw b1" "fio_isWritable (me_base env) b1 = mac_writable s" "r1 = Inr (Inr q) \<or> faulty \<and> rd_failed r1"
    using base.read_law [OF B rd] by (auto simp: q_def blk_def add.commute)
  have h1: "mac_holds c (s\<lparr>mf_base := b1\<rparr>)" using geo l1 len seal by (auto simp: mac_holds_def)
  have get: "mac_on_base (fio_read (me_base env) (j * (n + h)) (h + n)) s = (r1, s\<lparr>mf_base := b1\<rparr>)"
    using rd by (rule mac_on_base_apply)
  have result: "take n (drop off c) = p" by (simp add: p_def blk_def j)
  note step = run [unfolded mac_readOneBlock_def Let_def io_bind_Inr [OF io_get_apply] id_apply geo loc]
  consider (failed) "faulty" "rd_failed r1" | (eof) "r1 = Inr (Inr [])" "p = []"
    | (data) "p \<noteq> []" "r1 = Inr (Inr q)"
    using l1(3) pq by (cases "p = []") (auto simp: sealed_def)
  then show ?thesis
  proof cases
    case failed
    from failed(2) show ?thesis
      by (cases rule: rd_failed_cases) (use step get failed(1) l1 h1 in \<open>auto simp: io_bind_split io_simps\<close>)
  next
    case eof
    then show ?thesis using step get l1 h1 unfolding result by (auto simp: io_bind_split io_simps)
  next
    case data
    have fine: "drop h q = p" "length q > h"
      "\<not> holes \<or> \<not> all_zero q \<Longrightarrow> m > 0 \<or> holes \<Longrightarrow>
         \<exists>mac. c_MAC_64 (me_cipher env) (drop m q) (me_key env) None = Inr mac \<and> \<not> mac_fail q mac m > 0"
      using sealed_opens [OF pq data(1)] by auto
    have skip: "(\<exists>b\<in>set q. b \<noteq> 0) \<longleftrightarrow> \<not> all_zero q" by (auto simp: all_zero_def)
    have "(r, s') = (Inr (Inr p), s\<lparr>mf_base := b1\<rparr>)"
    proof (cases "if holes then all_zero q else m = 0")
      case True
      then show ?thesis using step get data(2) fine geo skip
        by (cases holes) (auto simp: io_bind_split io_simps)
    next
      case False
      then obtain mac where "c_MAC_64 (me_cipher env) (drop m q) (me_key env) None = Inr mac" "\<not> mac_fail q mac m > 0"
        using fine(3) by (cases holes) auto
      then show ?thesis using False step get data(2) fine geo skip
        by (cases holes) (auto simp: io_bind_split io_simps)
    qed
    then show ?thesis using l1 h1 unfolding result by simp
  qed
qed

end

context mac_file
begin

lemma mac_write_one_law:
  assumes hold: "mac_holds c s" and w: "mac_writable s" and off: "n dvd off"
    and start: "off \<le> length c \<or> holes \<and> n dvd length c"
    and d: "d \<noteq> []" "length d = n \<or> length d < n \<and> length c \<le> off + length d" "mac_good d"
    and run: "mac_writeOneBlock env off d s = (r, s')"
  shows "mac_writable s' \<and> (\<not> wr_failed r \<and> mac_holds (overlay off d c) s' \<or> faulty \<and> wr_failed r)"
proof -
  define j where "j = off div n"
  have j: "off = j * n" using off by (simp add: j_def)
  have geo: "bf_blockSize s = n" "bf_allowHoles s = holes" "mf_macBytes s = m" "mf_randBytes s = k"
    using hold by (auto simp: mac_holds_def)
  obtain raw where B: "B raw (mf_base s)" and len: "length raw = locWithHeader (length c) (n + h) h"
    and seal: "\<And>j. sealed (blk n j c) (blk (n + h) j raw) \<and> gB (blk (n + h) j raw)"
    using hold by (auto simp: mac_holds_def)
  have loc: "locWithHeader off (n + h) h = j * (n + h)" using n_gt_1 by (simp add: j locWithHeader_boundary)
  have dn: "0 < length d" "length d \<le> n" using d by auto
  note step = run [unfolded mac_writeOneBlock_def Let_def io_bind_Inr [OF io_get_apply] id_apply geo loc]
  obtain rnd rng where draw: "(if k > 0
      then (\<lambda>s. case c_randomize (me_cipher env) k (mf_rng s) of (buf, rng) \<Rightarrow> (Inr buf, s\<lparr>mf_rng := rng\<rparr>))
      else io_return (Some [])) s = (Inr rnd, s\<lparr>mf_rng := rng\<rparr>)"
    and rnd: "rnd = None \<longrightarrow> faulty" "\<And>rand. rnd = Some rand \<Longrightarrow> length rand = k"
  proof (cases "k > 0")
    case True
    obtain b rng where one: "c_randomize (me_cipher env) k (mf_rng s) = (b, rng)" by fastforce
    show thesis
      by (rule that [of b rng])
        (use True one random_some [of k "mf_rng s"] random_length [of k "mf_rng s"] in auto)
  next
    case False
    show thesis by (rule that [of "Some []" "mf_rng s"]) (use False in \<open>simp_all add: io_simps\<close>)
  qed
  show ?thesis
  proof (cases rnd)
    case None
    then show ?thesis using step draw rnd(1) w by (auto simp: io_bind_split io_simps EBADMSG_def)
  next
    case (Some rand)
    have rlen: "length rand = k" using rnd(2) Some by simp
    obtain mac where mac: "c_MAC_64 (me_cipher env) (rand @ d) (me_key env) None = Inr mac"
      using mac_total [of "rand @ d"] d(1) by auto
    define mac' where "mac' = (if m > 0 then mac else 0)"
    define q where "q = map (mac_byte mac') [0..<m] @ rand @ d"
    have ql: "length q = h + length d" by (simp add: q_def rlen)
    have qseal: "sealed d q"
      using d(1) rlen mac by (auto simp: sealed_def q_def mac'_def intro!: exI [of _ rand] exI [of _ mac'])
    obtain w1 b1 where wr: "fio_write (me_base env) (j * (n + h)) q (mf_base s) = (w1, b1)" by fastforce
    have qn: "q \<noteq> []" "length q \<le> n + h" using ql dn by auto
    have "gB ((map (mac_byte mac') [0..<m] @ rand) @ d)" using d(3) rlen unfolding mac_good_def by (auto simp del: append_assoc)
    then have qgood: "gB q" by (simp add: q_def)
    have res: "(r, s') = (w1, s\<lparr>mf_rng := rng, mf_base := b1\<rparr>)"
      using step draw Some mac mac_on_base_apply [of "fio_write (me_base env) (j * (n + h)) q" "s\<lparr>mf_rng := rng\<rparr>" w1 b1] wr
      by (cases "m > 0") (auto simp: io_bind_split io_simps q_def mac'_def)
    have pos: "j * (n + h) \<le> length raw" if "j * n \<le> length c"
      using locWithHeader_mono [OF that, of "n + h" h] by (simp add: len loc flip: j)
    have at_end: "locWithHeader (j * n + length d) (n + h) h = j * (n + h) + length q"
      using locWithHeader_inside [OF dn, of j h] by (simp add: ql)
    have qend: "length q = n + h \<or> length q < n + h \<and> length raw \<le> j * (n + h) + length q"
      using d(2) locWithHeader_mono [of "length c" "j * n + length d" "n + h" h] by (auto simp: ql len at_end j)
    have "length (overlay (j * (n + h)) q raw) = locWithHeader (length (overlay off d c)) (n + h) h"
      using locWithHeader_mono [of "length c" "j * n + length d" "n + h" h]
        locWithHeader_mono [of "j * n + length d" "length c" "n + h" h]
      by (auto simp: len at_end j max_def)
    moreover have blocks: "sealed (blk n i (overlay off d c)) (blk (n + h) i (overlay (j * (n + h)) q raw)) \<and>
        gB (blk (n + h) i (overlay (j * (n + h)) q raw))" for i
    proof (cases "i = j")
      case True
      then show ?thesis using qseal qgood blk_overlay_same [OF qend] blk_overlay_same [of d n c j] d(2) by (simp add: j)
    next
      case False
      show ?thesis
      proof (cases "j * n \<le> length c")
        case True
        then show ?thesis
          using seal [of i] blk_overlay_other [OF False pos [OF True] qn(2)] blk_overlay_other [OF False True dn(2)]
          by (simp add: j)
      next
        case gap: False
        then have h: holes and dvd: "n dvd length c" using start j by auto
        then obtain a where a: "length c = a * n" by (metis dvd_div_mult_self)
        have la: "length raw = a * (n + h)" using n_gt_1 by (simp add: len a locWithHeader_boundary)
        have "length raw \<le> i * (n + h) \<longleftrightarrow> length c \<le> i * n" using n_gt_1 by (simp add: la a)
        moreover have "sealed (replicate n 0) (replicate (n + h) 0)" using h n_gt_1 unfolding sealed_def by simp
        ultimately show ?thesis
          using seal [of i] base_zero blk_overlay_gap [OF False dvd dn(2) d(1)]
            blk_overlay_gap [OF False _ qn(2,1), of raw] unfolding j la
          by (cases "length c \<le> i * n \<and> i < j") (simp_all only: if_True if_False simp_thms dvd_triv_right)
      qed
    qed
    moreover have "clearB (overlay (j * (n + h)) q raw)" by (rule base_clear) (use blocks in simp)
    note l1 = base.write_law [OF B w qn(1) this wr]
    ultimately show ?thesis using l1 res geo by (auto simp: mac_holds_def)
  qed
qed

lemma mac_size_one_law:
  assumes hold: "mac_holds c s" and run: "mac_getSize env s = (r, s')"
  shows "mac_holds c s' \<and> mac_writable s' = mac_writable s \<and>
      bf_cache_offset s' = bf_cache_offset s \<and> bf_cache_data s' = bf_cache_data s \<and>
      (r = Inr (int (length c)) \<or> faulty \<and> wr_failed r)"
proof -
  have geo: "bf_blockSize s = n" "mf_macBytes s = m" "mf_randBytes s = k" using hold by (auto simp: mac_holds_def)
  obtain raw where B: "B raw (mf_base s)" and len: "length raw = locWithHeader (length c) (n + h) h"
    and seal: "\<forall>j. sealed (blk n j c) (blk (n + h) j raw) \<and> gB (blk (n + h) j raw)"
    using hold by (auto simp: mac_holds_def)
  obtain w b where sz: "fio_getSize (me_base env) (mf_base s) = (w, b)" by fastforce
  note l1 = base.size_law [OF B sz]
  have zero: "length c = 0" if "length raw = 0" using that len by (simp add: locWithHeader_def)
  have inv: "locWithoutHeader (length raw) (n + h) h = int (length c)"
    unfolding len using n_gt_1 by (intro locWithoutHeader_locWithHeader) simp
  have get: "mac_on_base (fio_getSize (me_base env)) s = (w, s\<lparr>mf_base := b\<rparr>)"
    using sz by (rule mac_on_base_apply)
  have "(r, s') = io_bind (mac_on_base (fio_getSize (me_base env)))
      (\<lambda>sz. io_return (if sz > 0 then locWithoutHeader (nat sz) (n + h) h else sz)) s"
    using run [unfolded mac_getSize_def Let_def io_bind_Inr [OF io_get_apply] id_apply geo] by (rule sym)
  note step = this [unfolded io_bind_split get]
  have "s' = s\<lparr>mf_base := b\<rparr>" using step by (cases w) (simp_all add: io_simps)
  moreover have "r = Inr (int (length c)) \<or> faulty \<and> wr_failed r"
  proof (cases "w = Inr (int (length raw))")
    case True
    show ?thesis
    proof (cases "raw = []")
      case True
      then show ?thesis using step \<open>w = _\<close> zero by (simp add: io_simps)
    next
      case False
      then show ?thesis using step \<open>w = _\<close> inv by (simp add: io_simps)
    qed
  next
    case False
    then have "faulty" "wr_failed w" using l1 by auto
    then show ?thesis using step by (cases w) (auto simp: io_simps)
  qed
  moreover have "mac_holds c (s\<lparr>mf_base := b\<rparr>)"
    using l1 hold len seal by (auto simp: mac_holds_def)
  ultimately show ?thesis using l1 by simp
qed

end

sublocale mac_file \<subseteq> mdev: block_device "mac_ops env" n holes faulty mac_holds
  "\<lambda>s. fio_isWritable (me_base env) (mf_base s)" mac_good
proof
  show "1 < n" by (rule n_gt_1)
  show "mac_good (replicate n 0)" if "\<not> holes" using base_all [OF that] by (simp add: mac_good_def)
  show "bf_blockSize s = n \<and> bf_allowHoles s = holes" if "mac_holds c s" for c s
    using that by (simp add: mac_holds_def)
  show "mac_holds c (s\<lparr>bf_cache_offset := x, bf_cache_data := y\<rparr>) = mac_holds c s"
    "mac_writable (s\<lparr>bf_cache_offset := x, bf_cache_data := y\<rparr>) = mac_writable s" for c s x y
    by (simp_all add: mac_holds_def)
  show "mac_holds c s' \<and> mac_writable s' = mac_writable s \<and>
      bf_cache_offset s' = bf_cache_offset s \<and> bf_cache_data s' = bf_cache_data s \<and>
      (r = Inr (Inr (take n (drop off c))) \<or> faulty \<and> rd_failed r)"
    if "mac_holds c s" "n dvd off" "readOneBlock (mac_ops env) off n s = (r, s')" for c s off r s'
    using mac_read_one_law [OF that(1,2)] that(3) by (simp add: mac_ops_def)
  show "mac_writable s' \<and> (\<not> wr_failed w \<and> mac_holds (overlay off d c) s' \<or> faulty \<and> wr_failed w)"
    if "mac_holds c s" "mac_writable s" "n dvd off" "off \<le> length c \<or> holes \<and> n dvd length c" "d \<noteq> []"
      "length d = n \<or> length d < n \<and> length c \<le> off + length d" "mac_good d" "writeOneBlock (mac_ops env) off d s = (w, s')"
    for c s off d w s'
    using mac_write_one_law [OF that(1-7)] that(8) by (simp add: mac_ops_def)
  show "mac_holds c s' \<and> mac_writable s' = mac_writable s \<and>
      bf_cache_offset s' = bf_cache_offset s \<and> bf_cache_data s' = bf_cache_data s \<and>
      (w = Inr (int (length c)) \<or> faulty \<and> wr_failed w)"
    if "mac_holds c s" "ops_getSize (mac_ops env) s = (w, s')" for c s w s'
    using mac_size_one_law [OF that(1)] that(2) by (simp add: mac_ops_def)
qed

sublocale mac_file \<subseteq> mf: byte_file "mac_fileio env" faulty mdev.flat mdev.clear
proof
  show "mdev.flat c s' \<and> fio_isWritable (mac_fileio env) s' = fio_isWritable (mac_fileio env) s \<and>
      (r = Inr (Inr (take len (drop off c))) \<or> faulty \<and> rd_failed r)"
    if "mdev.flat c s" "fio_read (mac_fileio env) off len s = (r, s')" for c s off len r s'
    using mdev.block_read_law [OF that(1), of off len r s'] that(2) by (simp add: mac_fileio_def)
  show "fio_isWritable (mac_fileio env) s' \<and>
      (\<not> wr_failed w \<and> mdev.flat (overlay off d c) s' \<or> faulty \<and> wr_failed w)"
    if "mdev.flat c s" "fio_isWritable (mac_fileio env) s" "d \<noteq> []" "mdev.clear (overlay off d c)"
      "fio_write (mac_fileio env) off d s = (w, s')"
    for c s d off w s'
    using mdev.block_write_law [OF that(1) _ that(3,4), of w s'] that(2,5) by (simp add: mac_fileio_def)
  show "mdev.flat c s' \<and> fio_isWritable (mac_fileio env) s' = fio_isWritable (mac_fileio env) s \<and>
      (w = Inr (int (length c)) \<or> faulty \<and> wr_failed w)"
    if "mdev.flat c s" "fio_getSize (mac_fileio env) s = (w, s')" for c s w s'
    using mdev.size_law [OF that(1), of w s'] that(2) by (simp add: mac_fileio_def mac_ops_def)
qed


section \<open>Properties\<close>


text \<open>A file below that delivers one fixed block, and a MAC that is always 5.\<close>

definition const_file :: "bytes \<Rightarrow> unit fileio" where
  "const_file d =
     \<lparr>fio_blockSize = (\<lambda>_. 1), fio_setFileName = (\<lambda>_ s. s), fio_getFileName = (\<lambda>_. []),
      fio_setIV = (\<lambda>_. io_return True), fio_open = (\<lambda>_. io_return 3),
      fio_getAttr = io_return (Inl (- EIO)), fio_getSize = io_return (int (length d)),
      fio_read = (\<lambda>off len. io_return (Inr (take len (drop off d)))),
      fio_write = (\<lambda>_ _. io_return (- EIO)), fio_truncate = (\<lambda>_. io_return (- EIO)), fio_isWritable = (\<lambda>_. False)\<rparr>"

definition const_env :: "bytes \<Rightarrow> (unit, unit, unit) mac_env" where
  "const_env d =
     \<lparr>me_base = const_file d, me_cipher = (NullCipher NullInterface)\<lparr>c_MAC_64 := (\<lambda>_ _ _. Inr 5)\<rparr>, me_key = ()\<rparr>"

definition const_state :: "bool \<Rightarrow> (unit, unit) macfileio" where
  "const_state holes = \<lparr>bf_blockSize = 4, bf_allowHoles = holes, bf_noCache = False, bf_cache_offset = 0, bf_cache_data = [],
     mf_base = (), mf_macBytes = 2, mf_randBytes = 1, mf_warnOnly = False, mf_rng = ()\<rparr>"


text \<open>
  The positions of data in the file with headers and without are inverse, so that the
  size of the plain file is recovered from the size below whatever the headers.
\<close>

theorem header_positions:
  assumes "0 < n"
  shows "locWithoutHeader (locWithHeader a (n + h) h) (n + h) h = int a \<and> strict_mono (\<lambda>a. locWithHeader a (n + h) h)"
proof (rule conjI)
  show "strict_mono (\<lambda>a. locWithHeader a (n + h) h)"
    by (rule strict_monoI) (simp add: locWithHeader_def Let_def add_less_le_mono roundUpDivide_mono)
qed (rule locWithoutHeader_locWithHeader [OF assms])

theorem header_positions_witness: "locWithoutHeader (locWithHeader 2000 1024 8) 1024 8 = 2000"
  using header_positions [of 1016 2000 8] by simp


end
