(* ===== verification/SSL_Cipher.thy ===== *)
theory SSL_Cipher
  imports Cipher_Core
begin

text \<open>
  \<open>SSL_Cipher\<close> of \<^verbatim>\<open>encfs/SSL_Cipher.cpp\<close>: the ciphers of OpenSSL behind the interface of
  \<open>Cipher_Core\<close>. Key derivation, key wrapping with a checksum, the initialisation vectors and
  the two-pass stream mode are modelled; the primitives of OpenSSL are the record \<open>openssl\<close>.

  A cipher context holds a cipher and a key and is given a new vector before each use; a call
  of \<open>EVP_EncryptInit_ex\<close>, \<open>Update\<close> and \<open>Final_ex\<close> in a row is one application of
  \<open>EVP_Encrypt\<close>, which gives the bytes that the two latter calls write. The mutex of a key is
  not modelled, since every operation holds it from its first to its last use of a context.

  \<open>ssl_key\<close> states what the code relies on of a keyed cipher; the coders then keep the
  contract \<open>block_codec\<close>.
\<close>

section \<open>OpenSSL\<close>

datatype evp_cipher =
    EVP_camellia_128_cbc | EVP_camellia_128_cfb | EVP_camellia_192_cbc | EVP_camellia_192_cfb
  | EVP_camellia_256_cbc | EVP_camellia_256_cfb | EVP_bf_cbc | EVP_bf_cfb
  | EVP_aes_128_cbc | EVP_aes_128_cfb | EVP_aes_192_cbc | EVP_aes_192_cfb
  | EVP_aes_256_cbc | EVP_aes_256_cfb

text \<open>
  \<open>EVP_Encrypt c key ivec data\<close>, \<open>HMAC key data\<close> (with SHA-1),
  \<open>PBKDF2 pass salt iterations length\<close> (\<open>None\<close> when it fails),
  \<open>EVP_BytesToKey_sha1 c data rounds\<close> (key and vector), \<open>RAND_bytes length\<close>.
\<close>

record 'r openssl =
  EVP_iv_length :: "evp_cipher \<Rightarrow> nat"
  EVP_block_size :: "evp_cipher \<Rightarrow> nat"
  EVP_Encrypt :: "evp_cipher \<Rightarrow> bytes \<Rightarrow> bytes \<Rightarrow> bytes \<Rightarrow> bytes"
  EVP_Decrypt :: "evp_cipher \<Rightarrow> bytes \<Rightarrow> bytes \<Rightarrow> bytes \<Rightarrow> bytes"
  EVP_sha1 :: "bytes \<Rightarrow> bytes"
  HMAC :: "bytes \<Rightarrow> bytes \<Rightarrow> bytes"
  PBKDF2 :: "bytes \<Rightarrow> bytes \<Rightarrow> int \<Rightarrow> nat \<Rightarrow> bytes option"
  EVP_BytesToKey_sha1 :: "evp_cipher \<Rightarrow> bytes \<Rightarrow> nat \<Rightarrow> bytes \<times> bytes"
  RAND_bytes :: "nat \<Rightarrow> 'r \<Rightarrow> bytes option \<times> 'r"

section \<open>Key derivation\<close>

definition MAX_KEYLENGTH :: nat where "MAX_KEYLENGTH = 32"
definition MAX_IVLENGTH :: nat where "MAX_IVLENGTH = 16"
definition KEY_CHECKSUM_BYTES :: nat where "KEY_CHECKSUM_BYTES = 4"

text \<open>
  The loop of \<open>BytesToKey\<close>: \<open>mdBuf\<close> is the last digest (empty before the first), \<open>nkey\<close> and
  \<open>niv\<close> the bytes still wanted, \<open>key\<close> and \<open>iv\<close> what was copied. A digest of no bytes would
  make the loop run forever, which is \<open>None\<close>.
\<close>

definition digest_rounds :: "(bytes \<Rightarrow> bytes) \<Rightarrow> nat \<Rightarrow> bytes \<Rightarrow> bytes" where
  "digest_rounds md rounds d = (md ^^ (rounds - 1)) (md d)"

function BytesToKey_loop ::
  "(bytes \<Rightarrow> bytes) \<Rightarrow> bytes \<Rightarrow> nat \<Rightarrow> bytes \<Rightarrow> nat \<Rightarrow> nat \<Rightarrow> bytes \<Rightarrow> bytes \<Rightarrow> (bytes \<times> bytes) option" where
  "BytesToKey_loop md d rounds mdBuf nkey niv key iv =
     (let mdBuf = digest_rounds md rounds (mdBuf @ d);
          toCopy = min nkey (length mdBuf);
          key = key @ take toCopy mdBuf;
          toCopyIv = min niv (length mdBuf - toCopy);
          iv = iv @ take toCopyIv (drop toCopy mdBuf)
      in if nkey - toCopy = 0 \<and> niv - toCopyIv = 0 then Some (key, iv)
         else if mdBuf = [] then None
         else BytesToKey_loop md d rounds mdBuf (nkey - toCopy) (niv - toCopyIv) key iv)"
  by pat_completeness auto
termination
  by (relation "measure (\<lambda>(md, d, rounds, mdBuf, nkey, niv, key, iv). nkey + niv)") (auto simp: min_def Let_def simp flip: length_greater_0_conv)

declare BytesToKey_loop.simps [simp del]

text \<open>The value, and the two buffers where they are filled.\<close>

definition BytesToKey ::
  "nat \<Rightarrow> nat \<Rightarrow> (bytes \<Rightarrow> bytes) \<Rightarrow> bytes \<Rightarrow> nat \<Rightarrow> (nat \<times> (bytes \<times> bytes) option) option" where
  "BytesToKey keyLen ivLen md d rounds =
     (if d = [] then Some (0, None)
      else case BytesToKey_loop md d rounds [] keyLen ivLen [] [] of
        None \<Rightarrow> None | Some ki \<Rightarrow> Some (keyLen, Some ki))"

text \<open>
  \<open>TimedPBKDF2\<close>. \<open>delta\<close> gives the measured time of a run with a number of iterations (the
  runs are numbered), \<open>estimate\<close> is the conversion
  \<^verbatim>\<open>(int)((double)iter * (double)desiredPDFTime / (double)delta)\<close>. The result has the number of
  iterations (-1 for a failure) and the derived bytes.
\<close>

definition int32 :: "int \<Rightarrow> int" where
  "int32 i = sint (word_of_int i :: u32)"

fun TimedPBKDF2_loop ::
  "'r openssl \<Rightarrow> (nat \<Rightarrow> int) \<Rightarrow> (int \<Rightarrow> int \<Rightarrow> int \<Rightarrow> int) \<Rightarrow> bytes \<Rightarrow> bytes \<Rightarrow> nat \<Rightarrow> int \<Rightarrow> nat \<Rightarrow> nat \<Rightarrow> int \<Rightarrow>
   (int \<times> bytes) option" where
  "TimedPBKDF2_loop lib delta estimate pass salt keylen desired 0 run iter = None"
| "TimedPBKDF2_loop lib delta estimate pass salt keylen desired (Suc fuel) run iter =
     (case PBKDF2 lib pass salt iter keylen of
        None \<Rightarrow> Some (-1, [])
      | Some out \<Rightarrow>
          if delta run < desired sdiv 8
          then TimedPBKDF2_loop lib delta estimate pass salt keylen desired fuel (Suc run) (int32 (iter * 4))
          else if delta run < 5 * desired sdiv 6
          then TimedPBKDF2_loop lib delta estimate pass salt keylen desired fuel (Suc run)
                 (estimate iter desired (delta run))
          else Some (iter, out))"

definition TimedPBKDF2 ::
  "'r openssl \<Rightarrow> (nat \<Rightarrow> int) \<Rightarrow> (int \<Rightarrow> int \<Rightarrow> int \<Rightarrow> int) \<Rightarrow> nat \<Rightarrow> bytes \<Rightarrow> bytes \<Rightarrow> nat \<Rightarrow> int \<Rightarrow> (int \<times> bytes) option" where
  "TimedPBKDF2 lib delta estimate fuel pass salt keylen desired =
     TimedPBKDF2_loop lib delta estimate pass salt keylen desired fuel 0 1000"

section \<open>Keys and the cipher object\<close>

text \<open>
  \<open>sk_ctx\<close>: the block and the stream cipher the contexts of the key were initialised with, and
  the key bytes they and the HMAC context were given. It is \<open>None\<close> until \<open>initKey\<close>, which every
  function that returns a key has called.
\<close>

record sslkey =
  sk_keySize :: nat
  sk_ivLength :: nat
  sk_buffer :: bytes
  sk_ctx :: "(evp_cipher \<times> evp_cipher \<times> bytes) option"

record ssl_cipher =
  ssl_iface :: interface
  ssl_realIface :: interface
  ssl_blockCipher :: evp_cipher
  ssl_streamCipher :: evp_cipher
  ssl_keySize :: nat
  ssl_ivLength :: nat

definition SSLKey_new :: "nat \<Rightarrow> nat \<Rightarrow> sslkey" where
  "SSLKey_new keySize ivLength =
     \<lparr>sk_keySize = keySize, sk_ivLength = ivLength, sk_buffer = replicate (keySize + ivLength) 0, sk_ctx = None\<rparr>"

definition KeyData :: "sslkey \<Rightarrow> bytes" where
  "KeyData key = take (sk_keySize key) (sk_buffer key)"

definition IVData :: "sslkey \<Rightarrow> bytes" where
  "IVData key = drop (sk_keySize key) (sk_buffer key)"

definition initKey :: "sslkey \<Rightarrow> evp_cipher \<Rightarrow> evp_cipher \<Rightarrow> nat \<Rightarrow> sslkey" where
  "initKey key blockCipher streamCipher keySize =
     key\<lparr>sk_ctx := Some (blockCipher, streamCipher, take keySize (sk_buffer key))\<rparr>"

definition SSL_Cipher_new ::
  "'r openssl \<Rightarrow> interface \<Rightarrow> interface \<Rightarrow> evp_cipher \<Rightarrow> evp_cipher \<Rightarrow> nat \<Rightarrow> exn + ssl_cipher" where
  "SSL_Cipher_new lib iface realIface blockCipher streamCipher keySize =
     (let ivLength = EVP_iv_length lib blockCipher in
      if \<not> (ivLength = 8 \<or> ivLength = 16) then Inl (Error ''_ivLength == 8 || _ivLength == 16'')
      else Inr \<lparr>ssl_iface = iface, ssl_realIface = realIface, ssl_blockCipher = blockCipher,
                ssl_streamCipher = streamCipher, ssl_keySize = keySize, ssl_ivLength = ivLength\<rparr>)"

text \<open>A fresh key of the cipher's sizes over derived bytes, ready for use.\<close>

definition key_of_bytes :: "ssl_cipher \<Rightarrow> bytes \<Rightarrow> sslkey" where
  "key_of_bytes cph out =
     initKey ((SSLKey_new (ssl_keySize cph) (ssl_ivLength cph))\<lparr>sk_buffer := out\<rparr>)
       (ssl_blockCipher cph) (ssl_streamCipher cph) (ssl_keySize cph)"

text \<open>The password-based key of a volume; the number of iterations is an in-out parameter.\<close>

definition newKey ::
  "'r openssl \<Rightarrow> (nat \<Rightarrow> int) \<Rightarrow> (int \<Rightarrow> int \<Rightarrow> int \<Rightarrow> int) \<Rightarrow> nat \<Rightarrow> ssl_cipher \<Rightarrow> bytes \<Rightarrow> int \<Rightarrow> int \<Rightarrow> bytes \<Rightarrow>
   (sslkey option \<times> int) option" where
  "newKey lib delta estimate fuel cph password iterationCount desiredDuration salt =
     (let n = ssl_keySize cph + ssl_ivLength cph in
      if iterationCount = 0 then
        (case TimedPBKDF2 lib delta estimate fuel password salt n (1000 * desiredDuration) of
           None \<Rightarrow> None
         | Some (res, out) \<Rightarrow>
             if res \<le> 0 then Some (None, iterationCount) else Some (Some (key_of_bytes cph out), res))
      else
        (case PBKDF2 lib password salt iterationCount n of
           None \<Rightarrow> Some (None, iterationCount)
         | Some out \<Rightarrow> Some (Some (key_of_bytes cph out), iterationCount)))"

text \<open>The older derivation; where \<open>BytesToKey\<close> gives up the key stays all zero.\<close>

definition newKey_old :: "'r openssl \<Rightarrow> ssl_cipher \<Rightarrow> bytes \<Rightarrow> sslkey option" where
  "newKey_old lib cph password =
     (if if_current (ssl_iface cph) > 1 then
        (case BytesToKey (ssl_keySize cph) (ssl_ivLength cph) (EVP_sha1 lib) password 16 of
           None \<Rightarrow> None
         | Some (n, None) \<Rightarrow> Some (key_of_bytes cph (sk_buffer (SSLKey_new (ssl_keySize cph) (ssl_ivLength cph))))
         | Some (n, Some (k, v)) \<Rightarrow> Some (key_of_bytes cph (k @ v)))
      else
        (case EVP_BytesToKey_sha1 lib (ssl_blockCipher cph) password 16 of
           (k, v) \<Rightarrow>
             Some (key_of_bytes cph
               (take (ssl_keySize cph + ssl_ivLength cph)
                 (overlay (ssl_keySize cph) v
                   (overlay 0 k (sk_buffer (SSLKey_new (ssl_keySize cph) (ssl_ivLength cph)))))))))"

definition SSL_randomize :: "'r openssl \<Rightarrow> nat \<Rightarrow> 'r \<Rightarrow> bytes option \<times> 'r" where
  "SSL_randomize lib len rng = RAND_bytes lib len rng"

definition newRandomKey :: "'r openssl \<Rightarrow> ssl_cipher \<Rightarrow> 'r \<Rightarrow> sslkey option \<times> 'r" where
  "newRandomKey lib cph rng =
     (case SSL_randomize lib MAX_KEYLENGTH rng of
        (None, rng) \<Rightarrow> (None, rng)
      | (Some tmpBuf, rng) \<Rightarrow>
          (case SSL_randomize lib 20 rng of
             (None, rng) \<Rightarrow> (None, rng)
           | (Some saltBuf, rng) \<Rightarrow>
               (case PBKDF2 lib tmpBuf saltBuf 1000 (ssl_keySize cph + ssl_ivLength cph) of
                  None \<Rightarrow> (None, rng)
                | Some out \<Rightarrow> (Some (key_of_bytes cph out), rng))))"

section \<open>The checksum\<close>

text \<open>A 64 bit number as bytes, least significant first, and from bytes, most significant first.\<close>

definition le64 :: "u64 \<Rightarrow> bytes" where
  "le64 x = map (\<lambda>i. ucast (drop_bit (8 * i) x AND 0xff)) [0..<8]"

definition be_value :: "bytes \<Rightarrow> u64" where
  "be_value h = foldl (\<lambda>v b. (push_bit 8 v) OR ucast b) 0 h"

text \<open>The last byte of the digest is left out of the folding, as in the code.\<close>

definition checksum_fold :: "bytes \<Rightarrow> bytes" where
  "checksum_fold md =
     foldl (\<lambda>h i. h[i mod 8 := h ! (i mod 8) XOR md ! i]) (replicate 8 0) [0..<length md - 1]"

definition ctx_key :: "sslkey \<Rightarrow> exn + bytes" where
  "ctx_key key = (case sk_ctx key of None \<Rightarrow> Inl (Fatal ''context not initialised'') | Some (b, st, k) \<Rightarrow> Inr k)"

definition checksum_64 :: "'r openssl \<Rightarrow> sslkey \<Rightarrow> bytes \<Rightarrow> u64 option \<Rightarrow> exn + u64" where
  "checksum_64 lib key d chainedIV =
     (if \<not> length d > 0 then Inl (Error ''dataLen > 0'')
      else case ctx_key key of Inl e \<Rightarrow> Inl e
      | Inr k \<Rightarrow>
          let md = HMAC lib k (d @ (case chainedIV of None \<Rightarrow> [] | Some iv \<Rightarrow> le64 iv)) in
          if \<not> length md \<ge> 8 then Inl (Error ''mdLen >= 8'') else Inr (be_value (checksum_fold md)))"

definition SSL_MAC_64 :: "'r openssl \<Rightarrow> bytes \<Rightarrow> sslkey \<Rightarrow> u64 option \<Rightarrow> exn + u64" where
  "SSL_MAC_64 lib d key chainedIV = checksum_64 lib key d chainedIV"

section \<open>Initialisation vectors\<close>

definition setIVec_old :: "ssl_cipher \<Rightarrow> u32 \<Rightarrow> sslkey \<Rightarrow> bytes" where
  "setIVec_old cph seed key =
     (let var1 = 0x060a4011 * seed;
          var2 = 0x0221040d * (seed XOR 0xD3FEA11C);
          b = (\<lambda>v n. ucast (drop_bit n v AND 0xff) :: byte);
          mask8 = [b var1 24, b var2 16, b var1 8, b var2 0, b var2 24, b var1 16, b var2 8, b var1 0];
          mask16 = (if ssl_ivLength cph > 8
                    then [b var1 0, b var2 8, b var1 16, b var2 24, b var1 24, b var2 16, b var1 8, b var2 0]
                    else [])
      in map2 (\<lambda>x y. x XOR y) (take (ssl_ivLength cph) (IVData key)) (mask8 @ mask16))"

definition setIVec :: "'r openssl \<Rightarrow> ssl_cipher \<Rightarrow> u64 \<Rightarrow> sslkey \<Rightarrow> exn + bytes" where
  "setIVec lib cph seed key =
     (if if_current (ssl_iface cph) \<ge> 3 then
        (case ctx_key key of Inl e \<Rightarrow> Inl e
         | Inr k \<Rightarrow>
             let md = HMAC lib k (take (ssl_ivLength cph) (IVData key) @ le64 seed) in
             if \<not> length md \<ge> ssl_ivLength cph then Inl (Error ''mdLen >= _ivLength'')
             else Inr (take (ssl_ivLength cph) md))
      else Inr (setIVec_old cph (ucast seed) key))"

section \<open>The coders\<close>

text \<open>\<open>flipBytes\<close> reverses every run of 64 bytes.\<close>

function flipBytes :: "bytes \<Rightarrow> bytes" where
  "flipBytes buf = (if buf = [] then [] else rev (take 64 buf) @ flipBytes (drop 64 buf))"
  by pat_completeness auto
termination by (relation "measure length") auto

declare flipBytes.simps [simp del]

definition shuffleBytes :: "bytes \<Rightarrow> bytes" where
  "shuffleBytes buf = foldl (\<lambda>b i. b[i + 1 := b ! (i + 1) XOR b ! i]) buf [0..<length buf - 1]"

definition unshuffleBytes :: "bytes \<Rightarrow> bytes" where
  "unshuffleBytes buf = foldl (\<lambda>b i. b[i := b ! i XOR b ! (i - 1)]) buf (rev [1..<length buf])"

text \<open>One pass in place: the buffer afterwards and the number of bytes that were written.\<close>

definition evp_pass :: "(bytes \<Rightarrow> bytes) \<Rightarrow> bytes \<Rightarrow> bytes \<times> nat" where
  "evp_pass f buf = (let out = f buf in (out @ drop (length out) buf, length out))"

definition check_key :: "ssl_cipher \<Rightarrow> sslkey \<Rightarrow> exn + (evp_cipher \<times> evp_cipher \<times> bytes)" where
  "check_key cph key =
     (if sk_keySize key \<noteq> ssl_keySize cph then Inl (Error ''key->keySize == _keySize'')
      else if sk_ivLength key \<noteq> ssl_ivLength cph then Inl (Error ''key->ivLength == _ivLength'')
      else case sk_ctx key of None \<Rightarrow> Inl (Fatal ''context not initialised'') | Some c \<Rightarrow> Inr c)"

text \<open>The two passes of the stream mode: the returned flag and the buffer afterwards.\<close>

definition stream_encode :: "'r openssl \<Rightarrow> ssl_cipher \<Rightarrow> sslkey \<Rightarrow> bytes \<Rightarrow> u64 \<Rightarrow> exn + bool \<times> bytes" where
  "stream_encode lib cph key buf iv64 =
     (if \<not> length buf > 0 then Inl (Error ''size > 0'')
      else case check_key cph key of Inl e \<Rightarrow> Inl e
      | Inr (blockC, streamC, k) \<Rightarrow>
        (case setIVec lib cph iv64 key of Inl e \<Rightarrow> Inl e
         | Inr ivec \<Rightarrow>
           let buf1 = fst (evp_pass (EVP_Encrypt lib streamC k ivec) (shuffleBytes buf)) in
           (case setIVec lib cph (iv64 + 1) key of Inl e \<Rightarrow> Inl e
            | Inr ivec \<Rightarrow>
              (case evp_pass (EVP_Encrypt lib streamC k ivec) (shuffleBytes (flipBytes buf1)) of
                 (buf2, dstLen) \<Rightarrow> Inr (dstLen = length buf, buf2)))))"

definition stream_decode :: "'r openssl \<Rightarrow> ssl_cipher \<Rightarrow> sslkey \<Rightarrow> bytes \<Rightarrow> u64 \<Rightarrow> exn + bool \<times> bytes" where
  "stream_decode lib cph key buf iv64 =
     (if \<not> length buf > 0 then Inl (Error ''size > 0'')
      else case check_key cph key of Inl e \<Rightarrow> Inl e
      | Inr (blockC, streamC, k) \<Rightarrow>
        (case setIVec lib cph (iv64 + 1) key of Inl e \<Rightarrow> Inl e
         | Inr ivec \<Rightarrow>
           let buf1 = fst (evp_pass (EVP_Decrypt lib streamC k ivec) buf) in
           (case setIVec lib cph iv64 key of Inl e \<Rightarrow> Inl e
            | Inr ivec \<Rightarrow>
              (case evp_pass (EVP_Decrypt lib streamC k ivec) (flipBytes (unshuffleBytes buf1)) of
                 (buf2, dstLen) \<Rightarrow> Inr (dstLen = length buf, unshuffleBytes buf2)))))"

definition as_coder :: "(bytes \<Rightarrow> u64 \<Rightarrow> exn + bool \<times> bytes) \<Rightarrow> coder" where
  "as_coder f buf iv64 =
     (case f buf iv64 of Inl e \<Rightarrow> Inl e | Inr (ok, out) \<Rightarrow> Inr (if ok then Some out else None))"

definition SSL_streamEncode :: "'r openssl \<Rightarrow> ssl_cipher \<Rightarrow> sslkey \<Rightarrow> coder" where
  "SSL_streamEncode lib cph key = as_coder (stream_encode lib cph key)"

definition SSL_streamDecode :: "'r openssl \<Rightarrow> ssl_cipher \<Rightarrow> sslkey \<Rightarrow> coder" where
  "SSL_streamDecode lib cph key = as_coder (stream_decode lib cph key)"

definition SSL_blockEncode :: "'r openssl \<Rightarrow> ssl_cipher \<Rightarrow> sslkey \<Rightarrow> coder" where
  "SSL_blockEncode lib cph key buf iv64 =
     (if \<not> length buf > 0 then Inl (Error ''size > 0'')
      else case check_key cph key of Inl e \<Rightarrow> Inl e
      | Inr (blockC, streamC, k) \<Rightarrow>
        if length buf mod EVP_block_size lib blockC \<noteq> 0 then Inr None
        else (case setIVec lib cph iv64 key of Inl e \<Rightarrow> Inl e
              | Inr ivec \<Rightarrow>
                (case evp_pass (EVP_Encrypt lib blockC k ivec) buf of
                   (out, dstLen) \<Rightarrow> Inr (if dstLen \<noteq> length buf then None else Some out))))"

definition SSL_blockDecode :: "'r openssl \<Rightarrow> ssl_cipher \<Rightarrow> sslkey \<Rightarrow> coder" where
  "SSL_blockDecode lib cph key buf iv64 =
     (if \<not> length buf > 0 then Inl (Error ''size > 0'')
      else case check_key cph key of Inl e \<Rightarrow> Inl e
      | Inr (blockC, streamC, k) \<Rightarrow>
        if length buf mod EVP_block_size lib blockC \<noteq> 0 then Inr None
        else (case setIVec lib cph iv64 key of Inl e \<Rightarrow> Inl e
              | Inr ivec \<Rightarrow>
                (case evp_pass (EVP_Decrypt lib blockC k ivec) buf of
                   (out, dstLen) \<Rightarrow> Inr (if dstLen \<noteq> length buf then None else Some out))))"

text \<open>
  The four checksum bytes of a wrapped key, most significant first. \<open>readKey\<close> and \<open>writeKey\<close>
  take the buffer that the stream coder leaves, whatever flag it returned.
\<close>

definition be32 :: "bytes \<Rightarrow> u32" where
  "be32 bs = foldl (\<lambda>v b. (push_bit 8 v) OR ucast b) 0 bs"

definition be32_bytes :: "u32 \<Rightarrow> bytes" where
  "be32_bytes c = map (\<lambda>i. ucast (drop_bit (8 * (KEY_CHECKSUM_BYTES - 1 - i)) c AND 0xff)) [0..<KEY_CHECKSUM_BYTES]"

definition mac_32 :: "'r openssl \<Rightarrow> bytes \<Rightarrow> sslkey \<Rightarrow> exn + u32" where
  "mac_32 lib d key =
     (case SSL_MAC_64 lib d key None of Inl e \<Rightarrow> Inl e | Inr mac64 \<Rightarrow> Inr (fold_32 mac64))"

definition readKey :: "'r openssl \<Rightarrow> ssl_cipher \<Rightarrow> bytes \<Rightarrow> sslkey \<Rightarrow> bool \<Rightarrow> exn + sslkey option" where
  "readKey lib cph d masterKey checkKey =
     (if sk_keySize masterKey \<noteq> ssl_keySize cph then Inl (Error ''mk->keySize == _keySize'')
      else
        let n = ssl_keySize cph + ssl_ivLength cph;
            checksum = be32 (take KEY_CHECKSUM_BYTES d);
            tmpBuf = take n (drop KEY_CHECKSUM_BYTES d)
        in case stream_decode lib cph masterKey tmpBuf (ucast checksum) of Inl e \<Rightarrow> Inl e
           | Inr (_, tmpBuf) \<Rightarrow>
             (case mac_32 lib tmpBuf masterKey of Inl e \<Rightarrow> Inl e
              | Inr checksum2 \<Rightarrow>
                  if checksum2 \<noteq> checksum \<and> checkKey then Inr None
                  else Inr (Some (key_of_bytes cph tmpBuf))))"

definition writeKey :: "'r openssl \<Rightarrow> ssl_cipher \<Rightarrow> sslkey \<Rightarrow> sslkey \<Rightarrow> exn + bytes" where
  "writeKey lib cph key masterKey =
     (if sk_keySize key \<noteq> ssl_keySize cph then Inl (Error ''key->keySize == _keySize'')
      else if sk_ivLength key \<noteq> ssl_ivLength cph then Inl (Error ''key->ivLength == _ivLength'')
      else if sk_keySize masterKey \<noteq> ssl_keySize cph then Inl (Error ''mk->keySize == _keySize'')
      else if sk_ivLength masterKey \<noteq> ssl_ivLength cph then Inl (Error ''mk->ivLength == _ivLength'')
      else
        let tmpBuf = take (ssl_keySize cph + ssl_ivLength cph) (sk_buffer key) in
        (case mac_32 lib tmpBuf masterKey of Inl e \<Rightarrow> Inl e
         | Inr checksum \<Rightarrow>
             (case stream_encode lib cph masterKey tmpBuf (ucast checksum) of Inl e \<Rightarrow> Inl e
              | Inr (_, tmpBuf) \<Rightarrow> Inr (be32_bytes checksum @ tmpBuf))))"

definition compareKey :: "ssl_cipher \<Rightarrow> sslkey \<Rightarrow> sslkey \<Rightarrow> exn + bool" where
  "compareKey cph key1 key2 =
     (if sk_keySize key1 \<noteq> ssl_keySize cph then Inl (Error ''key1->keySize == _keySize'')
      else if sk_keySize key2 \<noteq> ssl_keySize cph then Inl (Error ''key2->keySize == _keySize'')
      else let n = ssl_keySize cph + ssl_ivLength cph in
        Inr (take n (sk_buffer key1) = take n (sk_buffer key2)))"

definition encodedKeySize :: "ssl_cipher \<Rightarrow> nat" where
  "encodedKeySize cph = ssl_keySize cph + ssl_ivLength cph + KEY_CHECKSUM_BYTES"

text \<open>The object behind the interface.\<close>

definition left_of :: "bytes \<Rightarrow> exn + bool \<times> bytes \<Rightarrow> bytes" where
  "left_of buf r = (case r of Inl _ \<Rightarrow> buf | Inr (_, out) \<Rightarrow> out)"

definition ssl_as_cipher :: "'r openssl \<Rightarrow> ssl_cipher \<Rightarrow> (sslkey, 'r) cipher" where
  "ssl_as_cipher lib cph =
     \<lparr>c_interface = ssl_realIface cph, c_keySize = ssl_keySize cph, c_encodedKeySize = encodedKeySize cph,
      c_cipherBlockSize = EVP_block_size lib (ssl_blockCipher cph),
      c_randomize = SSL_randomize lib, c_MAC_64 = SSL_MAC_64 lib, c_MAC_chains = True,
      c_readKey = readKey lib cph, c_writeKey = writeKey lib cph,
      c_streamEncode = SSL_streamEncode lib cph, c_streamDecode = SSL_streamDecode lib cph,
      c_blockEncode = SSL_blockEncode lib cph, c_blockDecode = SSL_blockDecode lib cph,
      c_encodeLeft = (\<lambda>key buf iv64. left_of buf (stream_encode lib cph key buf iv64)),
      c_decodeLeft = (\<lambda>key buf iv64. left_of buf (stream_decode lib cph key buf iv64))\<rparr>"

lemma ssl_as_cipher_simps [simp]:
  "c_cipherBlockSize (ssl_as_cipher lib cph) = EVP_block_size lib (ssl_blockCipher cph)"
  "c_randomize (ssl_as_cipher lib cph) = RAND_bytes lib"
  "c_MAC_64 (ssl_as_cipher lib cph) = SSL_MAC_64 lib"
  "c_streamEncode (ssl_as_cipher lib cph) = SSL_streamEncode lib cph"
  "c_streamDecode (ssl_as_cipher lib cph) = SSL_streamDecode lib cph"
  "c_blockEncode (ssl_as_cipher lib cph) = SSL_blockEncode lib cph"
  "c_blockDecode (ssl_as_cipher lib cph) = SSL_blockDecode lib cph"
  by (simp_all add: ssl_as_cipher_def SSL_randomize_def fun_eq_iff)

section \<open>The algorithms\<close>

definition BlowfishInterface :: interface where "BlowfishInterface = Interface (str ''ssl/blowfish'') 3 0 2"
definition AESInterface :: interface where "AESInterface = Interface (str ''ssl/aes'') 3 0 2"
definition CAMELLIAInterface :: interface where "CAMELLIAInterface = Interface (str ''ssl/camellia'') 3 0 2"
definition CAMELLIAKeyRange :: range where "CAMELLIAKeyRange = Range 128 256 64"
definition CAMELLIABlockRange :: range where "CAMELLIABlockRange = Range 64 4096 16"
definition BFKeyRange :: range where "BFKeyRange = Range 128 256 32"
definition BFBlockRange :: range where "BFBlockRange = Range 64 4096 8"
definition AESKeyRange :: range where "AESKeyRange = Range 128 256 64"
definition AESBlockRange :: range where "AESBlockRange = Range 64 4096 16"

text \<open>A constructor that never returns from \<open>closest\<close> is \<open>Diverged\<close>.\<close>

definition NewCAMELLIACipher :: "'r openssl \<Rightarrow> interface \<Rightarrow> int \<Rightarrow> exn + ssl_cipher" where
  "NewCAMELLIACipher lib iface keyLen =
     (let keyLen = (if keyLen \<le> 0 then 192 else keyLen) in
      case closest CAMELLIAKeyRange keyLen of None \<Rightarrow> Inl Diverged
      | Some keyLen \<Rightarrow>
          let (blockCipher, streamCipher) =
            (if keyLen = 128 then (EVP_camellia_128_cbc, EVP_camellia_128_cfb)
             else if keyLen = 192 then (EVP_camellia_192_cbc, EVP_camellia_192_cfb)
             else (EVP_camellia_256_cbc, EVP_camellia_256_cfb))
          in SSL_Cipher_new lib iface CAMELLIAInterface blockCipher streamCipher (nat (keyLen div 8)))"

definition NewBFCipher :: "'r openssl \<Rightarrow> interface \<Rightarrow> int \<Rightarrow> exn + ssl_cipher" where
  "NewBFCipher lib iface keyLen =
     (let keyLen = (if keyLen \<le> 0 then 160 else keyLen) in
      case closest BFKeyRange keyLen of None \<Rightarrow> Inl Diverged
      | Some keyLen \<Rightarrow> SSL_Cipher_new lib iface BlowfishInterface EVP_bf_cbc EVP_bf_cfb (nat (keyLen div 8)))"

definition NewAESCipher :: "'r openssl \<Rightarrow> interface \<Rightarrow> int \<Rightarrow> exn + ssl_cipher" where
  "NewAESCipher lib iface keyLen =
     (let keyLen = (if keyLen \<le> 0 then 192 else keyLen) in
      case closest AESKeyRange keyLen of None \<Rightarrow> Inl Diverged
      | Some keyLen \<Rightarrow>
          let (blockCipher, streamCipher) =
            (if keyLen = 128 then (EVP_aes_128_cbc, EVP_aes_128_cfb)
             else if keyLen = 192 then (EVP_aes_192_cbc, EVP_aes_192_cfb)
             else (EVP_aes_256_cbc, EVP_aes_256_cfb))
          in SSL_Cipher_new lib iface AESInterface blockCipher streamCipher (nat (keyLen div 8)))"

definition ssl_registrations :: "'r openssl \<Rightarrow> (exn + ssl_cipher) cipher_map \<Rightarrow> (exn + ssl_cipher) cipher_map" where
  "ssl_registrations lib m =
     Cipher_Register (str ''AES'') (str ''16 byte block cipher'') AESInterface AESKeyRange AESBlockRange (NewAESCipher lib) False
    (Cipher_Register (str ''Blowfish'') (str ''8 byte block cipher'') BlowfishInterface BFKeyRange BFBlockRange (NewBFCipher lib) False
    (Cipher_Register (str ''CAMELLIA'') (str ''16 byte block cipher'') CAMELLIAInterface CAMELLIAKeyRange CAMELLIABlockRange
       (NewCAMELLIACipher lib) False m))"

section \<open>Shuffling and flipping\<close>

lemma flipBytes_Nil [simp]: "flipBytes [] = []"
  by (simp add: flipBytes.simps)

lemma length_flipBytes [simp]: "length (flipBytes buf) = length buf"
  by (induction buf rule: flipBytes.induct) (subst flipBytes.simps, auto simp: min_def)

lemma flipBytes_append:
  "length a = 64 \<Longrightarrow> flipBytes (a @ b) = rev a @ flipBytes b"
  by (subst flipBytes.simps) auto

lemma flipBytes_short: "length a \<le> 64 \<Longrightarrow> flipBytes a = rev a"
  by (subst flipBytes.simps) auto

lemma flipBytes_flipBytes [simp]: "flipBytes (flipBytes buf) = buf"
proof (induction buf rule: flipBytes.induct)
  case (1 buf)
  show ?case
  proof (cases "length buf \<le> 64")
    case True
    then show ?thesis by (simp add: flipBytes_short)
  next
    case False
    then have "flipBytes buf = rev (take 64 buf) @ flipBytes (drop 64 buf)"
      using flipBytes_append [of "take 64 buf" "drop 64 buf"] by simp
    then have "flipBytes (flipBytes buf) = take 64 buf @ flipBytes (flipBytes (drop 64 buf))"
      using False by (simp add: flipBytes_append)
    moreover have "buf \<noteq> []" using False by auto
    ultimately show ?thesis using 1 by simp
  qed
qed

text \<open>
  The two shuffles by position: \<open>prefix_xor\<close> carries the running exclusive or, \<open>diff_xor\<close>
  the last byte.
\<close>

fun prefix_xor :: "byte \<Rightarrow> bytes \<Rightarrow> bytes" where
  "prefix_xor a [] = []"
| "prefix_xor a (x # xs) = (x XOR a) # prefix_xor (x XOR a) xs"

fun diff_xor :: "byte \<Rightarrow> bytes \<Rightarrow> bytes" where
  "diff_xor a [] = []"
| "diff_xor a (x # xs) = (x XOR a) # diff_xor x xs"

lemma diff_prefix_xor [simp]: "diff_xor a (prefix_xor a xs) = xs"
  by (induction xs arbitrary: a) (auto simp: xor.assoc)

lemma length_prefix_xor [simp]: "length (prefix_xor a xs) = length xs"
  by (induction xs arbitrary: a) auto

lemma length_diff_xor [simp]: "length (diff_xor a xs) = length xs"
  by (induction xs arbitrary: a) auto

lemma shuffle_steps:
  "foldl (\<lambda>b i. b[i + 1 := b ! (i + 1) XOR b ! i]) (ys @ a # xs) [length ys..<length ys + length xs]
     = ys @ a # prefix_xor a xs"
proof (induction xs arbitrary: ys a)
  case (Cons x xs)
  have "foldl (\<lambda>b i. b[i + 1 := b ! (i + 1) XOR b ! i]) (ys @ a # x # xs) [length ys..<length ys + length (x # xs)]
      = foldl (\<lambda>b i. b[i + 1 := b ! (i + 1) XOR b ! i]) ((ys @ [a]) @ (x XOR a) # xs)
          [length (ys @ [a])..<length (ys @ [a]) + length xs]"
  proof -
    have "[length ys..<length ys + length (x # xs)] = length ys # [length (ys @ [a])..<length (ys @ [a]) + length xs]"
      by (subst upt_conv_Cons) simp_all
    then show ?thesis by (simp add: nth_append list_update_append del: upt_Suc)
  qed
  then show ?case using Cons.IH [of "ys @ [a]" "x XOR a"] by simp
qed simp

lemma shuffleBytes_eq: "shuffleBytes buf = prefix_xor 0 buf"
proof (cases buf)
  case (Cons a xs)
  then show ?thesis using shuffle_steps [of "[]" a xs] by (simp add: shuffleBytes_def)
qed (simp add: shuffleBytes_def)

lemma diff_xor_snoc:
  "diff_xor a (xs @ [y, z]) = diff_xor a (xs @ [y]) @ [z XOR y]"
  by (induction xs arbitrary: a) auto

lemma unshuffle_steps:
  "foldl (\<lambda>b i. b[i := b ! i XOR b ! (i - 1)]) (a # xs @ ys) (rev [1..<Suc (length xs)])
     = a # diff_xor a xs @ ys"
proof (induction xs arbitrary: ys rule: rev_induct)
  case (snoc x xs)
  have "foldl (\<lambda>b i. b[i := b ! i XOR b ! (i - 1)]) (a # (xs @ [x]) @ ys) (rev [1..<Suc (length (xs @ [x]))])
      = foldl (\<lambda>b i. b[i := b ! i XOR b ! (i - 1)]) (a # xs @ (x XOR last (a # xs)) # ys) (rev [1..<Suc (length xs)])"
  proof -
    have "rev [1..<Suc (length (xs @ [x]))] = Suc (length xs) # rev [1..<Suc (length xs)]" by simp
    moreover have "(a # (xs @ [x]) @ ys) ! length xs = last (a # xs)"
      using nth_append [of "a # xs" "x # ys" "length xs"] by (simp add: last_conv_nth)
    ultimately show ?thesis by (simp add: nth_append list_update_append del: upt_Suc)
  qed
  also have "\<dots> = a # diff_xor a xs @ (x XOR last (a # xs)) # ys" by (rule snoc.IH)
  also have "diff_xor a xs @ [x XOR last (a # xs)] = diff_xor a (xs @ [x])"
    by (cases xs rule: rev_cases) (simp_all add: diff_xor_snoc)
  then have "a # diff_xor a xs @ (x XOR last (a # xs)) # ys = a # diff_xor a (xs @ [x]) @ ys" by simp
  finally show ?case .
qed simp

lemma unshuffleBytes_eq: "unshuffleBytes buf = diff_xor 0 buf"
proof (cases buf)
  case (Cons a xs)
  then show ?thesis using unshuffle_steps [of a xs "[]"] by (simp add: unshuffleBytes_def)
qed (simp add: unshuffleBytes_def)

lemma unshuffle_shuffle [simp]: "unshuffleBytes (shuffleBytes buf) = buf"
  by (simp add: shuffleBytes_eq unshuffleBytes_eq)

lemma length_shuffle [simp]: "length (shuffleBytes buf) = length buf" "length (unshuffleBytes buf) = length buf"
  by (simp_all add: shuffleBytes_eq unshuffleBytes_eq)

section \<open>What is relied on of OpenSSL\<close>

text \<open>
  Decrypting inverts encrypting and keeps the length for whole cipher blocks; the CFB modes
  have blocks of one byte; the vectors of the two modes of a cipher have one length, 8 or 16;
  digests and derived bytes have their documented lengths.
\<close>

fun stream_mode :: "evp_cipher \<Rightarrow> evp_cipher" where
  "stream_mode EVP_camellia_128_cbc = EVP_camellia_128_cfb"
| "stream_mode EVP_camellia_192_cbc = EVP_camellia_192_cfb"
| "stream_mode EVP_camellia_256_cbc = EVP_camellia_256_cfb"
| "stream_mode EVP_bf_cbc = EVP_bf_cfb"
| "stream_mode EVP_aes_128_cbc = EVP_aes_128_cfb"
| "stream_mode EVP_aes_192_cbc = EVP_aes_192_cfb"
| "stream_mode EVP_aes_256_cbc = EVP_aes_256_cfb"
| "stream_mode c = c"

locale openssl_laws =
  fixes lib :: "'r openssl"
  assumes evp_inverts: "length ivec = EVP_iv_length lib c \<Longrightarrow> length d mod EVP_block_size lib c = 0 \<Longrightarrow>
      EVP_Decrypt lib c k ivec (EVP_Encrypt lib c k ivec d) = d \<and> length (EVP_Encrypt lib c k ivec d) = length d"
    and decrypt_length: "length ivec = EVP_iv_length lib c \<Longrightarrow> length d mod EVP_block_size lib c = 0 \<Longrightarrow>
      length (EVP_Decrypt lib c k ivec d) = length d"
    and cfb_block: "EVP_block_size lib (stream_mode c) = 1"
    and block_size: "EVP_block_size lib c \<in> {1, 8, 16}"
    and cfb_iv: "EVP_iv_length lib (stream_mode c) = EVP_iv_length lib c"
    and iv_length: "EVP_iv_length lib c \<in> {8, 16}"
    and sha1_length: "length (EVP_sha1 lib x) = 20"
    and hmac_length: "length (HMAC lib k x) = 20"
    and pbkdf2_length: "PBKDF2 lib pass salt it n = Some out \<Longrightarrow> length out = n"
    and rand_length: "RAND_bytes lib n rng = (Some buf, rng') \<Longrightarrow> length buf = n"

text \<open>The cipher objects and keys that the constructors make.\<close>

definition cipher_ok :: "'r openssl \<Rightarrow> ssl_cipher \<Rightarrow> bool" where
  "cipher_ok lib cph = (ssl_streamCipher cph = stream_mode (ssl_blockCipher cph) \<and>
     ssl_ivLength cph = EVP_iv_length lib (ssl_blockCipher cph))"

definition key_ok :: "ssl_cipher \<Rightarrow> sslkey \<Rightarrow> bool" where
  "key_ok cph key = (sk_keySize key = ssl_keySize cph \<and> sk_ivLength key = ssl_ivLength cph \<and>
     length (sk_buffer key) = ssl_keySize cph + ssl_ivLength cph \<and>
     sk_ctx key = Some (ssl_blockCipher cph, ssl_streamCipher cph, KeyData key))"

lemma key_of_bytes_ok:
  "length out = ssl_keySize cph + ssl_ivLength cph \<Longrightarrow> key_ok cph (key_of_bytes cph out)"
  by (simp add: key_ok_def key_of_bytes_def initKey_def SSLKey_new_def KeyData_def)

lemma key_of_buffer:
  assumes "key_ok cph key"
  shows "key_of_bytes cph (sk_buffer key) = key"
  using assms by (cases key) (auto simp: key_ok_def key_of_bytes_def initKey_def SSLKey_new_def KeyData_def)

lemma length_le64 [simp]: "length (le64 x) = 8"
  by (simp add: le64_def)

locale ssl_keyed = openssl_laws lib for lib :: "'r openssl" +
  fixes cph :: ssl_cipher and key :: sslkey
  assumes cipher_ok: "cipher_ok lib cph" and key_ok: "key_ok cph key"
begin

definition ivec :: "u64 \<Rightarrow> bytes" where
  "ivec seed = (if if_current (ssl_iface cph) \<ge> 3
     then take (ssl_ivLength cph) (HMAC lib (KeyData key) (take (ssl_ivLength cph) (IVData key) @ le64 seed))
     else setIVec_old cph (ucast seed) key)"

lemma ivLength: "ssl_ivLength cph = 8 \<or> ssl_ivLength cph = 16"
  using cipher_ok iv_length [of "ssl_blockCipher cph"] by (auto simp: cipher_ok_def)

lemma length_ivec [simp]: "length (ivec seed) = ssl_ivLength cph"
  using ivLength key_ok hmac_length
  by (auto simp: ivec_def setIVec_old_def Let_def key_ok_def IVData_def)

lemma setIVec_ok: "setIVec lib cph seed key = Inr (ivec seed)"
  using ivLength key_ok hmac_length
  by (auto simp: setIVec_def ivec_def ctx_key_def key_ok_def Let_def)

lemma check_key_ok: "check_key cph key = Inr (ssl_blockCipher cph, ssl_streamCipher cph, KeyData key)"
  using key_ok by (simp add: check_key_def key_ok_def)

abbreviation enc :: "u64 \<Rightarrow> bytes \<Rightarrow> bytes" where
  "enc seed \<equiv> EVP_Encrypt lib (ssl_streamCipher cph) (KeyData key) (ivec seed)"

abbreviation dec :: "u64 \<Rightarrow> bytes \<Rightarrow> bytes" where
  "dec seed \<equiv> EVP_Decrypt lib (ssl_streamCipher cph) (KeyData key) (ivec seed)"

abbreviation benc :: "u64 \<Rightarrow> bytes \<Rightarrow> bytes" where
  "benc seed \<equiv> EVP_Encrypt lib (ssl_blockCipher cph) (KeyData key) (ivec seed)"

lemma stream_law: "dec seed (enc seed d) = d" "length (enc seed d) = length d"
  using evp_inverts [of "ivec seed" "ssl_streamCipher cph" d "KeyData key"] cipher_ok
  by (auto simp: cipher_ok_def cfb_block cfb_iv)

lemma block_law:
  assumes "length d mod EVP_block_size lib (ssl_blockCipher cph) = 0"
  shows "EVP_Decrypt lib (ssl_blockCipher cph) (KeyData key) (ivec seed) (benc seed d) = d" "length (benc seed d) = length d"
  using evp_inverts [of "ivec seed" "ssl_blockCipher cph" d "KeyData key"] cipher_ok assms
  by (auto simp: cipher_ok_def)

lemma evp_pass_full: "length (f d) = length d \<Longrightarrow> evp_pass f d = (f d, length d)"
  by (simp add: evp_pass_def)

definition stream_image :: "bytes \<Rightarrow> u64 \<Rightarrow> bytes" where
  "stream_image p v = enc (v + 1) (shuffleBytes (flipBytes (enc v (shuffleBytes p))))"

lemma stream_encode_ok: "p \<noteq> [] \<Longrightarrow> stream_encode lib cph key p v = Inr (True, stream_image p v)"
  by (simp add: stream_encode_def check_key_ok setIVec_ok evp_pass_full stream_law stream_image_def)

lemma stream_decode_ok:
  assumes "p \<noteq> []"
  shows "stream_decode lib cph key (stream_image p v) v = Inr (True, p)"
proof -
  have len: "length (stream_image p v) = length p" by (simp add: stream_image_def stream_law)
  have one: "evp_pass (dec (v + 1)) (stream_image p v) = (shuffleBytes (flipBytes (enc v (shuffleBytes p))), length p)"
    by (simp add: evp_pass_def stream_image_def stream_law)
  have two: "evp_pass (dec v) (enc v (shuffleBytes p)) = (shuffleBytes p, length p)"
    by (simp add: evp_pass_def stream_law)
  show ?thesis
    using assms len one two by (simp add: stream_decode_def check_key_ok setIVec_ok)
qed

lemma stream_decode_total:
  assumes "q \<noteq> []"
  shows "\<exists>p. stream_decode lib cph key q v = Inr (True, p) \<and> length p = length q"
proof -
  have "length (dec seed d) = length d" for seed d
    using decrypt_length [of "ivec seed" "ssl_streamCipher cph" d "KeyData key"] cipher_ok
    by (auto simp: cipher_ok_def cfb_block cfb_iv)
  then show ?thesis using assms by (simp add: stream_decode_def check_key_ok setIVec_ok evp_pass_full)
qed

lemma mac_total:
  assumes "p \<noteq> []"
  shows "\<exists>mac. SSL_MAC_64 lib p key iv = Inr mac"
  using assms key_ok hmac_length by (auto simp: SSL_MAC_64_def checksum_64_def ctx_key_def key_ok_def Let_def)

lemma stream_coder: "p \<noteq> [] \<Longrightarrow> inverts (SSL_streamDecode lib cph key) (SSL_streamEncode lib cph key) p"
  by (simp add: inverts_def SSL_streamDecode_def SSL_streamEncode_def as_coder_def stream_encode_ok stream_decode_ok)
    (simp add: stream_image_def stream_law)

lemma block_coder:
  assumes "p \<noteq> []" "length p mod EVP_block_size lib (ssl_blockCipher cph) = 0"
  shows "inverts (SSL_blockDecode lib cph key) (SSL_blockEncode lib cph key) p"
proof -
  note law = block_law [OF assms(2)]
  have "benc v p \<noteq> []" for v using law(2) [of v] assms(1) by auto
  then show ?thesis using assms
    by (auto simp: inverts_def SSL_blockDecode_def SSL_blockEncode_def check_key_ok setIVec_ok evp_pass_def law)
qed

end

text \<open>With whole file blocks a multiple of the cipher's block the coders are a codec.\<close>

locale ssl_blocks = ssl_keyed lib cph key for lib :: "'r openssl" and cph key +
  fixes bs :: nat
  assumes bs_pos: "0 < bs" and bs_blocks: "bs mod EVP_block_size lib (ssl_blockCipher cph) = 0"

sublocale ssl_blocks \<subseteq> codec: block_codec "SSL_streamEncode lib cph key" "SSL_streamDecode lib cph key"
  "SSL_blockEncode lib cph key" "SSL_blockDecode lib cph key" bs
proof
  show "inverts (SSL_streamDecode lib cph key) (SSL_streamEncode lib cph key) p" if "p \<noteq> []" for p
    using that by (rule stream_coder)
  show "inverts (SSL_blockDecode lib cph key) (SSL_blockEncode lib cph key) p" if "length p = bs" for p
    using that bs_pos bs_blocks by (intro block_coder) auto
qed

section \<open>Lemmas\<close>

lemma be32_be32_bytes: "be32 (be32_bytes c) = c"
proof (rule bit_word_eqI)
  fix n :: nat
  assume "n < LENGTH(32)"
  then have n: "n < 32" by simp
  have be: "be32 (be32_bytes c) = push_bit 8 (push_bit 8 (push_bit 8 (ucast (ucast (drop_bit 24 c) :: byte))
      OR ucast (ucast (drop_bit 16 c) :: byte)) OR ucast (ucast (drop_bit 8 c) :: byte)) OR ucast (ucast c :: byte)"
    by (simp add: be32_def be32_bytes_def KEY_CHECKSUM_BYTES_def upt_rec low_byte)
  consider "n < 8" | "8 \<le> n" "n < 16" | "16 \<le> n" "n < 24" | "24 \<le> n" using n by linarith
  then show "bit (be32 (be32_bytes c)) n = bit c n"
    using n by cases (auto simp: be bit_simps)
qed

lemma length_be32_bytes [simp]: "length (be32_bytes c) = KEY_CHECKSUM_BYTES"
  by (simp add: be32_bytes_def)

text \<open>The digests that \<open>BytesToKey\<close> computes, one after the other.\<close>

fun digest_blocks :: "(bytes \<Rightarrow> bytes) \<Rightarrow> bytes \<Rightarrow> nat \<Rightarrow> bytes \<Rightarrow> nat \<Rightarrow> bytes" where
  "digest_blocks md d rounds mdBuf 0 = []"
| "digest_blocks md d rounds mdBuf (Suc n) =
     digest_rounds md rounds (mdBuf @ d) @ digest_blocks md d rounds (digest_rounds md rounds (mdBuf @ d)) n"

lemma length_digest_rounds:
  assumes "\<And>x. length (md x) = L"
  shows "length (digest_rounds md rounds x) = L"
  using assms by (cases "rounds - 1") (auto simp: digest_rounds_def)

lemma BytesToKey_loop_stream:
  assumes L: "\<And>x. length (md x) = L" "0 < L" and "nkey + niv \<le> n * L"
  shows "BytesToKey_loop md d rounds mdBuf nkey niv key iv =
    Some (key @ take nkey (digest_blocks md d rounds mdBuf n),
          iv @ take niv (drop nkey (digest_blocks md d rounds mdBuf n)))"
  using assms(3)
proof (induction n arbitrary: mdBuf nkey niv key iv)
  case 0
  then show ?case by (subst BytesToKey_loop.simps) (simp add: Let_def)
next
  case (Suc n)
  define b where "b = digest_rounds md rounds (mdBuf @ d)"
  have len: "length b = L" by (simp add: b_def length_digest_rounds [OF L(1)])
  note step = BytesToKey_loop.simps [of md d rounds mdBuf nkey niv key iv, folded b_def, unfolded Let_def len]
  show ?case
  proof (cases "nkey + niv \<le> L")
    case True
    then show ?thesis using len by (subst step) (simp add: b_def [symmetric] min_def)
  next
    case False
    have "b \<noteq> []" using len L(2) by auto
    moreover have "nkey - min nkey L + (niv - min niv (L - min nkey L)) \<le> n * L" using Suc.prems False by auto
    ultimately show ?thesis
      using False len Suc.IH [of "nkey - min nkey L" "niv - min niv (L - min nkey L)" b]
      by (subst step) (auto simp: b_def [symmetric] min_def not_le)
  qed
qed

lemma TimedPBKDF2_loop_derives:
  "TimedPBKDF2_loop lib delta estimate pass salt keylen desired fuel run iter = Some (res, out) \<Longrightarrow>
     res = -1 \<or> PBKDF2 lib pass salt res keylen = Some out"
  by (induction lib delta estimate pass salt keylen desired fuel run iter rule: TimedPBKDF2_loop.induct)
    (auto split: option.splits if_splits)

lemma sdiv_nonneg: "0 \<le> (a::int) \<Longrightarrow> 0 < b \<Longrightarrow> a sdiv b = a div b"
  by (auto simp: signed_divide_int_def sgn_if)

lemma TimedPBKDF2_loop_returns:
  assumes "0 \<le> desired" "run \<le> k" "k < run + fuel" "5 * desired sdiv 6 \<le> delta k"
  shows "TimedPBKDF2_loop lib delta estimate pass salt keylen desired fuel run iter \<noteq> None"
  using assms
proof (induction fuel arbitrary: run iter)
  case (Suc fuel)
  have "desired sdiv 8 \<le> 5 * desired sdiv 6" using Suc.prems(1) by (simp add: sdiv_nonneg)
  then have last: "\<not> delta run < desired sdiv 8" "\<not> delta run < 5 * desired sdiv 6" if "run = k"
    using that Suc.prems(4) by auto
  show ?case
  proof (cases "run = k")
    case True
    then show ?thesis using last by (simp split: option.split)
  next
    case False
    then show ?thesis using Suc.IH [of "Suc run"] Suc.prems by (auto split: option.split)
  qed
qed simp

lemma le64_nth: "i < 8 \<Longrightarrow> le64 x ! i = ucast (drop_bit (8 * i) x)"
  by (simp add: le64_def low_byte)

lemma le64_inj: "le64 x = le64 y \<longleftrightarrow> x = y"
proof
  assume eq: "le64 x = le64 y"
  show "x = y"
  proof (rule bit_word_eqI)
    fix n :: nat
    assume "n < LENGTH(64)"
    then have "n div 8 < 8" by simp
    then have "(ucast (drop_bit (8 * (n div 8)) x) :: byte) = ucast (drop_bit (8 * (n div 8)) y)"
      using eq le64_nth by metis
    then have "bit (ucast (drop_bit (8 * (n div 8)) x) :: byte) (n mod 8) = bit (ucast (drop_bit (8 * (n div 8)) y) :: byte) (n mod 8)"
      by simp
    then show "bit x n = bit y n" by (simp add: bit_simps)
  qed
qed simp

lemma aes_closest:
  "closest AESKeyRange v = (if v < 128 then Some 128 else if v = 128 \<or> v = 192 \<or> v = 256 then Some v
     else if v < 160 then None else Some 256)"
proof -
  have r: "minVal AESKeyRange = 128" "maxVal AESKeyRange = 256" "increment AESKeyRange = 64"
    by (simp_all add: AESKeyRange_def Range_def)
  have al: "allowed AESKeyRange v \<longleftrightarrow> 128 \<le> v \<and> v \<le> 256 \<and> (v - 128) mod 64 = 0"
    using allowed_pos [of AESKeyRange v] by (simp add: r)
  have grid: "v = 128 \<or> v = 192 \<or> v = 256" if "128 \<le> v" "v \<le> 256" "(v - 128) mod 64 = 0"
    using that by presburger
  consider "v < 128" | "v > 256" | "128 \<le> v" "v \<le> 256" "(v - 128) mod 64 = 0"
    | "128 \<le> v" "v \<le> 256" "(v - 128) mod 64 \<noteq> 0" by linarith
  then show ?thesis
  proof cases
    case 3
    then show ?thesis using grid al by (subst closest.simps) auto
  next
    case 4
    then have "closest AESKeyRange v = (if v < 160 then None else Some 256)"
      using closest_stuck [of AESKeyRange v] closest_climbs [of AESKeyRange v] by (simp add: r)
    moreover have "v \<noteq> 128" "v \<noteq> 192" "v \<noteq> 256" using 4 by auto
    ultimately show ?thesis using 4 by simp
  qed (use al in \<open>subst closest.simps, auto simp: r\<close>)+
qed

section \<open>An instance\<close>

text \<open>Primitives that keep the laws: exclusive or with one byte, and sums for digests.\<close>

definition byte_sum :: "bytes \<Rightarrow> byte" where
  "byte_sum bs = foldl (\<lambda>a b. 3 * a + b) 1 bs"

definition xor_lib :: "nat openssl" where
  "xor_lib =
     \<lparr>EVP_iv_length = (\<lambda>c. if c = EVP_bf_cbc \<or> c = EVP_bf_cfb then 8 else 16),
      EVP_block_size = (\<lambda>c. if stream_mode c = c then 1 else if c = EVP_bf_cbc then 8 else 16),
      EVP_Encrypt = (\<lambda>c k ivec. map (\<lambda>b. b XOR byte_sum (k @ ivec))),
      EVP_Decrypt = (\<lambda>c k ivec. map (\<lambda>b. b XOR byte_sum (k @ ivec))),
      EVP_sha1 = (\<lambda>x. replicate 20 (byte_sum x)),
      HMAC = (\<lambda>k x. replicate 20 (byte_sum (k @ x))),
      PBKDF2 = (\<lambda>pass salt it n. Some (replicate n (byte_sum (pass @ salt) + of_int it))),
      EVP_BytesToKey_sha1 = (\<lambda>c d rounds. (replicate 16 (byte_sum d), replicate 16 0)),
      RAND_bytes = (\<lambda>n r. (Some (replicate n 7), Suc r))\<rparr>"

lemma stream_mode_idem [simp]: "stream_mode (stream_mode c) = stream_mode c"
  by (cases c) simp_all

interpretation xor_laws: openssl_laws xor_lib
proof
  show "EVP_iv_length xor_lib (stream_mode c) = EVP_iv_length xor_lib c" for c
    by (cases c) (simp_all add: xor_lib_def)
qed (auto simp: xor_lib_def o_def xor.assoc)

definition xor_aes :: ssl_cipher where
  "xor_aes = \<lparr>ssl_iface = AESInterface, ssl_realIface = AESInterface, ssl_blockCipher = EVP_aes_192_cbc,
     ssl_streamCipher = EVP_aes_192_cfb, ssl_keySize = 24, ssl_ivLength = 16\<rparr>"

definition xor_key :: sslkey where
  "xor_key = key_of_bytes xor_aes (replicate 40 7)"

lemma xor_aes_ok: "cipher_ok xor_lib xor_aes"
  by (simp add: cipher_ok_def xor_aes_def xor_lib_def)

lemma xor_key_ok: "key_ok xor_aes xor_key"
  unfolding xor_key_def by (rule key_of_bytes_ok) (simp add: xor_aes_def)

interpretation xor_aes: ssl_blocks xor_lib xor_aes xor_key 64
proof
  show "64 mod EVP_block_size xor_lib (ssl_blockCipher xor_aes) = 0" by (simp add: xor_lib_def xor_aes_def)
qed (simp_all add: xor_aes_ok xor_key_ok)

section \<open>Properties\<close>

text \<open>
  Claim C5. With a key of the cipher, stream decoding inverts stream encoding for every buffer
  that is not empty, and block decoding inverts block encoding for every whole number of cipher
  blocks; both keep the length and work with any seed and both kinds of vectors. An empty
  buffer raises, and a length that is not a whole number of blocks is refused.
\<close>

theorem ssl_coders_invert:
  assumes "openssl_laws lib" "cipher_ok lib cph" "key_ok cph key"
  shows "(p \<noteq> [] \<longrightarrow> inverts (SSL_streamDecode lib cph key) (SSL_streamEncode lib cph key) p) \<and>
    (p \<noteq> [] \<and> length p mod EVP_block_size lib (ssl_blockCipher cph) = 0 \<longrightarrow>
       inverts (SSL_blockDecode lib cph key) (SSL_blockEncode lib cph key) p) \<and>
    (p = [] \<longrightarrow> SSL_streamEncode lib cph key p v = Inl (Error ''size > 0'') \<and>
       SSL_blockEncode lib cph key p v = Inl (Error ''size > 0'')) \<and>
    (length p mod EVP_block_size lib (ssl_blockCipher cph) \<noteq> 0 \<longrightarrow>
       SSL_blockEncode lib cph key p v = Inr None \<and> SSL_blockDecode lib cph key p v = Inr None)"
proof -
  have k: "ssl_keyed lib cph key" using assms by (simp add: ssl_keyed_def ssl_keyed_axioms_def)
  have "SSL_blockEncode lib cph key p v = Inr None \<and> SSL_blockDecode lib cph key p v = Inr None"
    if "length p mod EVP_block_size lib (ssl_blockCipher cph) \<noteq> 0"
    using that by (cases "p = []") (simp_all add: SSL_blockEncode_def SSL_blockDecode_def ssl_keyed.check_key_ok [OF k])
  then show ?thesis
    using ssl_keyed.stream_coder [OF k, of p] ssl_keyed.block_coder [OF k, of p]
    by (auto simp: SSL_streamEncode_def as_coder_def stream_encode_def SSL_blockEncode_def)
qed

theorem ssl_coders_invert_witness:
  "inverts (SSL_streamDecode xor_lib xor_aes xor_key) (SSL_streamEncode xor_lib xor_aes xor_key) [1, 2, 3]"
  using ssl_coders_invert [OF xor_laws.openssl_laws_axioms xor_aes_ok xor_key_ok, of "[1, 2, 3]"] by simp

lemma key_wrap:
  assumes "openssl_laws lib" "cipher_ok lib cph" "key_ok cph key" "key_ok cph mk"
  shows "\<exists>d. writeKey lib cph key mk = Inr d \<and> length d = encodedKeySize cph \<and>
    readKey lib cph d mk checkKey = Inr (Some key)"
proof -
  have k: "ssl_keyed lib cph mk" using assms by (simp add: ssl_keyed_def ssl_keyed_axioms_def)
  define p where "p = sk_buffer key"
  have len: "length p = ssl_keySize cph + ssl_ivLength cph" using assms(3) by (simp add: p_def key_ok_def)
  have ne: "p \<noteq> []" using len ssl_keyed.ivLength [OF k] by auto
  obtain c where c: "mac_32 lib p mk = Inr c"
    using ssl_keyed.mac_total [OF k ne, of None] by (auto simp: mac_32_def)
  define q where "q = ssl_keyed.stream_image lib cph mk p (ucast c)"
  have enc: "stream_encode lib cph mk p (ucast c) = Inr (True, q)" and dec: "stream_decode lib cph mk q (ucast c) = Inr (True, p)"
    unfolding q_def by (rule ssl_keyed.stream_encode_ok [OF k ne], rule ssl_keyed.stream_decode_ok [OF k ne])
  have ql: "length q = length p" by (simp add: q_def ssl_keyed.stream_image_def [OF k] ssl_keyed.stream_law [OF k])
  have "writeKey lib cph key mk = Inr (be32_bytes c @ q)"
    using assms(3,4) c enc len by (simp add: writeKey_def key_ok_def p_def [symmetric])
  moreover have "readKey lib cph (be32_bytes c @ q) mk checkKey = Inr (Some key)"
    using assms(4) c dec len ql key_of_buffer [OF assms(3)]
    by (simp add: readKey_def key_ok_def be32_be32_bytes p_def [symmetric])
  ultimately show ?thesis using ql len by (simp add: encodedKeySize_def)
qed

text \<open>
  Claim C6. A volume key wrapped with \<open>writeKey\<close> under a master key has the encoded key size
  and is read back by \<open>readKey\<close> unchanged, with or without the check.
\<close>

theorem key_wrap_roundtrip:
  assumes "openssl_laws lib" "cipher_ok lib cph" "key_ok cph key" "key_ok cph mk"
  shows "\<exists>d. writeKey lib cph key mk = Inr d \<and> length d = encodedKeySize cph \<and>
    readKey lib cph d mk checkKey = Inr (Some key)"
  using assms by (rule key_wrap)

theorem key_wrap_roundtrip_witness:
  "\<exists>d. writeKey xor_lib xor_aes (key_of_bytes xor_aes (replicate 40 9)) xor_key = Inr d \<and>
     length d = encodedKeySize xor_aes \<and>
     readKey xor_lib xor_aes d xor_key True = Inr (Some (key_of_bytes xor_aes (replicate 40 9)))"
  by (rule key_wrap_roundtrip [OF xor_laws.openssl_laws_axioms xor_aes_ok _ xor_key_ok])
    (rule key_of_bytes_ok, simp add: xor_aes_def)

text \<open>
  Claim C9. A key that \<open>readKey\<close> accepts with the check on is one whose checksum under the master
  key is the stored one; with the check off any data of the right length gives a key of the
  cipher's sizes.
\<close>

theorem readKey_checks:
  assumes "openssl_laws lib" "cipher_ok lib cph" "key_ok cph mk" "length d = encodedKeySize cph"
  shows "(\<forall>key. readKey lib cph d mk True = Inr (Some key) \<longrightarrow>
      mac_32 lib (sk_buffer key) mk = Inr (be32 (take KEY_CHECKSUM_BYTES d))) \<and>
    (\<exists>key. readKey lib cph d mk False = Inr (Some key) \<and> key_ok cph key \<and>
       readKey lib cph d mk True \<in> {Inr None, Inr (Some key)})"
proof -
  have k: "ssl_keyed lib cph mk" using assms by (simp add: ssl_keyed_def ssl_keyed_axioms_def)
  define n where "n = ssl_keySize cph + ssl_ivLength cph"
  define q where "q = take n (drop KEY_CHECKSUM_BYTES d)"
  define c where "c = be32 (take KEY_CHECKSUM_BYTES d)"
  have n: "0 < n" using ssl_keyed.ivLength [OF k] by (auto simp: n_def)
  have ql: "length q = n" using assms(4) by (simp add: q_def n_def encodedKeySize_def)
  obtain p where p: "stream_decode lib cph mk q (ucast c) = Inr (True, p)" "length p = n"
    using ssl_keyed.stream_decode_total [OF k, of q "ucast c"] n ql by fastforce
  have "p \<noteq> []" using p n by auto
  then obtain c2 where c2: "mac_32 lib p mk = Inr c2"
    using ssl_keyed.mac_total [OF k, of p None] by (auto simp: mac_32_def)
  have run: "readKey lib cph d mk chk = (if c2 \<noteq> c \<and> chk then Inr None else Inr (Some (key_of_bytes cph p)))" for chk
    using assms(3) p(1) c2 by (simp add: readKey_def key_ok_def Let_def flip: n_def q_def c_def)
  have "key_ok cph (key_of_bytes cph p)" using p(2) by (intro key_of_bytes_ok) (simp add: n_def)
  moreover have "sk_buffer (key_of_bytes cph p) = p" by (simp add: key_of_bytes_def initKey_def)
  ultimately show ?thesis using run c2 by (auto simp flip: c_def)
qed

theorem readKey_checks_witness:
  "\<exists>key. readKey xor_lib xor_aes (replicate 44 5) xor_key False = Inr (Some key) \<and> key_ok xor_aes key \<and>
     readKey xor_lib xor_aes (replicate 44 5) xor_key True \<in> {Inr None, Inr (Some key)}"
  using readKey_checks [OF xor_laws.openssl_laws_axioms xor_aes_ok xor_key_ok, of "replicate 44 5"]
  by (simp add: encodedKeySize_def xor_aes_def KEY_CHECKSUM_BYTES_def)

text \<open>
  Claim C31. \<open>BytesToKey\<close> with a digest that has bytes always returns, and fills the key and then
  the vector with consecutive bytes of the stream of digests, each computed from the one before
  it and the password. An empty password gives nothing.
\<close>

theorem bytes_to_key_stream:
  assumes "\<And>x. length (md x) = L" "0 < L" "keyLen + ivLen \<le> n * L"
  shows "BytesToKey keyLen ivLen md d rounds =
    (if d = [] then Some (0, None)
     else Some (keyLen, Some (take keyLen (digest_blocks md d rounds [] n),
                              take ivLen (drop keyLen (digest_blocks md d rounds [] n)))))"
  using BytesToKey_loop_stream [OF assms] by (simp add: BytesToKey_def)

theorem bytes_to_key_stream_witness:
  "\<exists>k v. BytesToKey 24 16 (EVP_sha1 xor_lib) [112, 119] 16 = Some (24, Some (k, v))"
  using bytes_to_key_stream [of "EVP_sha1 xor_lib" 20 24 16 2 "[112, 119]" 16] by (simp add: xor_lib_def)

lemma newKey_again:
  assumes "newKey lib delta estimate fuel cph password 0 duration salt = Some (Some key, count)"
  shows "0 < count \<and> newKey lib delta' estimate' fuel' cph password count duration' salt = Some (Some key, count)"
  using assms TimedPBKDF2_loop_derives [of lib delta estimate password salt "ssl_keySize cph + ssl_ivLength cph"
      "1000 * duration" fuel 0 1000]
  by (auto simp: newKey_def TimedPBKDF2_def Let_def split: option.splits if_splits)

text \<open>
  Claim C32. When a timed derivation yields a key and an iteration count, deriving again with that
  count yields the same key, however long the runs take then: the count stored in the volume
  configuration is enough to derive the key at the next mount.
\<close>

theorem newKey_reproducible:
  assumes "newKey lib delta estimate fuel cph password 0 duration salt = Some (Some key, count)"
  shows "0 < count \<and> newKey lib delta' estimate' fuel' cph password count duration' salt = Some (Some key, count)"
  using assms by (rule newKey_again)

theorem newKey_reproducible_witness:
  "newKey xor_lib (\<lambda>run. 0) (\<lambda>_ _ _. 0) 0 xor_aes [112, 119] 4000 7 [1]
     = Some (Some (key_of_bytes xor_aes (replicate 40 (byte_sum [112, 119, 1] + 4000))), 4000)"
proof -
  have "newKey xor_lib (\<lambda>run. if run = 0 then 100 else 500000) (\<lambda>_ _ _. 0) (Suc (Suc 0)) xor_aes [112, 119] 0 500 [1]
      = Some (Some (key_of_bytes xor_aes (replicate 40 (byte_sum [112, 119, 1] + 4000))), 4000)"
    by (simp add: newKey_def TimedPBKDF2_def xor_lib_def xor_aes_def int32_def sdiv_nonneg)
  from newKey_reproducible [OF this] show ?thesis by blast
qed



text \<open>
  Claim C34. The AES key sizes by requested bits: none or 192 gives 24 bytes, up to 128 gives 16,
  160 and more gives 32 (also for sizes between 192 and 256), and a request of 129 to 159 bits
  never returns.
\<close>

theorem aes_key_sizes:
  "NewAESCipher lib iface keyLen =
     (if keyLen \<le> 0 \<or> keyLen = 192 then SSL_Cipher_new lib iface AESInterface EVP_aes_192_cbc EVP_aes_192_cfb 24
      else if keyLen \<le> 128 then SSL_Cipher_new lib iface AESInterface EVP_aes_128_cbc EVP_aes_128_cfb 16
      else if keyLen < 160 then Inl Diverged
      else SSL_Cipher_new lib iface AESInterface EVP_aes_256_cbc EVP_aes_256_cfb 32)"
  by (simp add: NewAESCipher_def aes_closest)

text \<open>
  Claim C35. From interface version 3 on, the vector is a function of an HMAC input from which the
  whole 64 bit seed can be recovered, so different seeds of one key never share an input. Older
  versions use the low 32 bits only: seeds that agree there get the same vector.
\<close>

theorem ivec_seeds:
  assumes "openssl_laws lib" "cipher_ok lib cph" "key_ok cph key"
  shows "(if_current (ssl_iface cph) \<ge> 3 \<longrightarrow>
      (\<exists>inp. inj inp \<and>
         (\<forall>s. setIVec lib cph s key = Inr (take (ssl_ivLength cph) (HMAC lib (KeyData key) (inp s)))))) \<and>
   (if_current (ssl_iface cph) < 3 \<longrightarrow>
      (\<forall>s s'. (ucast s :: u32) = ucast s' \<longrightarrow> setIVec lib cph s key = setIVec lib cph s' key))"
proof -
  have k: "ssl_keyed lib cph key" using assms by (simp add: ssl_keyed_def ssl_keyed_axioms_def)
  have "inj (\<lambda>s. take (ssl_ivLength cph) (IVData key) @ le64 s)" by (simp add: inj_def le64_inj)
  then show ?thesis
    using ssl_keyed.setIVec_ok [OF k] by (auto simp: ssl_keyed.ivec_def [OF k] setIVec_def)
qed

theorem ivec_seeds_witness:
  "\<exists>inp :: u64 \<Rightarrow> bytes. inj inp \<and> setIVec xor_lib xor_aes 5 xor_key = Inr (take 16 (HMAC xor_lib (KeyData xor_key) (inp 5)))"
proof -
  have "if_current (ssl_iface xor_aes) \<ge> 3" "ssl_ivLength xor_aes = 16"
    by (simp_all add: xor_aes_def AESInterface_def Interface_def)
  then show ?thesis using ivec_seeds [OF xor_laws.openssl_laws_axioms xor_aes_ok xor_key_ok] by auto
qed


end
