(* ===== verification/File_Stack.thy ===== *)
theory File_Stack
  imports MAC_File_IO Raw_File_IO SSL_Cipher
begin

text \<open>
  The layers put together as \<open>FileNode\<close> does it: \<open>RawFileIO\<close>, above it \<open>CipherFileIO\<close> with an
  \<open>SSL_Cipher\<close>, and, where authentication is configured, \<open>MACFileIO\<close> on top. For each stack the
  main result is a refinement: whatever reads, writes and size queries a client issues, it sees
  the answers of one flat byte string, also across closing and opening the file again, and also
  across a renaming that changes the external vector. What is assumed are the laws of the
  operating system and of OpenSSL, and, when holes are passed through, that the contents do not
  have a block that would be taken for a hole (\<open>hole_safe\<close>). The volume is in forward mode.

  The instance at the end runs the stacks on a file in memory whose writes are short.
\<close>

section \<open>A file in memory\<close>

text \<open>One regular file; \<open>pwrite\<close> accepts at most \<open>k\<close> bytes at a time.\<close>

definition mem_sys :: "nat \<Rightarrow> bytes sys" where
  "mem_sys k =
     \<lparr>sys_open = (\<lambda>path flags w. (3, w)),
      sys_lstat = (\<lambda>path w. (Inr \<lparr>st_mode = 0x81A4, st_size = int (length w), st_ino = 1, st_gid = 0\<rparr>, w)),
      sys_chmod = (\<lambda>path mode w. (0, w)),
      sys_pread = (\<lambda>fd len off w. (Inr (take len (drop off w)), w)),
      sys_pwrite = (\<lambda>fd d off w. (int (length (take k d)), overlay off (take k d) w)),
      sys_ftruncate = (\<lambda>fd n w. (0, take n (pad_to n w))),
      sys_truncate = (\<lambda>path n w. (0, take n (pad_to n w))),
      sys_fdatasync = (\<lambda>fd w. w),
      sys_close = (\<lambda>fd w. w)\<rparr>"

definition mem_opened :: "bytes \<Rightarrow> int \<Rightarrow> bytes \<Rightarrow> bytes \<Rightarrow> bool" where
  "mem_opened name fd c w = (w = c)"

interpretation mem: posix_file "mem_sys 5" False mem_opened
proof
  fix name fd c w d off n w'
  assume "mem_opened name fd c w" "d \<noteq> []" "sys_pwrite (mem_sys 5) fd d off w = (n, w')"
  then show "0 < n \<and> n \<le> int (length d) \<and> mem_opened name fd (overlay off (take (nat n) d) c) w' \<or> False \<and> n \<le> 0"
    by (cases "length d \<le> 5") (auto simp: mem_sys_def mem_opened_def)
qed (auto simp: mem_sys_def mem_opened_def)

section \<open>The stacks\<close>

definition ssl_env :: "'w sys \<Rightarrow> 'r openssl \<Rightarrow> ssl_cipher \<Rightarrow> sslkey \<Rightarrow> nat \<Rightarrow> ('w rawfileio, sslkey, 'r) cipher_env" where
  "ssl_env sys lib cph key tries =
     \<lparr>ce_base = raw_fileio sys, ce_cipher = ssl_as_cipher lib cph, ce_key = key, ce_sha1 = EVP_sha1 lib, ce_tries = tries\<rparr>"

definition ssl_mac_env ::
  "'w sys \<Rightarrow> 'r openssl \<Rightarrow> ssl_cipher \<Rightarrow> sslkey \<Rightarrow> nat \<Rightarrow> (('w rawfileio, 'r) cipherfileio, sslkey, 'r) mac_env" where
  "ssl_mac_env sys lib cph key tries =
     \<lparr>me_base = cipher_fileio (ssl_env sys lib cph key tries), me_cipher = ssl_as_cipher lib cph, me_key = key\<rparr>"

text \<open>
  The laws of the stack: the system and the primitives keep theirs, and among \<open>tries\<close> draws of
  eight random bytes one is not zero.
\<close>

locale cipher_stack = posix_file sys False opened + ssl_blocks lib cph key bs
  for sys :: "'w sys" and opened and lib :: "'r openssl" and cph key bs +
  fixes tries :: nat and uniqueIV :: bool and xiv :: u64 and holes :: bool
  assumes bs_gt_1: "1 < bs"
    and random_draw: "\<exists>buf. fst (draw_iv (RAND_bytes lib) tries rng) = Inr (Some buf)"

lemma ssl_env_simps [simp]:
  "ce_base (ssl_env sys lib cph key tries) = raw_fileio sys"
  "ce_cipher (ssl_env sys lib cph key tries) = ssl_as_cipher lib cph"
  "ce_key (ssl_env sys lib cph key tries) = key"
  "ce_tries (ssl_env sys lib cph key tries) = tries"
  "me_base (ssl_mac_env sys lib cph key tries) = cipher_fileio (ssl_env sys lib cph key tries)"
  "me_cipher (ssl_mac_env sys lib cph key tries) = ssl_as_cipher lib cph"
  "me_key (ssl_mac_env sys lib cph key tries) = key"
  by (simp_all add: ssl_env_def ssl_mac_env_def)

sublocale cipher_stack \<subseteq> stack: cipher_file "ssl_env sys lib cph key tries" False raw_holds bs uniqueIV xiv holes
proof (rule cipher_file.intro)
  show "byte_file (ce_base (ssl_env sys lib cph key tries)) False raw_holds (\<lambda>_. True)" by (simp add: raw.byte_file_axioms)
  show "block_codec (c_streamEncode (ce_cipher (ssl_env sys lib cph key tries)) (ce_key (ssl_env sys lib cph key tries)))
     (c_streamDecode (ce_cipher (ssl_env sys lib cph key tries)) (ce_key (ssl_env sys lib cph key tries)))
     (c_blockEncode (ce_cipher (ssl_env sys lib cph key tries)) (ce_key (ssl_env sys lib cph key tries)))
     (c_blockDecode (ce_cipher (ssl_env sys lib cph key tries)) (ce_key (ssl_env sys lib cph key tries))) bs"
    by (simp add: codec.block_codec_axioms)
  have "fst (fio_getSize (raw_fileio sys) b) = Inr (int (length c))" if "raw_holds c b" for c b
    using raw.size_law [OF that] by (cases "fio_getSize (raw_fileio sys) b") auto
  then show "cipher_file_axioms (ssl_env sys lib cph key tries) False raw_holds bs"
    using bs_gt_1 random_draw rand_length by (intro cipher_file_axioms.intro) auto
qed

text \<open>The authenticated stack, with \<open>n\<close> data bytes, \<open>m\<close> MAC bytes and \<open>k\<close> random bytes in a block.\<close>

locale mac_stack = cipher_stack sys opened lib cph key bs tries uniqueIV xiv holes
  for sys :: "'w sys" and opened and lib :: "'r openssl" and cph key bs tries uniqueIV xiv holes +
  fixes n m k :: nat
  assumes data_gt_1: "1 < n" and mac_le_8: "m \<le> 8" and block: "n + m + k = bs" "bs < 2 ^ 31"
    and rand_some: "fst (RAND_bytes lib len rng) \<noteq> None"

sublocale mac_stack \<subseteq> auth: mac_file "ssl_mac_env sys lib cph key tries" False stack.dev.flat stack.dev.clear n m k holes
  "\<lambda>d. holes \<longrightarrow> hole_safe (SSL_blockEncode lib cph key) bs d"
proof (rule mac_file.intro)
  show "byte_file (me_base (ssl_mac_env sys lib cph key tries)) False stack.dev.flat stack.dev.clear"
    using stack.cf.byte_file_axioms by simp
  have "n + (m + k) = bs" using block by simp
  then show "mac_file_axioms (ssl_mac_env sys lib cph key tries) False stack.dev.clear n m k holes
      (\<lambda>d. holes \<longrightarrow> hole_safe (SSL_blockEncode lib cph key) bs d)"
    using data_gt_1 mac_le_8 mac_total rand_length rand_some
    by (intro mac_file_axioms.intro, unfold stack.dev.clear_def) auto
qed

section \<open>Opening and closing\<close>

text \<open>
  A client's session: a raw object whose descriptor is open for reading and writing, a new
  cipher object above it as the constructor of \<open>FileNode\<close> builds it on a volume in forward mode,
  and the vector that comes from the name of the file.
\<close>

definition open_cipher_file ::
  "('b, 'k, 'r) cipher_env \<Rightarrow> nat \<Rightarrow> bool \<Rightarrow> bool \<Rightarrow> bool \<Rightarrow> u64 \<Rightarrow> 'b \<Rightarrow> 'r \<Rightarrow> exn + ('b, 'r) cipherfileio" where
  "open_cipher_file env blockSize allowHoles noCache uniqueIV iv b rng =
     (case CipherFileIO_new env blockSize allowHoles noCache uniqueIV False b rng of Inl e \<Rightarrow> Inl e
      | Inr s \<Rightarrow> (case cipher_setIV env iv s of (Inl e, _) \<Rightarrow> Inl e | (Inr _, s') \<Rightarrow> Inr s'))"

definition open_mac_file ::
  "('b, 'k, 'r) cipher_env \<Rightarrow> nat \<Rightarrow> nat \<Rightarrow> nat \<Rightarrow> bool \<Rightarrow> bool \<Rightarrow> bool \<Rightarrow> bool \<Rightarrow> u64 \<Rightarrow> 'b \<Rightarrow> 'r \<Rightarrow>
   exn + (('b, 'r) cipherfileio, 'r) macfileio" where
  "open_mac_file env blockSize macBytes randBytes allowHoles noCache forceDecode uniqueIV iv b rng =
     (case open_cipher_file env blockSize allowHoles noCache uniqueIV iv b rng of Inl e \<Rightarrow> Inl e
      | Inr s \<Rightarrow> MACFileIO_new (int blockSize) (int macBytes) (int randBytes) allowHoles noCache forceDecode s rng)"

context cipher_file
begin

text \<open>What is in the file does not depend on whether an object has read the header.\<close>

lemma layout_unread: "layout h x fileIV c raw \<Longrightarrow> layout h x 0 c raw"
  by (auto simp: layout_def)

end

context cipher_stack
begin

abbreviation "env \<equiv> ssl_env sys lib cph key tries"

lemma opened_state:
  assumes "open_cipher_file env bs holes noCache uniqueIV xiv b rng = Inr s"
  shows "s = \<lparr>bf_blockSize = bs, bf_allowHoles = holes, bf_noCache = noCache, bf_cache_offset = 0, bf_cache_data = [],
      cf_base = b, cf_haveHeader = uniqueIV, cf_externalIV = xiv, cf_fileIV = 0, cf_lastFlags = 0,
      cf_reverse = False, cf_rng = rng\<rparr>"
  using assms bs_gt_1
  by (auto simp: open_cipher_file_def CipherFileIO_new_def cipher_setIV_def io_bind_split io_simps on_base_def
      raw_fileio_def FileIO_setIV_def split: if_splits)

text \<open>A new object over an empty file represents the empty string.\<close>

lemma new_object_empty:
  assumes "open_cipher_file env bs holes noCache uniqueIV xiv b rng = Inr s" "raw_holds [] b"
  shows "stack.dev.flat [] s"
  using opened_state [OF assms(1)] assms(2)
  by (auto simp: stack.dev.flat_def stack.cipher_holds_def coherent_def stack.layout_def stack.body_ok_def blk_def)

text \<open>A new object over the file of another one represents what that one did.\<close>

lemma new_object_same:
  assumes "open_cipher_file env bs holes noCache uniqueIV xiv (cf_base s) rng = Inr s'" "stack.dev.flat c s"
  shows "stack.dev.flat c s'"
proof -
  obtain raw where "raw_holds raw (cf_base s)" "stack.layout uniqueIV xiv (cf_fileIV s) c raw"
    using assms(2) by (auto simp: stack.dev.flat_def stack.cipher_holds_def)
  then show ?thesis
    using opened_state [OF assms(1)] stack.layout_unread
    by (auto simp: stack.dev.flat_def stack.cipher_holds_def coherent_def)
qed

lemma cipher_exec:
  assumes "stack.dev.flat c s" "raw_canWrite (cf_base s)" "list_all op_ok xs" "along stack.dev.clear xs c"
  shows "\<exists>s'. exec (cipher_fileio env) xs s = (fst (flat_exec xs c), s') \<and>
    stack.dev.flat (snd (flat_exec xs c)) s' \<and> raw_canWrite (cf_base s')"
proof -
  have r: "reliable_byte_file (cipher_fileio env) stack.dev.flat stack.dev.clear"
    using stack.cf.byte_file_axioms by (simp add: reliable_byte_file_def)
  have w: "fio_isWritable (cipher_fileio env) s = raw_canWrite (cf_base s)" for s
    by (simp add: cipher_fileio_def raw_fileio_def)
  show ?thesis
    using reliable_byte_file.exec_refines [where holds = stack.dev.flat, OF r assms(1) _ assms(3,4)] assms(2) by (simp add: w)
qed

text \<open>Two sessions, one after the other.\<close>

lemma two_sessions:
  assumes "raw_holds [] b" "raw_canWrite b"
    and first: "open_cipher_file env bs holes noCache uniqueIV xiv b rng = Inr s" "list_all op_ok xs"
      "exec (cipher_fileio env) xs s = (rs, s1)" "along stack.dev.clear xs []"
    and second: "open_cipher_file env bs holes noCache' uniqueIV xiv (cf_base s1) rng' = Inr s2" "list_all op_ok ys"
      "along stack.dev.clear ys (snd (flat_exec xs []))"
  shows "rs = fst (flat_exec xs []) \<and>
    fst (exec (cipher_fileio env) ys s2) = fst (flat_exec ys (snd (flat_exec xs [])))"
proof -
  have "raw_canWrite (cf_base s)" using opened_state [OF first(1)] assms(2) by simp
  from cipher_exec [OF new_object_empty [OF first(1) assms(1)] this first(2,4)]
  have r: "rs = fst (flat_exec xs [])" "stack.dev.flat (snd (flat_exec xs [])) s1" "raw_canWrite (cf_base s1)"
    using first(3) by auto
  have "raw_canWrite (cf_base s2)" using opened_state [OF second(1)] r(3) by simp
  from cipher_exec [OF new_object_same [OF second(1) r(2)] this second(2,3)] show ?thesis using r(1) by auto
qed

end

context mac_stack
begin

abbreviation "menv \<equiv> ssl_mac_env sys lib cph key tries"

lemma opened_mac_state:
  assumes "open_mac_file env bs m k holes noCache warn uniqueIV xiv b rng = Inr s"
  obtains s0 where "open_cipher_file env bs holes noCache uniqueIV xiv b rng = Inr s0"
    "s = \<lparr>bf_blockSize = n, bf_allowHoles = holes, bf_noCache = noCache, bf_cache_offset = 0, bf_cache_data = [],
       mf_base = s0, mf_macBytes = m, mf_randBytes = k, mf_warnOnly = warn, mf_rng = rng\<rparr>"
proof -
  obtain s0 where s0: "open_cipher_file env bs holes noCache uniqueIV xiv b rng = Inr s0"
    "MACFileIO_new (int bs) (int m) (int k) holes noCache warn s0 rng = Inr s"
    using assms by (auto simp: open_mac_file_def split: sum.splits)
  have "dataBlockSize (int bs) (int m) (int k) = int n" using block by (simp add: dataBlockSize_def)
  moreover have "unat (word_of_int (int n) :: u32) = n"
    using block by (simp add: unat_of_nat take_bit_nat_eq_self)
  ultimately show thesis
    using that [OF s0(1)] s0(2) data_gt_1 mac_le_8 by (simp add: MACFileIO_new_def)
qed

lemma opened_mac_base: "open_mac_file env bs m k holes noCache warn uniqueIV xiv b rng = Inr s \<Longrightarrow> cf_base (mf_base s) = b"
  by (erule opened_mac_state) (drule opened_state, simp)

lemma new_mac_empty:
  assumes "open_mac_file env bs m k holes noCache warn uniqueIV xiv b rng = Inr s" "raw_holds [] b"
  shows "auth.mdev.flat [] s"
proof -
  obtain s0 where s0: "open_cipher_file env bs holes noCache uniqueIV xiv b rng = Inr s0"
    "s = \<lparr>bf_blockSize = n, bf_allowHoles = holes, bf_noCache = noCache, bf_cache_offset = 0, bf_cache_data = [],
       mf_base = s0, mf_macBytes = m, mf_randBytes = k, mf_warnOnly = warn, mf_rng = rng\<rparr>"
    by (rule opened_mac_state [OF assms(1)])
  have "stack.dev.flat [] s0" by (rule new_object_empty [OF s0(1) assms(2)])
  moreover have "locWithHeader 0 (n + (m + k)) (m + k) = 0"
    using locWithHeader_boundary [of n 0 "m + k"] data_gt_1 by simp
  moreover have "hole_safe (SSL_blockEncode lib cph key) bs []" using bs_gt_1 by (simp add: hole_safe_def)
  ultimately show ?thesis
    by (auto simp: s0(2) auth.mdev.flat_def auth.mac_holds_def coherent_def auth.sealed_def blk_def
        intro!: exI [of _ "[]"])
qed

lemma new_mac_same:
  assumes "open_mac_file env bs m k holes noCache warn uniqueIV xiv (cf_base (mf_base s)) rng = Inr s'" "auth.mdev.flat c s"
  shows "auth.mdev.flat c s'"
proof -
  obtain s0 where s0: "open_cipher_file env bs holes noCache uniqueIV xiv (cf_base (mf_base s)) rng = Inr s0"
    "s' = \<lparr>bf_blockSize = n, bf_allowHoles = holes, bf_noCache = noCache, bf_cache_offset = 0, bf_cache_data = [],
       mf_base = s0, mf_macBytes = m, mf_randBytes = k, mf_warnOnly = warn, mf_rng = rng\<rparr>"
    by (rule opened_mac_state [OF assms(1)])
  have "stack.dev.flat raw (mf_base s) \<Longrightarrow> stack.dev.flat raw s0" for raw by (rule new_object_same [OF s0(1)])
  then show ?thesis using assms(2)
    by (auto simp: s0(2) auth.mdev.flat_def auth.mac_holds_def coherent_def)
qed

lemma mac_exec:
  assumes "auth.mdev.flat c s" "raw_canWrite (cf_base (mf_base s))" "list_all op_ok xs" "along auth.mdev.clear xs c"
  shows "\<exists>s'. exec (mac_fileio menv) xs s = (fst (flat_exec xs c), s') \<and>
    auth.mdev.flat (snd (flat_exec xs c)) s' \<and> raw_canWrite (cf_base (mf_base s'))"
proof -
  have r: "reliable_byte_file (mac_fileio menv) auth.mdev.flat auth.mdev.clear"
    by (simp add: reliable_byte_file_def auth.mf.byte_file_axioms)
  have w: "fio_isWritable (mac_fileio menv) s = raw_canWrite (cf_base (mf_base s))" for s
    by (simp add: mac_fileio_def cipher_fileio_def raw_fileio_def)
  show ?thesis
    using reliable_byte_file.exec_refines [where holds = auth.mdev.flat, OF r assms(1) _ assms(3,4)] assms(2)
    by (simp add: w)
qed

lemma two_mac_sessions:
  assumes "raw_holds [] b" "raw_canWrite b"
    and first: "open_mac_file env bs m k holes noCache warn uniqueIV xiv b rng = Inr s" "list_all op_ok xs"
      "exec (mac_fileio menv) xs s = (rs, s1)" "along auth.mdev.clear xs []"
    and second: "open_mac_file env bs m k holes noCache' warn' uniqueIV xiv (cf_base (mf_base s1)) rng' = Inr s2" "list_all op_ok ys"
      "along auth.mdev.clear ys (snd (flat_exec xs []))"
  shows "rs = fst (flat_exec xs []) \<and>
    fst (exec (mac_fileio menv) ys s2) = fst (flat_exec ys (snd (flat_exec xs [])))"
proof -
  have "raw_canWrite (cf_base (mf_base s))" using opened_mac_base [OF first(1)] assms(2) by simp
  from mac_exec [OF new_mac_empty [OF first(1) assms(1)] this first(2,4)]
  have r: "rs = fst (flat_exec xs [])" "auth.mdev.flat (snd (flat_exec xs [])) s1" "raw_canWrite (cf_base (mf_base s1))"
    using first(3) by auto
  have "raw_canWrite (cf_base (mf_base s2))" using opened_mac_base [OF second(1)] r(3) by simp
  from mac_exec [OF new_mac_same [OF second(1) r(2)] this second(2,3)] show ?thesis using r(1) by auto
qed

end

section \<open>Contents without blocks that look like holes\<close>

text \<open>
  With headers of \<open>h\<close> bytes in front of the data of each block: no full block encrypts to zeros
  unless it is zero itself.
\<close>

definition blocks_safe :: "coder \<Rightarrow> nat \<Rightarrow> nat \<Rightarrow> bytes \<Rightarrow> bool" where
  "blocks_safe encode bs h c = (\<forall>j hd. length hd = h \<longrightarrow> hole_safe encode bs (hd @ blk (bs - h) j c))"

context cipher_stack
begin

lemma clear_along:
  assumes "holes \<Longrightarrow> along (blocks_safe (SSL_blockEncode lib cph key) bs 0) (xs @ ys) c"
  shows "along stack.dev.clear xs c \<and> along stack.dev.clear ys (snd (flat_exec xs c))"
proof (cases holes)
  case True
  have "stack.dev.clear c" if "blocks_safe (SSL_blockEncode lib cph key) bs 0 c" for c
    using that unfolding stack.dev.clear_def blocks_safe_def by simp
  then show ?thesis using assms [OF True] unfolding along_append by (blast intro: along_mono)
next
  case False
  then have "stack.dev.clear c" for c unfolding stack.dev.clear_def by simp
  then show ?thesis by (blast intro: along_True)
qed

end

context mac_stack
begin

lemma mac_clear_along:
  assumes "holes \<Longrightarrow> along (blocks_safe (SSL_blockEncode lib cph key) bs (m + k)) (xs @ ys) c"
  shows "along auth.mdev.clear xs c \<and> along auth.mdev.clear ys (snd (flat_exec xs c))"
proof (cases holes)
  case True
  have "bs - (m + k) = n" using block by simp
  then have "auth.mdev.clear c" if "blocks_safe (SSL_blockEncode lib cph key) bs (m + k) c" for c
    using that unfolding auth.mdev.clear_def auth.mac_good_def blocks_safe_def by simp
  then show ?thesis using assms [OF True] unfolding along_append by (blast intro: along_mono)
next
  case False
  then have "auth.mdev.clear c" for c unfolding auth.mdev.clear_def auth.mac_good_def by simp
  then show ?thesis by (blast intro: along_True)
qed

end

text \<open>The laws of the stacks from those of their parts.\<close>

lemma cipher_stack_of:
  assumes "posix_file sys False opened" "openssl_laws lib" "cipher_ok lib cph" "key_ok cph key"
    and "1 < bs" "bs mod EVP_block_size lib (ssl_blockCipher cph) = 0"
    and "\<And>rng. \<exists>buf. fst (draw_iv (RAND_bytes lib) tries rng) = Inr (Some buf)"
  shows "cipher_stack sys opened lib cph key bs tries"
  using assms
  by (simp add: cipher_stack_def ssl_blocks_def ssl_keyed_def ssl_keyed_axioms_def ssl_blocks_axioms_def
      cipher_stack_axioms_def)

lemma mac_stack_of:
  assumes "posix_file sys False opened" "openssl_laws lib" "cipher_ok lib cph" "key_ok cph key"
    and "bs mod EVP_block_size lib (ssl_blockCipher cph) = 0" "1 + m + k < bs" "bs < 2 ^ 31" "m \<le> 8"
    and "\<And>rng. \<exists>buf. fst (draw_iv (RAND_bytes lib) tries rng) = Inr (Some buf)"
      "\<And>len rng. fst (RAND_bytes lib len rng) \<noteq> None"
  shows "mac_stack sys opened lib cph key bs tries (bs - m - k) m k"
  using assms cipher_stack_of [OF assms(1-4) _ assms(5,9)]
  by (simp add: mac_stack_def mac_stack_axioms_def)

section \<open>Renaming with an external vector\<close>

context cipher_file
begin

lemma flat_iff: "dev.flat c s \<longleftrightarrow> cipher_holds c s \<and> coherent c s"
  by (rule dev.flat_def)

end

context mac_file
begin

lemma mac_flat_iff: "mdev.flat c s \<longleftrightarrow> mac_holds c s \<and> coherent c s"
  by (rule mdev.flat_def)

end

context cipher_stack
begin

lemma setIV_flat:
  assumes "uniqueIV" "xiv \<noteq> 0" "stack.dev.flat c s" "raw_canWrite (cf_base s)"
  shows "\<exists>s'. cipher_setIV env iv s = (Inr True, s') \<and>
    block_device.flat (cipher_file.cipher_holds env raw_holds bs uniqueIV iv holes) c s' \<and> raw_canWrite (cf_base s')"
proof -
  have "0 \<le> raw_fd (cf_base s)" using assms(3) by (auto simp: stack.dev.flat_def stack.cipher_holds_def raw_holds_def)
  then have op: "fio_open (ce_base env) flags (cf_base s) = (Inr (raw_fd (cf_base s)), cf_base s)" for flags
    using assms(4) by (simp add: raw_fileio_def raw_open_def)
  have "fio_setIV (ce_base env) iv b = (Inr True, b)" for b by (simp add: raw_fileio_def FileIO_setIV_def io_simps)
  moreover have w: "fio_isWritable (ce_base env) = raw_canWrite" by (simp add: raw_fileio_def)
  ultimately obtain s' raw where s': "cipher_setIV env iv s = (Inr True, s')" "bf_blockSize s' = bs" "bf_allowHoles s' = holes"
    "\<not> cf_reverse s'" "cf_haveHeader s'" "cf_externalIV s' = iv" "coherent c s'" "raw_holds raw (cf_base s')"
    "stack.layout True iv (cf_fileIV s') c raw" "raw_canWrite (cf_base s')"
    using stack.setIV_rewrites [where iv = iv, OF assms(3,1,2) _ _ op] assms(4) \<open>0 \<le> raw_fd (cf_base s)\<close> by auto
  have "cipher_file.cipher_holds env raw_holds bs uniqueIV iv holes c s'"
    unfolding cipher_file.cipher_holds_def [OF stack.cipher_file_axioms] using s' assms(1) by auto
  then show ?thesis using s'(1,7,10) cipher_file.flat_iff [OF stack.cipher_file_axioms, of uniqueIV iv holes c s'] by auto
qed

end

lemma renamed_session:
  assumes k: "cipher_stack sys opened lib cph key bs tries" and env: "env = ssl_env sys lib cph key tries"
    and raw: "posix_file.raw_holds opened [] b" "raw_canWrite b" and iv: "oldIV \<noteq> 0"
    and safe: "holes \<Longrightarrow> along (blocks_safe (SSL_blockEncode lib cph key) bs 0) (xs @ ys) []"
    and first: "open_cipher_file env bs holes noCache True oldIV b rng = Inr s" "list_all op_ok xs"
      "exec (cipher_fileio env) xs s = (rs, s1)"
    and second: "list_all op_ok ys"
  shows "\<exists>s2. cipher_setIV env newIV s1 = (Inr True, s2) \<and>
    fst (exec (cipher_fileio env) ys s2) = fst (flat_exec ys (snd (flat_exec xs []))) \<and>
    (\<forall>noCache' rng' s3. open_cipher_file env bs holes noCache' True newIV (cf_base s2) rng' = Inr s3 \<longrightarrow>
       fst (exec (cipher_fileio env) ys s3) = fst (flat_exec ys (snd (flat_exec xs []))))"
proof -
  let ?c = "snd (flat_exec xs [])"
  let ?flat = "\<lambda>iv. block_device.flat (cipher_file.cipher_holds env (posix_file.raw_holds opened) bs True iv holes)"
  note clear = cipher_stack.clear_along [OF k, where holes = holes, OF safe]
  have e: "?flat oldIV [] s" using cipher_stack.new_object_empty [OF k first(1) [unfolded env] raw(1)] unfolding env .
  have "raw_canWrite (cf_base s)" using cipher_stack.opened_state [OF k first(1) [unfolded env]] raw(2) by simp
  then have f: "?flat oldIV ?c s1" "raw_canWrite (cf_base s1)"
    using cipher_stack.cipher_exec [OF k e [unfolded env] _ first(2) clear [THEN conjunct1]] first(3) unfolding env by auto
  obtain s2 where s2: "cipher_setIV env newIV s1 = (Inr True, s2)" "?flat newIV ?c s2" "raw_canWrite (cf_base s2)"
    using cipher_stack.setIV_flat [OF k TrueI iv f(1) [unfolded env] f(2), of newIV] unfolding env by auto
  have now: "fst (exec (cipher_fileio env) ys s2) = fst (flat_exec ys ?c)"
    using cipher_stack.cipher_exec [OF k s2(2) [unfolded env] s2(3) second clear [THEN conjunct2]] unfolding env by auto
  have later: "fst (exec (cipher_fileio env) ys s3) = fst (flat_exec ys ?c)"
    if "open_cipher_file env bs holes nc True newIV (cf_base s2) r = Inr s3" for nc r s3
  proof -
    have "raw_canWrite (cf_base s3)" using cipher_stack.opened_state [OF k that [unfolded env]] s2(3) by simp
    from cipher_stack.cipher_exec [OF k cipher_stack.new_object_same [OF k that [unfolded env] s2(2) [unfolded env]] this second
        clear [THEN conjunct2]]
    show ?thesis unfolding env by auto
  qed
  show ?thesis using s2(1) now later by auto
qed

context mac_stack
begin

lemma auth_mac_file:
  "mac_file menv False stack.dev.flat stack.dev.clear n m k holes (\<lambda>d. holes \<longrightarrow> hole_safe (SSL_blockEncode lib cph key) bs d)"
  by (rule auth.mac_file_axioms)

end

context mac_stack
begin

lemma mac_setIV_flat:
  assumes "uniqueIV" "xiv \<noteq> 0" "auth.mdev.flat c s" "raw_canWrite (cf_base (mf_base s))"
  shows "\<exists>s'. fio_setIV (mac_fileio menv) iv s = (Inr True, s') \<and>
    block_device.flat (mac_file.mac_holds menv (block_device.flat (cipher_file.cipher_holds env raw_holds bs uniqueIV iv holes))
      n m k holes (\<lambda>d. holes \<longrightarrow> hole_safe (SSL_blockEncode lib cph key) bs d)) c s' \<and> raw_canWrite (cf_base (mf_base s'))"
proof -
  have h: "auth.mac_holds c s" "coherent c s" using assms(3) by (simp_all add: auth.mac_flat_iff)
  then obtain raw where raw: "stack.dev.flat raw (mf_base s)"
    and len: "length raw = locWithHeader (length c) (n + (m + k)) (m + k)"
    and blocks: "\<forall>j. auth.sealed (blk n j c) (blk (n + (m + k)) j raw) \<and>
      (holes \<longrightarrow> hole_safe (SSL_blockEncode lib cph key) bs (blk (n + (m + k)) j raw))"
    by (auto simp: auth.mac_holds_def)
  have geo: "bf_blockSize s = n" "bf_allowHoles s = holes" "mf_macBytes s = m" "mf_randBytes s = k"
    using h(1) by (simp_all add: auth.mac_holds_def)
  obtain b where b: "cipher_setIV env iv (mf_base s) = (Inr True, b)"
    "block_device.flat (cipher_file.cipher_holds env raw_holds bs uniqueIV iv holes) raw b" "raw_canWrite (cf_base b)"
    using setIV_flat [OF assms(1,2) raw assms(4)] by blast
  have frame: "bf_blockSize (s\<lparr>mf_base := b\<rparr>) = bf_blockSize s" "bf_allowHoles (s\<lparr>mf_base := b\<rparr>) = bf_allowHoles s"
    "bf_cache_offset (s\<lparr>mf_base := b\<rparr>) = bf_cache_offset s" "bf_cache_data (s\<lparr>mf_base := b\<rparr>) = bf_cache_data s"
    by (cases s; simp)+
  note new = mac_stack.auth_mac_file [OF mac_stack_axioms, of uniqueIV iv holes]
  have "fio_setIV (mac_fileio menv) iv s = (Inr True, s\<lparr>mf_base := b\<rparr>)"
    using b(1) by (simp add: mac_fileio_def cipher_fileio_def mac_on_base_def io_lift_def)
  moreover have "mac_file.mac_holds menv (block_device.flat (cipher_file.cipher_holds env raw_holds bs uniqueIV iv holes))
      n m k holes (\<lambda>d. holes \<longrightarrow> hole_safe (SSL_blockEncode lib cph key) bs d) c (s\<lparr>mf_base := b\<rparr>)"
    unfolding mac_file.mac_holds_def [OF new]
    by (intro conjI exI [of _ raw]) (use geo b(2) len blocks frame in simp_all)
  moreover have "coherent c (s\<lparr>mf_base := b\<rparr>)" using h(2) unfolding coherent_def frame .
  ultimately show ?thesis using b(3) mac_file.mac_flat_iff [OF new] by (intro exI [of _ "s\<lparr>mf_base := b\<rparr>"]) simp
qed

end

lemma renamed_mac_session:
  assumes k: "mac_stack sys opened lib cph key bs tries n m k"
    and env: "env = ssl_env sys lib cph key tries" "menv = ssl_mac_env sys lib cph key tries"
    and raw: "posix_file.raw_holds opened [] b" "raw_canWrite b" and iv: "oldIV \<noteq> 0"
    and safe: "holes \<Longrightarrow> along (blocks_safe (SSL_blockEncode lib cph key) bs (m + k)) (xs @ ys) []"
    and first: "open_mac_file env bs m k holes noCache warn True oldIV b rng = Inr s" "list_all op_ok xs"
      "exec (mac_fileio menv) xs s = (rs, s1)"
    and second: "list_all op_ok ys"
  shows "\<exists>s2. fio_setIV (mac_fileio menv) newIV s1 = (Inr True, s2) \<and>
    fst (exec (mac_fileio menv) ys s2) = fst (flat_exec ys (snd (flat_exec xs []))) \<and>
    (\<forall>noCache' warn' rng' s3.
       open_mac_file env bs m k holes noCache' warn' True newIV (cf_base (mf_base s2)) rng' = Inr s3 \<longrightarrow>
       fst (exec (mac_fileio menv) ys s3) = fst (flat_exec ys (snd (flat_exec xs []))))"
proof -
  let ?c = "snd (flat_exec xs [])"
  let ?flat = "\<lambda>iv. block_device.flat (mac_file.mac_holds menv
    (block_device.flat (cipher_file.cipher_holds env (posix_file.raw_holds opened) bs True iv holes))
    n m k holes (\<lambda>d. holes \<longrightarrow> hole_safe (SSL_blockEncode lib cph key) bs d))"
  note clear = mac_stack.mac_clear_along [OF k, where holes = holes, OF safe]
  note opened = mac_stack.opened_mac_base [OF k]
  have e: "?flat oldIV [] s" using mac_stack.new_mac_empty [OF k first(1) [unfolded env] raw(1)] unfolding env .
  have "raw_canWrite (cf_base (mf_base s))" using opened [OF first(1) [unfolded env]] raw(2) by simp
  then have f: "?flat oldIV ?c s1" "raw_canWrite (cf_base (mf_base s1))"
    using mac_stack.mac_exec [OF k e [unfolded env] _ first(2) clear [THEN conjunct1]] first(3) unfolding env by auto
  obtain s2 where s2: "fio_setIV (mac_fileio menv) newIV s1 = (Inr True, s2)" "?flat newIV ?c s2" "raw_canWrite (cf_base (mf_base s2))"
    using mac_stack.mac_setIV_flat [OF k TrueI iv f(1) [unfolded env] f(2), of newIV] unfolding env by auto
  have now: "fst (exec (mac_fileio menv) ys s2) = fst (flat_exec ys ?c)"
    using mac_stack.mac_exec [OF k s2(2) [unfolded env] s2(3) second clear [THEN conjunct2]] unfolding env by auto
  have later: "fst (exec (mac_fileio menv) ys s3) = fst (flat_exec ys ?c)"
    if "open_mac_file env bs m k holes nc wn True newIV (cf_base (mf_base s2)) r = Inr s3" for nc wn r s3
  proof -
    have "raw_canWrite (cf_base (mf_base s3))" using opened [OF that [unfolded env]] s2(3) by simp
    from mac_stack.mac_exec [OF k mac_stack.new_mac_same [OF k that [unfolded env] s2(2) [unfolded env]] this second
        clear [THEN conjunct2]]
    show ?thesis unfolding env by auto
  qed
  show ?thesis using s2(1) now later by auto
qed

section \<open>The instance\<close>

lemma xor_draw: "fst (draw_iv (RAND_bytes xor_lib) (Suc 0) rng) = Inr (Some (replicate 8 7))"
proof -
  have "bytes_to_iv (replicate 8 7) = 0x0707070707070707"
    by code_simp
  then show ?thesis by (simp add: xor_lib_def)
qed

interpretation mem_xor: cipher_stack "mem_sys 5" mem_opened xor_lib xor_aes xor_key 64 "Suc 0" uniqueIV xiv holes
  for uniqueIV xiv holes
  by unfold_locales (simp, blast intro: xor_draw)

interpretation mem_xor_mac: mac_stack "mem_sys 5" mem_opened xor_lib xor_aes xor_key 64 "Suc 0" uniqueIV xiv holes 52 8 4
  for uniqueIV xiv holes
  by unfold_locales (simp_all add: xor_lib_def)

definition mem_raw :: "bytes rawfileio" where
  "mem_raw = snd (raw_open (mem_sys 5) O_RDWR (RawFileIO_new (str ''f'') []))"

lemma mem_raw_facts:
  "0 \<le> raw_fd mem_raw" "raw_canWrite mem_raw" "\<not> raw_knownSize mem_raw" "raw_world mem_raw = []"
  by (simp_all add: mem_raw_def raw_open_def RawFileIO_new_def mem_sys_def EACCES_def O_RDWR_def O_LARGEFILE_def)

text \<open>The primitives of the instance take no block with a zero byte for a hole.\<close>

lemma xor_hole_safe:
  assumes "0 \<in> set d \<or> length d \<noteq> bs"
  shows "hole_safe (SSL_blockEncode xor_lib xor_aes xor_key) bs d"
proof -
  have "all_zero d" if "SSL_blockEncode xor_lib xor_aes xor_key d v = Inr (Some q)" "all_zero q" "0 \<in> set d" for v q
  proof -
    note enc = that(1) and zero = that(3)
    have f: "EVP_Encrypt xor_lib c k i = map (\<lambda>b. b XOR byte_sum (k @ i))" for c k i by (simp add: xor_lib_def)
    obtain x where "q = map (\<lambda>b. b XOR x) d"
      using enc unfolding SSL_blockEncode_def xor_aes.check_key_ok xor_aes.setIVec_ok evp_pass_def f
      by (auto split: if_splits)
    then have eq: "b = x" if "b \<in> set d" for b using that \<open>all_zero q\<close> xor_eq_0_iff [of b x] by (auto simp: all_zero_def)
    then show ?thesis using zero by (auto simp: all_zero_def)
  qed
  then show ?thesis using assms unfolding hole_safe_def by blast
qed

lemma xor_blocks_safe:
  assumes "h + 1 < bs"
  shows "blocks_safe (SSL_blockEncode xor_lib xor_aes xor_key) bs h (replicate a 0 @ [x])"
proof -
  have "0 \<in> set (hd @ blk (bs - h) j (replicate a 0 @ [x])) \<or> length (hd @ blk (bs - h) j (replicate a 0 @ [x])) \<noteq> bs"
    if "length hd = h" for hd j
  proof (cases "length (blk (bs - h) j (replicate a 0 @ [x])) = bs - h")
    case True
    moreover have "length (blk (bs - h) j (replicate a 0 @ [x])) \<le> a + 1 - j * (bs - h)"
      by (simp add: blk_def del: drop_append take_append)
    ultimately have "j * (bs - h) < a" using assms by linarith
    then have "0 \<in> set (blk (bs - h) j (replicate a 0 @ [x]))" using assms by (auto simp: blk_def take_Cons' drop_replicate)
    then show ?thesis by simp
  next
    case False
    then show ?thesis using that assms by auto
  qed
  then show ?thesis unfolding blocks_safe_def using xor_hole_safe by blast
qed

section \<open>Properties\<close>

text \<open>
  Claim C36. \<open>RawFileIO::write\<close> writes the whole request at its offset, however short the single
  writes of the system are, and reports its length; a later read gives the bytes back, and a later
  size query gives the new length, whether the object remembers the size of the file or asks the
  system. (The system is one whose calls do not fail.)
\<close>

theorem raw_write_complete:
  assumes "posix_file sys False opened" "0 \<le> raw_fd s" "raw_canWrite s" "d \<noteq> []"
    and "raw_knownSize s \<Longrightarrow> raw_fileSize s = int (length c)"
    and "opened (raw_name s) (raw_fd s) c (raw_world s)" "raw_write sys off d s = (r, s')"
  shows "r = Inr (int (length d)) \<and> opened (raw_name s) (raw_fd s) (overlay off d c) (raw_world s') \<and>
    fst (raw_read sys off (length d) s') = Inr (Inr d) \<and>
    raw_knownSize s' = raw_knownSize s \<and> fst (raw_getSize sys s') = Inr (int (length (overlay off d c)))"
proof -
  obtain q w where loop: "raw_write_loop sys (raw_fd s) d off (raw_world s) = (q, w)" by fastforce
  have q: "0 < q" "opened (raw_name s) (raw_fd s) (overlay off d c) w"
    using posix_file.raw_write_loop_law [OF assms(1) assms(6) loop] assms(4) by auto
  have s': "r = Inr (int (length d))" "raw_world s' = w" "raw_fd s' = raw_fd s" "raw_name s' = raw_name s"
    "raw_knownSize s' = raw_knownSize s"
    "raw_fileSize s' = (if raw_knownSize s \<and> int (off + length d) > raw_fileSize s then int (off + length d) else raw_fileSize s)"
    using assms(2,3,7) loop q(1) by (auto simp: raw_write_def Let_def)
  obtain x w' where rd: "sys_pread sys (raw_fd s) (length d) off w = (x, w')" by fastforce
  obtain y w'' where ls: "sys_lstat sys (raw_name s) w = (y, w'')" by fastforce
  have "x = Inr d" using posix_file.pread [OF assms(1) q(2) rd] by (simp add: overlay_slice)
  then have "fst (raw_read sys off (length d) s') = Inr (Inr d)" using assms(2) s' rd by (simp add: raw_read_def)
  moreover have "fst (raw_getSize sys s') = Inr (int (length (overlay off d c)))"
    using posix_file.lstat [OF assms(1) q(2) ls] s' ls assms(5) by (auto simp: raw_getSize_def)
  ultimately show ?thesis using q(2) s' by simp
qed

theorem raw_write_complete_witness:
  "fst (raw_write (mem_sys 5) 3 [1, 2, 3, 4, 5, 6, 7, 8, 9, 10, 11] (snd (raw_getSize (mem_sys 5) mem_raw))) = Inr 11 \<and>
   fst (raw_getSize (mem_sys 5) (snd (raw_write (mem_sys 5) 3 [1, 2, 3, 4, 5, 6, 7, 8, 9, 10, 11]
     (snd (raw_getSize (mem_sys 5) mem_raw))))) = Inr 14"
proof -
  let ?s = "snd (raw_getSize (mem_sys 5) mem_raw)"
  have s: "0 \<le> raw_fd ?s" "raw_canWrite ?s" "raw_fileSize ?s = int (length ([] :: bytes))" "raw_world ?s = []"
    using mem_raw_facts by (simp_all add: raw_getSize_def mem_sys_def)
  then show ?thesis
    using raw_write_complete [OF mem.posix_file_axioms s(1,2), of "[1, 2, 3, 4, 5, 6, 7, 8, 9, 10, 11]" "[]" 3]
    by (cases "raw_write (mem_sys 5) 3 [1, 2, 3, 4, 5, 6, 7, 8, 9, 10, 11] ?s") (simp add: mem_opened_def)
qed

text \<open>
  Claim C1. The encrypted file of a volume in forward (not reverse) mode. Over a system and primitives
  that keep their laws, a client that opens an empty file and issues any reads, writes and size
  queries at any offsets sees exactly the answers of a flat byte string (of a write: the number of bytes
  asked for); and when the file is opened again with the same key and the same vector, the next
  client goes on with that string. This holds with and without the header of a unique vector, with
  and without the block cache, and with and without holes passed through (which is the default).
  With holes there is a condition on the data: in no content that the clients produce
  is there a full block that is not all zeros and that encrypts to zeros.
\<close>

theorem encrypted_file_refines:
  assumes laws: "posix_file sys False opened" "openssl_laws lib" "cipher_ok lib cph" "key_ok cph key"
    and block: "1 < bs" "bs mod EVP_block_size lib (ssl_blockCipher cph) = 0"
    and random: "\<And>rng. \<exists>buf. fst (draw_iv (RAND_bytes lib) tries rng) = Inr (Some buf)"
    and raw: "0 \<le> raw_fd b" "raw_canWrite b" "raw_knownSize b \<Longrightarrow> raw_fileSize b = 0"
      "opened (raw_name b) (raw_fd b) [] (raw_world b)"
    and env: "env = ssl_env sys lib cph key tries"
    and holes: "allowHoles \<Longrightarrow> along (blocks_safe (SSL_blockEncode lib cph key) bs 0) (xs @ ys) []"
    and first: "open_cipher_file env bs allowHoles noCache uniqueIV iv b rng = Inr s" "list_all op_ok xs"
      "exec (cipher_fileio env) xs s = (rs, s1)"
    and second: "open_cipher_file env bs allowHoles noCache' uniqueIV iv (cf_base s1) rng' = Inr s2" "list_all op_ok ys"
  shows "rs = fst (flat_exec xs []) \<and>
    fst (exec (cipher_fileio env) ys s2) = fst (flat_exec ys (snd (flat_exec xs [])))"
proof -
  have k: "cipher_stack sys opened lib cph key bs tries" by (rule cipher_stack_of [OF laws block random])
  have "posix_file.raw_holds opened [] b" using raw by (simp add: posix_file.raw_holds_def [OF laws(1)])
  moreover note cipher_stack.clear_along [OF k, where holes = allowHoles, OF holes]
  ultimately show ?thesis
    using cipher_stack.two_sessions [OF k _ raw(2) first(1) [unfolded env] first(2) first(3) [unfolded env] _
        second(1) [unfolded env] second(2)] unfolding env by blast
qed

lemma xor_random: "\<exists>buf. fst (draw_iv (RAND_bytes xor_lib) (Suc 0) rng) = Inr (Some buf)"
  using xor_draw by blast

lemma xor_block: "64 mod EVP_block_size xor_lib (ssl_blockCipher xor_aes) = 0"
  by (simp add: xor_lib_def xor_aes_def)

lemma mem_raw_empty: "raw_knownSize mem_raw \<Longrightarrow> raw_fileSize mem_raw = 0"
  "mem_opened (raw_name mem_raw) (raw_fd mem_raw) [] (raw_world mem_raw)"
  using mem_raw_facts by (simp_all add: mem_opened_def)

lemma mem_open_ok:
  "\<exists>s. open_cipher_file (ssl_env (mem_sys 5) xor_lib xor_aes xor_key (Suc 0)) 64 holes noCache uniqueIV iv b rng = Inr s"
  by (simp add: open_cipher_file_def CipherFileIO_new_def cipher_setIV_def io_bind_split io_simps on_base_def
      raw_fileio_def FileIO_setIV_def ssl_as_cipher_def xor_lib_def xor_aes_def)

text \<open>One byte far behind the end of an empty file: the sparse file of the witnesses.\<close>

lemma sparse_safe:
  assumes "h + 1 < bs" "list_all (\<lambda>x. \<forall>off d. x \<noteq> Write off d) ops"
  shows "along (blocks_safe (SSL_blockEncode xor_lib xor_aes xor_key) bs h) (Write a [x] # ops) []"
proof -
  have "along (blocks_safe (SSL_blockEncode xor_lib xor_aes xor_key) bs h) ops (replicate a 0 @ [x])"
    using assms(2)
  proof (induction ops)
    case (Cons y ys)
    then show ?case using xor_blocks_safe [OF assms(1)] by (cases y) auto
  qed simp
  then show ?thesis using xor_blocks_safe [OF assms(1)] by (simp add: overlay_def pad_to_def)
qed

theorem encrypted_file_refines_witness:
  "\<exists>s s1 s2.
     open_cipher_file (ssl_env (mem_sys 5) xor_lib xor_aes xor_key (Suc 0)) 64 True False True 9 mem_raw 0 = Inr s \<and>
     exec (cipher_fileio (ssl_env (mem_sys 5) xor_lib xor_aes xor_key (Suc 0))) [Write 200 [7], Read 198 3] s
       = ([Written 1, Data [0, 0, 7]], s1) \<and>
     open_cipher_file (ssl_env (mem_sys 5) xor_lib xor_aes xor_key (Suc 0)) 64 True True True 9 (cf_base s1) 5 = Inr s2 \<and>
     fst (exec (cipher_fileio (ssl_env (mem_sys 5) xor_lib xor_aes xor_key (Suc 0))) [Size, Read 62 3, Read 199 9] s2)
       = [Length 201, Data [0, 0, 0], Data [0, 7]]"
proof -
  let ?env = "ssl_env (mem_sys 5) xor_lib xor_aes xor_key (Suc 0)"
  let ?xs = "[Write 200 [7], Read 198 3]" and ?ys = "[Size, Read 62 3, Read 199 9]"
  obtain s where s: "open_cipher_file ?env 64 True False True 9 mem_raw 0 = Inr s" using mem_open_ok by blast
  obtain rs s1 where r: "exec (cipher_fileio ?env) ?xs s = (rs, s1)" by fastforce
  obtain s2 where s2: "open_cipher_file ?env 64 True True True 9 (cf_base s1) 5 = Inr s2" using mem_open_ok by blast
  have safe: "along (blocks_safe (SSL_blockEncode xor_lib xor_aes xor_key) 64 0) (?xs @ ?ys) []"
    using sparse_safe [of 0 64 "Read 198 3 # ?ys" 200 7] by simp
  have "rs = fst (flat_exec ?xs []) \<and> fst (exec (cipher_fileio ?env) ?ys s2) = fst (flat_exec ?ys (snd (flat_exec ?xs [])))"
    by (rule encrypted_file_refines [OF mem.posix_file_axioms xor_laws.openssl_laws_axioms xor_aes_ok xor_key_ok _ xor_block
          xor_random mem_raw_facts(1,2) mem_raw_empty refl safe s _ r s2]) simp_all
  moreover have "fst (flat_exec ?xs []) = [Written 1, Data [0, 0, 7]]" by code_simp
  moreover have "fst (flat_exec ?ys (snd (flat_exec ?xs []))) = [Length 201, Data [0, 0, 0], Data [0, 7]]" by code_simp
  ultimately show ?thesis using s r s2 by auto
qed

text \<open>
  Claim C2. The authenticated file, in forward mode: the same for \<open>MACFileIO\<close> above \<open>CipherFileIO\<close>,
  where every block carries \<open>m\<close> bytes of a MAC and \<open>k\<close> random bytes. Clients see a flat byte
  string; the headers, their authentication and the two levels of blocks and caches are
  invisible. This holds with and without holes passed through and with errors fatal or only
  warned of. With holes the condition is that in no content that the clients produce there is
  a full block of data that with some header is not all zeros and encrypts to zeros.
\<close>

theorem authenticated_file_refines:
  assumes laws: "posix_file sys False opened" "openssl_laws lib" "cipher_ok lib cph" "key_ok cph key"
    and block: "bs mod EVP_block_size lib (ssl_blockCipher cph) = 0" "1 + m + k < bs" "bs < 2 ^ 31" "m \<le> 8"
    and random: "\<And>rng. \<exists>buf. fst (draw_iv (RAND_bytes lib) tries rng) = Inr (Some buf)"
      "\<And>len rng. fst (RAND_bytes lib len rng) \<noteq> None"
    and raw: "0 \<le> raw_fd b" "raw_canWrite b" "raw_knownSize b \<Longrightarrow> raw_fileSize b = 0"
      "opened (raw_name b) (raw_fd b) [] (raw_world b)"
    and env: "env = ssl_env sys lib cph key tries" "menv = ssl_mac_env sys lib cph key tries"
    and holes: "allowHoles \<Longrightarrow> along (blocks_safe (SSL_blockEncode lib cph key) bs (m + k)) (xs @ ys) []"
    and first: "open_mac_file env bs m k allowHoles noCache warn uniqueIV iv b rng = Inr s" "list_all op_ok xs"
      "exec (mac_fileio menv) xs s = (rs, s1)"
    and second: "open_mac_file env bs m k allowHoles noCache' warn' uniqueIV iv (cf_base (mf_base s1)) rng' = Inr s2"
      "list_all op_ok ys"
  shows "rs = fst (flat_exec xs []) \<and>
    fst (exec (mac_fileio menv) ys s2) = fst (flat_exec ys (snd (flat_exec xs [])))"
proof -
  have k: "mac_stack sys opened lib cph key bs tries (bs - m - k) m k" by (rule mac_stack_of [OF laws block random])
  have "posix_file.raw_holds opened [] b" using raw by (simp add: posix_file.raw_holds_def [OF laws(1)])
  moreover note mac_stack.mac_clear_along [OF k, where holes = allowHoles, OF holes]
  ultimately show ?thesis
    using mac_stack.two_mac_sessions [OF k _ raw(2) first(1) [unfolded env] first(2) first(3) [unfolded env] _
        second(1) [unfolded env] second(2)] unfolding env by blast
qed

lemma mem_open_mac_ok:
  "\<exists>s. open_mac_file (ssl_env (mem_sys 5) xor_lib xor_aes xor_key (Suc 0)) 64 8 4 holes noCache warn uniqueIV iv b rng = Inr s"
  using mem_open_ok [of holes noCache uniqueIV iv b rng] by (auto simp: open_mac_file_def MACFileIO_new_def dataBlockSize_def)

lemma xor_rand_some: "fst (RAND_bytes xor_lib len rng) \<noteq> None"
  by (simp add: xor_lib_def)

theorem authenticated_file_refines_witness:
  "\<exists>s s1 s2.
     open_mac_file (ssl_env (mem_sys 5) xor_lib xor_aes xor_key (Suc 0)) 64 8 4 True False False True 9 mem_raw 0 = Inr s \<and>
     exec (mac_fileio (ssl_mac_env (mem_sys 5) xor_lib xor_aes xor_key (Suc 0))) [Write 150 [7], Size] s
       = ([Written 1, Length 151], s1) \<and>
     open_mac_file (ssl_env (mem_sys 5) xor_lib xor_aes xor_key (Suc 0)) 64 8 4 True True False True 9 (cf_base (mf_base s1)) 5 = Inr s2 \<and>
     fst (exec (mac_fileio (ssl_mac_env (mem_sys 5) xor_lib xor_aes xor_key (Suc 0))) [Read 51 3, Read 149 9] s2)
       = [Data [0, 0, 0], Data [0, 7]]"
proof -
  let ?env = "ssl_env (mem_sys 5) xor_lib xor_aes xor_key (Suc 0)"
  let ?menv = "ssl_mac_env (mem_sys 5) xor_lib xor_aes xor_key (Suc 0)"
  let ?xs = "[Write 150 [7], Size]" and ?ys = "[Read 51 3, Read 149 9]"
  obtain s where s: "open_mac_file ?env 64 8 4 True False False True 9 mem_raw 0 = Inr s" using mem_open_mac_ok by blast
  obtain rs s1 where r: "exec (mac_fileio ?menv) ?xs s = (rs, s1)" by fastforce
  obtain s2 where s2: "open_mac_file ?env 64 8 4 True True False True 9 (cf_base (mf_base s1)) 5 = Inr s2"
    using mem_open_mac_ok by blast
  have safe: "along (blocks_safe (SSL_blockEncode xor_lib xor_aes xor_key) 64 (8 + 4)) (?xs @ ?ys) []"
    using sparse_safe [of 12 64 "Size # ?ys" 150 7] by simp
  have "rs = fst (flat_exec ?xs []) \<and> fst (exec (mac_fileio ?menv) ?ys s2) = fst (flat_exec ?ys (snd (flat_exec ?xs [])))"
    by (rule authenticated_file_refines [OF mem.posix_file_axioms xor_laws.openssl_laws_axioms xor_aes_ok xor_key_ok
          xor_block _ _ _ xor_random xor_rand_some mem_raw_facts(1,2) mem_raw_empty refl refl safe s _ r s2]) simp_all
  moreover have "fst (flat_exec ?xs []) = [Written 1, Length 151]" by code_simp
  moreover have "fst (flat_exec ?ys (snd (flat_exec ?xs []))) = [Data [0, 0, 0], Data [0, 7]]" by code_simp
  ultimately show ?thesis using s r s2 by auto
qed

text \<open>
  Claim C20. Renaming a file of a volume with external vectors (forward mode). \<open>CipherFileIO::setIV\<close> on a
  file open for writing re-encrypts the header for the vector of the new name and succeeds; the client that
  has the file open goes on with the same content, and so does one that opens it under the new
  name. With and without holes passed through, with the condition on blocks of the encrypted file.
\<close>

theorem rename_keeps_content:
  assumes laws: "posix_file sys False opened" "openssl_laws lib" "cipher_ok lib cph" "key_ok cph key"
    and block: "1 < bs" "bs mod EVP_block_size lib (ssl_blockCipher cph) = 0"
    and random: "\<And>rng. \<exists>buf. fst (draw_iv (RAND_bytes lib) tries rng) = Inr (Some buf)"
    and raw: "0 \<le> raw_fd b" "raw_canWrite b" "raw_knownSize b \<Longrightarrow> raw_fileSize b = 0"
      "opened (raw_name b) (raw_fd b) [] (raw_world b)"
    and env: "env = ssl_env sys lib cph key tries" and iv: "oldIV \<noteq> 0"
    and holes: "allowHoles \<Longrightarrow> along (blocks_safe (SSL_blockEncode lib cph key) bs 0) (xs @ ys) []"
    and first: "open_cipher_file env bs allowHoles noCache True oldIV b rng = Inr s" "list_all op_ok xs"
      "exec (cipher_fileio env) xs s = (rs, s1)"
    and second: "list_all op_ok ys"
  shows "\<exists>s2. fio_setIV (cipher_fileio env) newIV s1 = (Inr True, s2) \<and>
    fst (exec (cipher_fileio env) ys s2) = fst (flat_exec ys (snd (flat_exec xs []))) \<and>
    (\<forall>noCache' rng' s3. open_cipher_file env bs allowHoles noCache' True newIV (cf_base s2) rng' = Inr s3 \<longrightarrow>
       fst (exec (cipher_fileio env) ys s3) = fst (flat_exec ys (snd (flat_exec xs []))))"
proof -
  have k: "cipher_stack sys opened lib cph key bs tries" by (rule cipher_stack_of [OF laws block random])
  have "posix_file.raw_holds opened [] b" using raw by (simp add: posix_file.raw_holds_def [OF laws(1)])
  from renamed_session [OF k env this raw(2) iv holes first second] show ?thesis by (simp add: cipher_fileio_def)
qed

theorem rename_keeps_content_witness:
  "\<exists>s rs s1 s2.
     open_cipher_file (ssl_env (mem_sys 5) xor_lib xor_aes xor_key (Suc 0)) 64 True False True 9 mem_raw 0 = Inr s \<and>
     exec (cipher_fileio (ssl_env (mem_sys 5) xor_lib xor_aes xor_key (Suc 0))) [Write 70 [3]] s = (rs, s1) \<and>
     fio_setIV (cipher_fileio (ssl_env (mem_sys 5) xor_lib xor_aes xor_key (Suc 0))) 11 s1 = (Inr True, s2) \<and>
     fst (exec (cipher_fileio (ssl_env (mem_sys 5) xor_lib xor_aes xor_key (Suc 0))) [Read 69 9] s2) = [Data [0, 3]]"
proof -
  let ?env = "ssl_env (mem_sys 5) xor_lib xor_aes xor_key (Suc 0)"
  obtain s where s: "open_cipher_file ?env 64 True False True 9 mem_raw 0 = Inr s" using mem_open_ok by blast
  obtain rs s1 where r: "exec (cipher_fileio ?env) [Write 70 [3]] s = (rs, s1)" by fastforce
  have ops: "list_all op_ok [Write 70 [3]]" "list_all op_ok [Read 69 9]" by simp_all
  have safe: "along (blocks_safe (SSL_blockEncode xor_lib xor_aes xor_key) 64 0) ([Write 70 [3]] @ [Read 69 9]) []"
    using sparse_safe [of 0 64 "[Read 69 9]" 70 3] by simp
  obtain s2 where s2: "fio_setIV (cipher_fileio ?env) 11 s1 = (Inr True, s2)"
    "fst (exec (cipher_fileio ?env) [Read 69 9] s2) = fst (flat_exec [Read 69 9] (snd (flat_exec [Write 70 [3]] [])))"
    using rename_keeps_content [OF mem.posix_file_axioms xor_laws.openssl_laws_axioms xor_aes_ok xor_key_ok _ xor_block xor_random
          mem_raw_facts(1,2) mem_raw_empty refl _ safe s ops(1) r ops(2), of 11] by auto
  moreover have "fst (flat_exec [Read 69 9] (snd (flat_exec [Write 70 [3]] []))) = [Data [0, 3]]" by code_simp
  ultimately show ?thesis using s r by auto
qed

text \<open>
  Claim C0. The same for the authenticated file, the stack of a volume in paranoia mode:
  \<open>MACFileIO\<close> passes the new vector down, the header of the encrypted file is rewritten, and the
  clients before and after the renaming see one content.
\<close>

theorem authenticated_rename_keeps_content:
  assumes laws: "posix_file sys False opened" "openssl_laws lib" "cipher_ok lib cph" "key_ok cph key"
    and block: "bs mod EVP_block_size lib (ssl_blockCipher cph) = 0" "1 + m + k < bs" "bs < 2 ^ 31" "m \<le> 8"
    and random: "\<And>rng. \<exists>buf. fst (draw_iv (RAND_bytes lib) tries rng) = Inr (Some buf)"
      "\<And>len rng. fst (RAND_bytes lib len rng) \<noteq> None"
    and raw: "0 \<le> raw_fd b" "raw_canWrite b" "raw_knownSize b \<Longrightarrow> raw_fileSize b = 0"
      "opened (raw_name b) (raw_fd b) [] (raw_world b)"
    and env: "env = ssl_env sys lib cph key tries" "menv = ssl_mac_env sys lib cph key tries" and iv: "oldIV \<noteq> 0"
    and holes: "allowHoles \<Longrightarrow> along (blocks_safe (SSL_blockEncode lib cph key) bs (m + k)) (xs @ ys) []"
    and first: "open_mac_file env bs m k allowHoles noCache warn True oldIV b rng = Inr s" "list_all op_ok xs"
      "exec (mac_fileio menv) xs s = (rs, s1)"
    and second: "list_all op_ok ys"
  shows "\<exists>s2. fio_setIV (mac_fileio menv) newIV s1 = (Inr True, s2) \<and>
    fst (exec (mac_fileio menv) ys s2) = fst (flat_exec ys (snd (flat_exec xs []))) \<and>
    (\<forall>noCache' warn' rng' s3.
       open_mac_file env bs m k allowHoles noCache' warn' True newIV (cf_base (mf_base s2)) rng' = Inr s3 \<longrightarrow>
       fst (exec (mac_fileio menv) ys s3) = fst (flat_exec ys (snd (flat_exec xs []))))"
proof -
  have k: "mac_stack sys opened lib cph key bs tries (bs - m - k) m k" by (rule mac_stack_of [OF laws block random])
  have "posix_file.raw_holds opened [] b" using raw by (simp add: posix_file.raw_holds_def [OF laws(1)])
  from renamed_mac_session [OF k env this raw(2) iv holes first second] show ?thesis .
qed

theorem authenticated_rename_keeps_content_witness:
  "\<exists>s rs s1 s2.
     open_mac_file (ssl_env (mem_sys 5) xor_lib xor_aes xor_key (Suc 0)) 64 8 4 True False False True 9 mem_raw 0 = Inr s \<and>
     exec (mac_fileio (ssl_mac_env (mem_sys 5) xor_lib xor_aes xor_key (Suc 0))) [Write 70 [3]] s = (rs, s1) \<and>
     fio_setIV (mac_fileio (ssl_mac_env (mem_sys 5) xor_lib xor_aes xor_key (Suc 0))) 11 s1 = (Inr True, s2) \<and>
     fst (exec (mac_fileio (ssl_mac_env (mem_sys 5) xor_lib xor_aes xor_key (Suc 0))) [Read 69 9] s2) = [Data [0, 3]]"
proof -
  let ?env = "ssl_env (mem_sys 5) xor_lib xor_aes xor_key (Suc 0)"
  let ?menv = "ssl_mac_env (mem_sys 5) xor_lib xor_aes xor_key (Suc 0)"
  obtain s where s: "open_mac_file ?env 64 8 4 True False False True 9 mem_raw 0 = Inr s" using mem_open_mac_ok by blast
  obtain rs s1 where r: "exec (mac_fileio ?menv) [Write 70 [3]] s = (rs, s1)" by fastforce
  have ops: "list_all op_ok [Write 70 [3]]" "list_all op_ok [Read 69 9]" by simp_all
  have safe: "along (blocks_safe (SSL_blockEncode xor_lib xor_aes xor_key) 64 (8 + 4)) ([Write 70 [3]] @ [Read 69 9]) []"
    using sparse_safe [of 12 64 "[Read 69 9]" 70 3] by simp
  have sizes: "1 + 8 + 4 < (64 :: nat)" "(64 :: nat) < 2 ^ 31" "8 \<le> (8 :: nat)" "(9 :: u64) \<noteq> 0" by simp_all
  obtain s2 where s2: "fio_setIV (mac_fileio ?menv) 11 s1 = (Inr True, s2)"
    "fst (exec (mac_fileio ?menv) [Read 69 9] s2) = fst (flat_exec [Read 69 9] (snd (flat_exec [Write 70 [3]] [])))"
    using authenticated_rename_keeps_content [OF mem.posix_file_axioms xor_laws.openssl_laws_axioms xor_aes_ok xor_key_ok
          xor_block sizes(1-3) xor_random xor_rand_some mem_raw_facts(1,2) mem_raw_empty refl refl sizes(4) safe s ops(1) r ops(2),
          of 11] by auto
  moreover have "fst (flat_exec [Read 69 9] (snd (flat_exec [Write 70 [3]] []))) = [Data [0, 3]]" by code_simp
  ultimately show ?thesis using s r by auto
qed

end
