(* ===== verification/Name_IO.thy ===== *)
theory Name_IO
  imports SSL_Cipher
begin

text \<open>
  The coding of file names (\<^verbatim>\<open>encfs/NameIO.cpp\<close>, \<^verbatim>\<open>encfs/BlockNameIO.cpp\<close>,
  \<^verbatim>\<open>encfs/StreamNameIO.cpp\<close>, \<^verbatim>\<open>encfs/NullNameIO.cpp\<close>).

  \<^item> An implementation is the record \<open>nameio\<close>: the two bounds on lengths, the two coders of one
    name, and the two flags of the base class. A coder gets the name, the chained vector
    (\<open>None\<close> for a null pointer) and the size of the output buffer; it gives the bytes it wrote,
    whose number is the value it returns, and the vector afterwards.
  \<^item> The output buffer is zeroed by the caller and larger than the bound, and no coder writes
    behind what it reports, so the byte behind the result is NUL, as the callers assert.
  \<^item> \<open>recodePath\<close> applies a coder to every component of a path.

  \<open>name_codec\<close> is the contract of an implementation: decoding inverts encoding and gives the
  same chained vector, an encoded name has no slash and is neither \<open>.\<close> nor \<open>..\<close>. From it the
  locale derives that whole paths are recovered.
\<close>

section \<open>The interface\<close>

type_synonym name_coder = "bytes \<Rightarrow> u64 option \<Rightarrow> nat \<Rightarrow> exn + bytes \<times> u64 option"

record nameio =
  nio_interface :: interface
  nio_maxEncodedNameLen :: "nat \<Rightarrow> int"
  nio_maxDecodedNameLen :: "nat \<Rightarrow> int"
  nio_encodeName :: name_coder
  nio_decodeName :: name_coder
  nio_chainedNameIV :: bool
  nio_reverseEncryption :: bool

definition setChainedNameIV :: "bool \<Rightarrow> nameio \<Rightarrow> nameio" where
  "setChainedNameIV enable io = io\<lparr>nio_chainedNameIV := enable\<rparr>"

definition setReverseEncryption :: "bool \<Rightarrow> nameio \<Rightarrow> nameio" where
  "setReverseEncryption enable io = io\<lparr>nio_reverseEncryption := enable\<rparr>"

abbreviation "slash \<equiv> (0x2f :: byte)"
abbreviation "dot \<equiv> (0x2e :: byte)"
abbreviation "plus_sign \<equiv> (0x2b :: byte)"

text \<open>\<open>BUFFER_INIT_S\<close> with 32 bytes on the stack: the size of the buffer.\<close>

definition bufSize :: "int \<Rightarrow> nat" where
  "bufSize approxLen = (if 32 < approxLen + 1 then nat (approxLen + 1) else 32)"

text \<open>A path is a C string: its bytes up to the terminating NUL. \<open>out\<close> is the output so far.\<close>

function recodePath ::
  "(nat \<Rightarrow> int) \<Rightarrow> name_coder \<Rightarrow> bytes \<Rightarrow> u64 option \<Rightarrow> bytes \<Rightarrow> exn + bytes \<times> u64 option" where
  "recodePath maxLen code path iv out =
     (if path = [] then Inr (out, iv)
      else if hd path = slash then recodePath maxLen code (tl path) iv (if out \<noteq> [] then out @ [slash] else out)
      else
        let comp = takeWhile (\<lambda>c. c \<noteq> slash) path;
            len = length comp;
            isDotFile = (hd path = dot)
        in if isDotFile \<and> last comp = dot \<and> len \<le> 2
           then recodePath maxLen code (drop len path) iv (out @ replicate len dot)
           else
             let approxLen = maxLen len in
             if approxLen \<le> 0 then Inl (Error ''Filename too small to decode'')
             else case code comp iv (bufSize approxLen) of Inl e \<Rightarrow> Inl e
               | Inr (coded, iv') \<Rightarrow>
                   if \<not> int (length coded) \<le> approxLen then Inl (Error ''codedLen <= approxLen'')
                   else recodePath maxLen code (drop len path) iv' (out @ takeWhile (\<lambda>c. c \<noteq> 0) coded))"
  by pat_completeness auto
termination
proof (relation "measure (\<lambda>(maxLen, code, path, iv, out). length path)")
  show "((maxLen, code, drop len path, iv', out'), maxLen, code, path, iv, out) \<in> measure (\<lambda>(maxLen, code, path, iv, out). length path)"
    if "path \<noteq> []" "hd path \<noteq> slash" "comp = takeWhile (\<lambda>c. c \<noteq> slash) path" "len = length comp"
    for maxLen :: "nat \<Rightarrow> int" and code :: name_coder and path iv iv' out out' comp len
    using that by (cases path) auto
qed (auto simp: neq_Nil_conv)

declare recodePath.simps [simp del]

text \<open>
  Without chaining the pointer to the vector is set to null, and the caller's vector stays as
  it is.
\<close>

definition encodePath_fwd :: "nameio \<Rightarrow> bytes \<Rightarrow> u64 \<Rightarrow> exn + bytes \<times> u64" where
  "encodePath_fwd io path iv =
     (case recodePath (nio_maxEncodedNameLen io) (nio_encodeName io) path
             (if nio_chainedNameIV io then Some iv else None) [] of
        Inl e \<Rightarrow> Inl e
      | Inr (out, iv') \<Rightarrow> Inr (out, case iv' of None \<Rightarrow> iv | Some v \<Rightarrow> v))"

definition decodePath_fwd :: "nameio \<Rightarrow> bytes \<Rightarrow> u64 \<Rightarrow> exn + bytes \<times> u64" where
  "decodePath_fwd io path iv =
     (case recodePath (nio_maxDecodedNameLen io) (nio_decodeName io) path
             (if nio_chainedNameIV io then Some iv else None) [] of
        Inl e \<Rightarrow> Inl e
      | Inr (out, iv') \<Rightarrow> Inr (out, case iv' of None \<Rightarrow> iv | Some v \<Rightarrow> v))"

definition encodePath :: "nameio \<Rightarrow> bytes \<Rightarrow> u64 \<Rightarrow> exn + bytes \<times> u64" where
  "encodePath io path iv =
     (if nio_reverseEncryption io then decodePath_fwd io path iv else encodePath_fwd io path iv)"

definition decodePath :: "nameio \<Rightarrow> bytes \<Rightarrow> u64 \<Rightarrow> exn + bytes \<times> u64" where
  "decodePath io path iv =
     (if nio_reverseEncryption io then encodePath_fwd io path iv else decodePath_fwd io path iv)"

text \<open>The two versions for one name, which have no vector.\<close>

definition encodeName_fwd :: "nameio \<Rightarrow> bytes \<Rightarrow> exn + bytes" where
  "encodeName_fwd io nm =
     (let approxLen = nio_maxEncodedNameLen io (length nm) in
      case nio_encodeName io nm None (bufSize approxLen) of Inl e \<Rightarrow> Inl e
      | Inr (coded, _) \<Rightarrow>
          if \<not> int (length coded) \<le> approxLen then Inl (Error ''codedLen <= approxLen'')
          else Inr (takeWhile (\<lambda>c. c \<noteq> 0) coded))"

definition decodeName_fwd :: "nameio \<Rightarrow> bytes \<Rightarrow> exn + bytes" where
  "decodeName_fwd io nm =
     (let approxLen = nio_maxDecodedNameLen io (length nm) in
      case nio_decodeName io nm None (bufSize approxLen) of Inl e \<Rightarrow> Inl e
      | Inr (coded, _) \<Rightarrow>
          if \<not> int (length coded) \<le> approxLen then Inl (Error ''codedLen <= approxLen'')
          else Inr (takeWhile (\<lambda>c. c \<noteq> 0) coded))"

definition encodeName :: "nameio \<Rightarrow> bytes \<Rightarrow> exn + bytes" where
  "encodeName io nm = (if nio_reverseEncryption io then decodeName_fwd io nm else encodeName_fwd io nm)"

definition decodeName :: "nameio \<Rightarrow> bytes \<Rightarrow> exn + bytes" where
  "decodeName io nm = (if nio_reverseEncryption io then encodeName_fwd io nm else decodeName_fwd io nm)"

section \<open>The registry\<close>

record 'n name_alg =
  na_hidden :: bool
  na_constructor :: "interface \<Rightarrow> 'n"
  na_description :: bytes
  na_iface :: interface

definition NameIO_Register ::
  "bytes \<Rightarrow> bytes \<Rightarrow> interface \<Rightarrow> (interface \<Rightarrow> 'n) \<Rightarrow> bool \<Rightarrow> (bytes \<times> 'n name_alg) list \<Rightarrow> (bytes \<times> 'n name_alg) list" where
  "NameIO_Register nm description iface constructor hidden gNameIOMap =
     multimap_insert nm
       \<lparr>na_hidden = hidden, na_constructor = constructor, na_description = description, na_iface = iface\<rparr> gNameIOMap"

definition NameIO_GetAlgorithmList :: "bool \<Rightarrow> (bytes \<times> 'n name_alg) list \<Rightarrow> (bytes \<times> bytes \<times> interface) list" where
  "NameIO_GetAlgorithmList includeHidden gNameIOMap =
     map (\<lambda>(n, a). (n, na_description a, na_iface a)) (filter (\<lambda>(n, a). includeHidden \<or> \<not> na_hidden a) gNameIOMap)"

definition NameIO_New_name :: "bytes \<Rightarrow> (bytes \<times> 'n name_alg) list \<Rightarrow> 'n option" where
  "NameIO_New_name nm gNameIOMap =
     (case map_of gNameIOMap nm of None \<Rightarrow> None | Some a \<Rightarrow> Some (na_constructor a (na_iface a)))"

definition NameIO_New :: "interface \<Rightarrow> (bytes \<times> 'n name_alg) list \<Rightarrow> 'n option" where
  "NameIO_New iface gNameIOMap =
     (case filter (\<lambda>(n, a). implements (na_iface a) iface) gNameIOMap of
        [] \<Rightarrow> None | (n, a) # _ \<Rightarrow> Some (na_constructor a iface))"

section \<open>NullNameIO\<close>

definition Null_name_coder :: name_coder where
  "Null_name_coder nm iv bufferLength =
     (if \<not> length nm \<le> bufferLength then Inl (Error ''length <= bufferLength'') else Inr (nm, iv))"

definition NNIOIface :: interface where
  "NNIOIface = Interface (str ''nameio/null'') 1 0 0"

definition NullNameIO :: nameio where
  "NullNameIO = \<lparr>nio_interface = NNIOIface, nio_maxEncodedNameLen = int, nio_maxDecodedNameLen = int,
     nio_encodeName = Null_name_coder, nio_decodeName = Null_name_coder,
     nio_chainedNameIV = False, nio_reverseEncryption = False\<rparr>"

section \<open>The checksum of a name\<close>

definition mac16_bytes :: "u32 \<Rightarrow> bytes" where
  "mac16_bytes mac = [ucast (drop_bit 8 mac AND 0xff), ucast (mac AND 0xff)]"

definition mac16_of :: "byte \<Rightarrow> byte \<Rightarrow> u32" where
  "mac16_of a b = push_bit 8 (ucast a) OR ucast b"

text \<open>The vector that enters the coding: the chained one from version \<open>v\<close> of the interface on.\<close>

definition chained_from :: "int \<Rightarrow> int \<Rightarrow> u64 option \<Rightarrow> u64" where
  "chained_from v iface iv = (case iv of None \<Rightarrow> 0 | Some x \<Rightarrow> if iface \<ge> v then x else 0)"

text \<open>
  The buffer \<open>tmpBuf\<close> of the decoders: the digits of the name, over whose beginning the base
  change has written the bytes they stand for.
\<close>

definition name_bytes :: "bool \<Rightarrow> bytes \<Rightarrow> bytes" where
  "name_bytes caseInsensitive nm =
     (if caseInsensitive then overlay 0 (changeBase2Inline (AsciiToB32 nm) 5 8 False) (AsciiToB32 nm)
      else overlay 0 (changeBase2Inline (AsciiToB64 nm) 6 8 False) (AsciiToB64 nm))"

section \<open>StreamNameIO\<close>

record ('k, 'r) streamnameio =
  sn_interface :: int
  sn_cipher :: "('k, 'r) cipher"
  sn_key :: 'k

definition Stream_maxEncodedNameLen :: "nat \<Rightarrow> int" where
  "Stream_maxEncodedNameLen n = int (B256ToB64Bytes (2 + n))"

definition Stream_maxDecodedNameLen :: "nat \<Rightarrow> int" where
  "Stream_maxDecodedNameLen n = int (B64ToB256Bytes n) - 2"

definition Stream_encodeName :: "('k, 'r) streamnameio \<Rightarrow> name_coder" where
  "Stream_encodeName io nm iv bufferLength =
     (let tmpIV = chained_from 2 (sn_interface io) iv in
      case MAC_16 (sn_cipher io) nm (sn_key io) iv of Inl e \<Rightarrow> Inl e
      | Inr (mac, iv') \<Rightarrow>
        if \<not> bufferLength \<ge> length nm + 2 then Inl (Error ''bufferLength >= length + 2'')
        else (case nameEncode (sn_cipher io) (sn_key io) nm (ucast mac XOR tmpIV) of Inl e \<Rightarrow> Inl e
              | Inr (_, q) \<Rightarrow>
                  let buf = (if sn_interface io \<ge> 1 then mac16_bytes mac @ q else q @ mac16_bytes mac)
                  in Inr (B64ToAscii (changeBase2Inline buf 8 6 True), iv')))"

definition Stream_decodeName :: "('k, 'r) streamnameio \<Rightarrow> name_coder" where
  "Stream_decodeName io nm iv bufferLength =
     (if \<not> length nm > 2 then Inl (Error ''length > 2'')
      else
        let n = int (B64ToB256Bytes (length nm)) - 2 in
        if \<not> n \<le> int bufferLength then Inl (Error ''decodedStreamLen <= bufferLength'')
        else if n \<le> 0 then Inl (Error ''Filename too small to decode'')
        else
          let n = nat n;
              tmpBuf = name_bytes False nm;
              mac = (if sn_interface io \<ge> 1 then mac16_of (tmpBuf ! 0) (tmpBuf ! 1)
                     else mac16_of (tmpBuf ! n) (tmpBuf ! (n + 1)));
              tmpIV = chained_from 2 (sn_interface io) iv;
              q = (if sn_interface io \<ge> 1 then take n (drop 2 tmpBuf) else take n tmpBuf)
          in case nameDecode (sn_cipher io) (sn_key io) q (ucast mac XOR tmpIV) of Inl e \<Rightarrow> Inl e
             | Inr (_, p) \<Rightarrow>
               (case MAC_16 (sn_cipher io) p (sn_key io) iv of Inl e \<Rightarrow> Inl e
                | Inr (mac2, iv') \<Rightarrow>
                    if mac2 \<noteq> mac then Inl (Error ''checksum mismatch in filename decode'') else Inr (p, iv')))"

definition Stream_CurrentInterface :: interface where
  "Stream_CurrentInterface = Interface (str ''nameio/stream'') 2 1 2"

definition StreamNameIO :: "interface \<Rightarrow> ('k, 'r) cipher \<Rightarrow> 'k \<Rightarrow> nameio" where
  "StreamNameIO iface cph key =
     (let io = \<lparr>sn_interface = if_current iface, sn_cipher = cph, sn_key = key\<rparr> in
      \<lparr>nio_interface = Stream_CurrentInterface, nio_maxEncodedNameLen = Stream_maxEncodedNameLen,
       nio_maxDecodedNameLen = Stream_maxDecodedNameLen, nio_encodeName = Stream_encodeName io,
       nio_decodeName = Stream_decodeName io, nio_chainedNameIV = False, nio_reverseEncryption = False\<rparr>)"

section \<open>BlockNameIO\<close>

record ('k, 'r) blocknameio =
  bn_interface :: int
  bn_bs :: nat
  bn_cipher :: "('k, 'r) cipher"
  bn_key :: 'k
  bn_caseInsensitive :: bool

definition Block_maxEncodedNameLen :: "('k, 'r) blocknameio \<Rightarrow> nat \<Rightarrow> int" where
  "Block_maxEncodedNameLen io plaintextNameLen =
     (let numBlocks = (plaintextNameLen + bn_bs io) div bn_bs io;
          encodedNameLen = numBlocks * bn_bs io + 2
      in int (if bn_caseInsensitive io then B256ToB32Bytes encodedNameLen else B256ToB64Bytes encodedNameLen))"

definition Block_maxDecodedNameLen :: "('k, 'r) blocknameio \<Rightarrow> nat \<Rightarrow> int" where
  "Block_maxDecodedNameLen io n =
     int (if bn_caseInsensitive io then B32ToB256Bytes n else B64ToB256Bytes n) - 2"

definition Block_encodeName :: "('k, 'r) blocknameio \<Rightarrow> name_coder" where
  "Block_encodeName io nm iv bufferLength =
     (let padding = bn_bs io - length nm mod bn_bs io;
          padding = (if padding = 0 then bn_bs io else padding)
      in if \<not> bufferLength \<ge> length nm + 2 + padding then Inl (Error ''bufferLength >= length + 2 + padding'')
      else
        let buf = nm @ replicate padding (of_nat padding);
            tmpIV = chained_from 3 (bn_interface io) iv
        in case MAC_16 (bn_cipher io) buf (bn_key io) iv of Inl e \<Rightarrow> Inl e
           | Inr (mac, iv') \<Rightarrow>
             (case c_blockEncode (bn_cipher io) (bn_key io) buf (ucast mac XOR tmpIV) of Inl e \<Rightarrow> Inl e
              | Inr None \<Rightarrow> Inl (Error ''block encode failed in filename encode'')
              | Inr (Some q) \<Rightarrow>
                  let buf = mac16_bytes mac @ q in
                  Inr (if bn_caseInsensitive io then B32ToAscii (changeBase2Inline buf 8 5 True)
                       else B64ToAscii (changeBase2Inline buf 8 6 True), iv')))"

definition Block_decodeName :: "('k, 'r) blocknameio \<Rightarrow> name_coder" where
  "Block_decodeName io nm iv bufferLength =
     (let n = Block_maxDecodedNameLen io (length nm) in
      if n < int (bn_bs io) then Inl (Error ''Filename too small to decode'')
      else
        let n = nat n;
            tmpBuf = name_bytes (bn_caseInsensitive io) nm;
            mac = mac16_of (tmpBuf ! 0) (tmpBuf ! 1);
            tmpIV = chained_from 3 (bn_interface io) iv
        in case c_blockDecode (bn_cipher io) (bn_key io) (take n (drop 2 tmpBuf)) (ucast mac XOR tmpIV) of Inl e \<Rightarrow> Inl e
           | Inr None \<Rightarrow> Inl (Error ''block decode failed in filename decode'')
           | Inr (Some p) \<Rightarrow>
               let padding = unat (p ! (n - 1)); finalSize = int n - int padding in
               if padding > bn_bs io \<or> finalSize < 0 then Inl (Error ''invalid padding size'')
               else if \<not> finalSize < int bufferLength then Inl (Error ''finalSize < bufferLength'')
               else (case MAC_16 (bn_cipher io) p (bn_key io) iv of Inl e \<Rightarrow> Inl e
                     | Inr (mac2, iv') \<Rightarrow>
                         if mac2 \<noteq> mac then Inl (Error ''checksum mismatch in filename decode'')
                         else Inr (take (nat finalSize) p, iv')))"

definition Block_CurrentInterface :: "bool \<Rightarrow> interface" where
  "Block_CurrentInterface caseInsensitive =
     (if caseInsensitive then Interface (str ''nameio/block32'') 4 0 2 else Interface (str ''nameio/block'') 4 0 2)"

definition BlockNameIO ::
  "interface \<Rightarrow> ('k, 'r) cipher \<Rightarrow> 'k \<Rightarrow> nat \<Rightarrow> bool \<Rightarrow> exn + nameio" where
  "BlockNameIO iface cph key blockSize caseInsensitive =
     (let io = \<lparr>bn_interface = if_current iface, bn_bs = blockSize, bn_cipher = cph, bn_key = key,
                bn_caseInsensitive = caseInsensitive\<rparr>
      in if \<not> blockSize < 128 then Inl (Error ''blockSize < 128'')
         else Inr \<lparr>nio_interface = Block_CurrentInterface caseInsensitive,
                   nio_maxEncodedNameLen = Block_maxEncodedNameLen io,
                   nio_maxDecodedNameLen = Block_maxDecodedNameLen io, nio_encodeName = Block_encodeName io,
                   nio_decodeName = Block_decodeName io, nio_chainedNameIV = False, nio_reverseEncryption = False\<rparr>)"

definition NewBlockNameIO :: "interface \<Rightarrow> ('k, 'r) cipher \<Rightarrow> 'k \<Rightarrow> exn + nameio" where
  "NewBlockNameIO iface cph key = BlockNameIO iface cph key (c_cipherBlockSize cph) False"

definition NewBlockNameIO32 :: "interface \<Rightarrow> ('k, 'r) cipher \<Rightarrow> 'k \<Rightarrow> exn + nameio" where
  "NewBlockNameIO32 iface cph key = BlockNameIO iface cph key (c_cipherBlockSize cph) True"

text \<open>The registrations of the four codings, for a cipher and a key.\<close>

definition name_registrations ::
  "('k, 'r) cipher \<Rightarrow> 'k \<Rightarrow> (bytes \<times> (exn + nameio) name_alg) list \<Rightarrow> (bytes \<times> (exn + nameio) name_alg) list" where
  "name_registrations cph key m =
     NameIO_Register (str ''Stream'') (str ''Stream encoding, keeps filenames as short as possible'')
       Stream_CurrentInterface (\<lambda>iface. Inr (StreamNameIO iface cph key)) False
    (NameIO_Register (str ''Null'') (str ''No encryption of filenames'') NNIOIface (\<lambda>iface. Inr NullNameIO) False
    (NameIO_Register (str ''Block32'') (str ''Block encoding with base32 output for case-insensitive systems'')
       (Block_CurrentInterface True) (\<lambda>iface. NewBlockNameIO32 iface cph key) False
    (NameIO_Register (str ''Block'') (str ''Block encoding, hides file name size somewhat'')
       (Block_CurrentInterface False) (\<lambda>iface. NewBlockNameIO iface cph key) False m)))"

section \<open>The contract\<close>

text \<open>A component of a path that is coded: not empty, without slash and NUL, neither \<open>.\<close> nor \<open>..\<close>.\<close>

definition plain_component :: "bytes \<Rightarrow> bool" where
  "plain_component c = (c \<noteq> [] \<and> slash \<notin> set c \<and> 0 \<notin> set c \<and> \<not> (hd c = dot \<and> last c = dot \<and> length c \<le> 2))"

text \<open>
  A name that is coded on its own may have slashes. \<open>marks\<close>: an encoded name may begin with a plus sign,
  because the plain name does.
\<close>

locale name_codec =
  fixes maxEnc maxDec :: "nat \<Rightarrow> int" and enc dec :: name_coder and marks :: bool
  assumes codes: "c \<noteq> [] \<Longrightarrow> 0 \<notin> set c \<Longrightarrow> \<exists>q iv'.
      enc c iv (bufSize (maxEnc (length c))) = Inr (q, iv') \<and> (plain_component c \<longrightarrow> plain_component q) \<and>
      q \<noteq> [] \<and> 0 \<notin> set q \<and> (hd q = plus_sign \<longrightarrow> marks \<and> hd c = plus_sign) \<and>
      0 < maxEnc (length c) \<and> int (length q) \<le> maxEnc (length c) \<and>
      dec q iv (bufSize (maxDec (length q))) = Inr (c, iv') \<and>
      0 < maxDec (length q) \<and> int (length c) \<le> maxDec (length q)"
begin

lemma component_end:
  assumes "slash \<notin> set c" "rest = [] \<or> hd rest = slash"
  shows "takeWhile (\<lambda>x. x \<noteq> slash) (c @ rest) = c"
proof -
  have "takeWhile (\<lambda>x. x \<noteq> slash) (c @ rest) = c @ takeWhile (\<lambda>x. x \<noteq> slash) rest"
    using assms(1) by (intro takeWhile_append2) auto
  also have "takeWhile (\<lambda>x. x \<noteq> slash) rest = []" using assms(2) by (cases rest) auto
  finally show ?thesis by simp
qed

text \<open>One step of the loop on a component that is coded.\<close>

lemma recode_component:
  assumes "plain_component c" "rest = [] \<or> hd rest = slash" "0 < maxLen (length c)"
    and "code c iv (bufSize (maxLen (length c))) = Inr (q, iv')" "int (length q) \<le> maxLen (length c)" "0 \<notin> set q"
  shows "recodePath maxLen code (c @ rest) iv out = recodePath maxLen code rest iv' (out @ q)"
proof -
  have t: "takeWhile (\<lambda>x. x \<noteq> slash) (c @ rest) = c"
    using assms(1,2) by (intro component_end) (auto simp: plain_component_def)
  have "c \<noteq> []" "hd (c @ rest) = hd c" "hd c \<noteq> slash" "\<not> (hd c = dot \<and> last c = dot \<and> length c \<le> 2)"
    using assms(1) by (cases c; auto simp: plain_component_def)+
  moreover have tw: "takeWhile (\<lambda>c. c \<noteq> 0) q = q" using assms(6) by (auto simp: takeWhile_eq_all_conv)
  ultimately show ?thesis
    using assms(3-5) unfolding recodePath.simps [of maxLen code "c @ rest" iv out] t Let_def by (auto simp: tw)
qed

lemma recode_dots:
  assumes "c = [dot] \<or> c = [dot, dot]" "rest = [] \<or> hd rest = slash"
  shows "recodePath maxLen code (c @ rest) iv out = recodePath maxLen code rest iv (out @ c)"
proof -
  have t: "takeWhile (\<lambda>x. x \<noteq> slash) (c @ rest) = c" using assms by (intro component_end) auto
  have "c \<noteq> []" "hd (c @ rest) = dot" "last c = dot" "length c \<le> 2" "replicate (length c) dot = c"
    using assms(1) by (auto simp: numeral_2_eq_2)
  then show ?thesis unfolding recodePath.simps [of maxLen code "c @ rest" iv out] t Let_def by simp
qed

text \<open>
  Decoding undoes encoding on the rest of a path, from any point on: \<open>out\<close> and \<open>out'\<close> are what
  the two loops have written before, either both nothing or both something.
\<close>

lemma recode_roundtrip:
  assumes "0 \<notin> set path" "out = [] \<longleftrightarrow> out' = []"
  shows "\<exists>mid iv'. recodePath maxEnc enc path iv out = Inr (out @ mid, iv') \<and>
    recodePath maxDec dec mid iv out' = Inr (out' @ (if out = [] then dropWhile (\<lambda>c. c = slash) path else path), iv') \<and>
    (path \<noteq> [] \<and> hd path = slash \<and> out \<noteq> [] \<longrightarrow> mid \<noteq> [] \<and> hd mid = slash) \<and>
    (path = [] \<longrightarrow> mid = [])"
  using assms
proof (induction "length path" arbitrary: path iv out out' rule: less_induct)
  case less
  show ?case
  proof (cases "path = []")
    case True
    then show ?thesis by (simp add: recodePath.simps [of _ _ "[]"])
  next
    case ne: False
    show ?thesis
    proof (cases "hd path = slash")
      case True
      let ?o = "if out \<noteq> [] then out @ [slash] else out"
      let ?o' = "if out' \<noteq> [] then out' @ [slash] else out'"
      have p: "path = slash # tl path" using ne True by (cases path) auto
      have "length (tl path) < length path" "0 \<notin> set (tl path)" using ne less.prems(1) by (cases path; auto)+
      from less.hyps [OF this(1,2), of ?o ?o' iv] less.prems(2)
      obtain mid iv' where m: "recodePath maxEnc enc (tl path) iv ?o = Inr (?o @ mid, iv')"
        "recodePath maxDec dec mid iv ?o' = Inr (?o' @ (if ?o = [] then dropWhile (\<lambda>c. c = slash) (tl path) else tl path), iv')"
        by auto
      have e: "recodePath maxEnc enc path iv out = recodePath maxEnc enc (tl path) iv ?o"
        using ne True by (subst recodePath.simps) simp
      have dp: "dropWhile (\<lambda>c. c = slash) path = dropWhile (\<lambda>c. c = slash) (tl path)" by (subst p) simp
      show ?thesis
      proof (cases "out = []")
        case True
        then show ?thesis using e m less.prems(2) dp ne by (intro exI [of _ mid] exI [of _ iv']) auto
      next
        case False
        then have "recodePath maxDec dec (slash # mid) iv out' = recodePath maxDec dec mid iv (out' @ [slash])"
          using less.prems(2) by (subst recodePath.simps) simp
        then show ?thesis using e m False less.prems(2) p
          by (intro exI [of _ "slash # mid"] exI [of _ iv']) auto
      qed
    next
      case False
      define c where "c = takeWhile (\<lambda>x. x \<noteq> slash) path"
      define rest where "rest = dropWhile (\<lambda>x. x \<noteq> slash) path"
      have p: "path = c @ rest" by (simp add: c_def rest_def)
      have cs: "slash \<notin> set c" "c \<noteq> []" "0 \<notin> set c" "0 \<notin> set rest"
      proof -
        show "slash \<notin> set c" by (auto simp: c_def dest: set_takeWhileD)
        show "c \<noteq> []" using ne False by (cases path) (auto simp: c_def)
        show "0 \<notin> set c" "0 \<notin> set rest"
          using less.prems(1) by (auto simp: c_def rest_def dest: set_takeWhileD set_dropWhileD)
      qed
      have rs: "rest = [] \<or> hd rest = slash" using hd_dropWhile [of "\<lambda>x. x \<noteq> slash" path] by (auto simp: rest_def)
      have lt: "length rest < length path" using p cs(2) by simp
      have dw: "dropWhile (\<lambda>c. c = slash) path = path" using ne False by (cases path) auto
      have step: ?thesis if q: "q \<noteq> []"
          "\<And>rest. rest = [] \<or> hd rest = slash \<Longrightarrow> recodePath maxEnc enc (c @ rest) iv out = recodePath maxEnc enc rest iv1 (out @ q)"
          "\<And>rest. rest = [] \<or> hd rest = slash \<Longrightarrow> recodePath maxDec dec (q @ rest) iv out' = recodePath maxDec dec rest iv1 (out' @ c)"
        for q iv1
      proof -
        obtain mid iv' where m: "recodePath maxEnc enc rest iv1 (out @ q) = Inr ((out @ q) @ mid, iv')"
          "recodePath maxDec dec mid iv1 (out' @ c) = Inr ((out' @ c) @ rest, iv')"
          "rest \<noteq> [] \<longrightarrow> mid \<noteq> [] \<and> hd mid = slash" "rest = [] \<longrightarrow> mid = []"
          using less.hyps [OF lt cs(4), of "out @ q" "out' @ c" iv1] q(1) cs(2) rs by auto
        have "mid = [] \<or> hd mid = slash" using m(3,4) by auto
        from q(3) [OF this] show ?thesis using q(2) [OF rs] m(1,2) p dw False ne
          by (intro exI [of _ "q @ mid"] exI [of _ iv']) auto
      qed
      show ?thesis
      proof (cases "hd c = dot \<and> last c = dot \<and> length c \<le> 2")
        case True
        then have "c = [dot] \<or> c = [dot, dot]"
          using cs(2) by (cases c rule: remdups_adj.cases) (auto simp: Suc_le_eq)
        then show ?thesis using cs(2) by (intro step [of c iv] recode_dots) auto
      next
        case nd: False
        then have pc: "plain_component c" using cs by (simp add: plain_component_def)
        from codes [OF cs(2,3), of iv] pc obtain q iv1 where q:
          "enc c iv (bufSize (maxEnc (length c))) = Inr (q, iv1)" "plain_component q"
          "0 < maxEnc (length c)" "int (length q) \<le> maxEnc (length c)"
          "dec q iv (bufSize (maxDec (length q))) = Inr (c, iv1)" "0 < maxDec (length q)" "int (length c) \<le> maxDec (length q)"
          by blast
        show ?thesis
          using q cs pc by (intro step [of q iv1] recode_component) (auto simp: plain_component_def)
      qed
    qed
  qed
qed

text \<open>The first byte of an encoded relative path.\<close>

lemma recode_head:
  assumes p: "0 \<notin> set path" "path \<noteq> []" "hd path \<noteq> slash" and r: "recodePath maxEnc enc path iv [] = Inr (q, iv')"
  shows "q \<noteq> [] \<and> (hd q = plus_sign \<longrightarrow> marks \<and> hd path = plus_sign)"
proof -
  define c where "c = takeWhile (\<lambda>x. x \<noteq> slash) path"
  define rest where "rest = dropWhile (\<lambda>x. x \<noteq> slash) path"
  have path: "path = c @ rest" by (simp add: c_def rest_def)
  have c: "c \<noteq> []" "slash \<notin> set c" using p(2,3) by (cases path) (auto simp: c_def dest: set_takeWhileD)
  have z: "0 \<notin> set c" "0 \<notin> set rest" using p(1) unfolding path by auto
  have rs: "rest = [] \<or> hd rest = slash" using hd_dropWhile [of "\<lambda>x. x \<noteq> slash" path] by (auto simp: rest_def)
  have go: ?thesis if q1: "q1 \<noteq> []" "hd q1 = plus_sign \<longrightarrow> marks \<and> hd c = plus_sign"
      "recodePath maxEnc enc (c @ rest) iv [] = recodePath maxEnc enc rest iv1 ([] @ q1)" for q1 iv1
  proof -
    obtain mid where "q = q1 @ mid"
      using recode_roundtrip [OF z(2), of q1 q1 iv1] r q1(3) by (auto simp: path)
    then show ?thesis using q1 c(1) by (auto simp: path)
  qed
  show ?thesis
  proof (cases "hd c = dot \<and> last c = dot \<and> length c \<le> 2")
    case True
    then have "c = [dot] \<or> c = [dot, dot]" using c(1) by (cases c rule: remdups_adj.cases) (auto simp: Suc_le_eq)
    from recode_dots [OF this rs] c(1) True show ?thesis by (intro go [of c iv]) auto
  next
    case False
    then have pc: "plain_component c" using c z by (simp add: plain_component_def)
    from codes [OF c(1) z(1), of iv] pc obtain q1 iv1 where q1:
      "enc c iv (bufSize (maxEnc (length c))) = Inr (q1, iv1)" "plain_component q1" "0 < maxEnc (length c)"
      "int (length q1) \<le> maxEnc (length c)" "q1 \<noteq> []" "0 \<notin> set q1" "hd q1 = plus_sign \<longrightarrow> marks \<and> hd c = plus_sign"
      by blast
    then show ?thesis
      using recode_component [where maxLen = maxEnc and code = enc, OF pc rs q1(3,1,4,6)] by (intro go [of q1 iv1]) auto
  qed
qed

end

section \<open>The coders keep the contract\<close>

lemma bits_below_16:
  assumes "bit (fold_16 m) n"
  shows "n < 16"
proof -
  have m: "(0xffff :: u32) = mask 16" by (simp add: mask_eq_exp_minus_1)
  show ?thesis using assms unfolding fold_16_def m by (auto simp: bit_simps)
qed

lemma mac16_roundtrip: "mac16_of (ucast (drop_bit 8 (fold_16 m) AND 0xff)) (ucast (fold_16 m AND 0xff)) = fold_16 m"
proof (rule bit_word_eqI)
  fix n :: nat
  assume "n < LENGTH(32)"
  then show "bit (mac16_of (ucast (drop_bit 8 (fold_16 m) AND 0xff)) (ucast (fold_16 m AND 0xff))) n = bit (fold_16 m) n"
    using bits_below_16 [of m n] unfolding mac16_of_def low_byte by (auto simp: bit_simps)
qed

lemma stream_lengths [simp]: "B64ToB256Bytes (B256ToB64Bytes n) = n" "B32ToB256Bytes (B256ToB32Bytes n) = n"
  unfolding B64ToB256Bytes_def B256ToB64Bytes_def B32ToB256Bytes_def B256ToB32Bytes_def by presburger+

lemma encoded_longer: "n \<le> B256ToB64Bytes n" "n \<le> B256ToB32Bytes n" "3 \<le> n \<Longrightarrow> 4 \<le> B256ToB64Bytes n"
  unfolding B256ToB64Bytes_def B256ToB32Bytes_def by linarith+

lemma alphabets_plain:
  "slash \<notin> set b64_alphabet" "dot \<notin> set b64_alphabet" "0 \<notin> set b64_alphabet"
  "slash \<notin> set b32_alphabet" "dot \<notin> set b32_alphabet" "0 \<notin> set b32_alphabet"
  "plus_sign \<notin> set b64_alphabet" "plus_sign \<notin> set b32_alphabet"
  by code_simp+

text \<open>What the two directions of base 64 and base 32 do for a coder, on a buffer that is not empty.\<close>

lemma name64:
  assumes "src \<noteq> []"
  defines "q \<equiv> B64ToAscii (changeBase2Inline src 8 6 True)"
  shows "plain_component q \<and> hd q \<noteq> plus_sign" "length q = B256ToB64Bytes (length src)"
    "take (length src) (overlay 0 (changeBase2Inline (AsciiToB64 q) 6 8 False) (AsciiToB64 q)) = src"
proof -
  note f = base64_name_facts [OF assms(1), folded q_def]
  show l: "length q = B256ToB64Bytes (length src)" using f by blast
  have "q \<noteq> []" using l assms(1) encoded_longer(1) [of "length src"] by auto
  moreover have "hd q \<noteq> dot" "hd q \<noteq> plus_sign" using f alphabets_plain(2,7) hd_in_set [OF \<open>q \<noteq> []\<close>] by auto
  ultimately show "plain_component q \<and> hd q \<noteq> plus_sign" using f alphabets_plain unfolding plain_component_def by blast
  have "take (length src) (changeBase2Inline (AsciiToB64 q) 6 8 False) = src" using f by blast
  moreover from arg_cong [OF this, of length] have "length src \<le> length (changeBase2Inline (AsciiToB64 q) 6 8 False)"
    by simp
  ultimately show "take (length src) (overlay 0 (changeBase2Inline (AsciiToB64 q) 6 8 False) (AsciiToB64 q)) = src" by simp
qed

lemma name32:
  assumes "src \<noteq> []"
  defines "q \<equiv> B32ToAscii (changeBase2Inline src 8 5 True)"
  shows "plain_component q \<and> hd q \<noteq> plus_sign" "length q = B256ToB32Bytes (length src)"
    "take (length src) (overlay 0 (changeBase2Inline (AsciiToB32 q) 5 8 False) (AsciiToB32 q)) = src"
proof -
  note all = base32_name_facts [OF assms(1), folded q_def]
  note f = all [THEN conjunct1] all [THEN conjunct2, THEN conjunct1] all [THEN conjunct2, THEN conjunct2, THEN conjunct1]
  show l: "length q = B256ToB32Bytes (length src)" using f by blast
  have "q \<noteq> []" using l assms(1) encoded_longer(2) [of "length src"] by auto
  moreover have "hd q \<noteq> dot" "hd q \<noteq> plus_sign" using f alphabets_plain(5,8) hd_in_set [OF \<open>q \<noteq> []\<close>] by auto
  ultimately show "plain_component q \<and> hd q \<noteq> plus_sign" using f alphabets_plain unfolding plain_component_def by blast
  have "take (length src) (changeBase2Inline (AsciiToB32 q) 5 8 False) = src" using f by blast
  moreover from arg_cong [OF this, of length] have "length src \<le> length (changeBase2Inline (AsciiToB32 q) 5 8 False)"
    by simp
  ultimately show "take (length src) (overlay 0 (changeBase2Inline (AsciiToB32 q) 5 8 False) (AsciiToB32 q)) = src" by simp
qed

lemma prefix_parts:
  assumes "take (length (a @ b)) buf = a @ b"
  shows "take (length b) (drop (length a) buf) = b" "take (length a) buf = a"
  using assms by (metis append_eq_conv_conj length_append take_drop add.commute drop_take diff_add_inverse2,
      metis append_eq_conv_conj min.absorb1 le_add1 length_append take_take)

interpretation null_name: name_codec int int Null_name_coder Null_name_coder True
  by unfold_locales (auto simp: Null_name_coder_def bufSize_def plain_component_def)

text \<open>Without encryption a path stays as it is.\<close>

lemma null_recode:
  assumes "0 \<notin> set path"
  shows "recodePath int Null_name_coder path iv out = Inr (out @ (if out = [] then dropWhile (\<lambda>c. c = slash) path else path), iv)"
  using assms
proof (induction "length path" arbitrary: path out rule: less_induct)
  case less
  consider (Nil) "path = []" | (slash) rest where "path = slash # rest"
    | (name) "path \<noteq> []" "hd path \<noteq> slash" by (cases path) auto
  then show ?case
  proof cases
    case Nil then show ?thesis by (simp add: recodePath.simps [of _ _ "[]"])
  next
    case slash then show ?thesis using less by (subst recodePath.simps) simp
  next
    case name
    define c where "c = takeWhile (\<lambda>x. x \<noteq> slash) path"
    define rest where "rest = dropWhile (\<lambda>x. x \<noteq> slash) path"
    have p: "path = c @ rest" by (simp add: c_def rest_def)
    have c: "c \<noteq> []" "slash \<notin> set c" using name by (cases path; auto simp: c_def dest: set_takeWhileD)+
    have z: "0 \<notin> set c" "0 \<notin> set rest" using less.prems unfolding p by auto
    have rs: "rest = [] \<or> hd rest = slash" using hd_dropWhile [of "\<lambda>x. x \<noteq> slash" path] by (auto simp: rest_def)
    have dw: "dropWhile (\<lambda>c. c = slash) path = path" using name by (cases path) auto
    have "recodePath int Null_name_coder (c @ rest) iv out = recodePath int Null_name_coder rest iv (out @ c)"
    proof (cases "hd c = dot \<and> last c = dot \<and> length c \<le> 2")
      case True
      then have "c = [dot] \<or> c = [dot, dot]" using c(1) by (cases c rule: remdups_adj.cases) (auto simp: Suc_le_eq)
      then show ?thesis by (rule null_name.recode_dots [OF _ rs])
    next
      case False
      then show ?thesis using c z
        by (intro null_name.recode_component [OF _ rs]) (auto simp: plain_component_def Null_name_coder_def bufSize_def)
    qed
    also have "\<dots> = Inr ((out @ c) @ rest, iv)" using less.hyps [of rest "out @ c"] z(2) c(1) p by simp
    finally show ?thesis by (simp add: dw flip: p)
  qed
qed

lemma null_path:
  assumes "0 \<notin> set path"
  shows "encodePath (setChainedNameIV chained NullNameIO) path iv = Inr (dropWhile (\<lambda>c. c = slash) path, iv)"
  using null_recode [OF assms, of _ "[]"]
  by (simp add: encodePath_def encodePath_fwd_def setChainedNameIV_def NullNameIO_def)

lemma null_decodeName:
  assumes "0 \<notin> set nm"
  shows "decodeName (setChainedNameIV chained NullNameIO) nm = Inr nm"
proof -
  have "nat (int (length nm) + 1) = Suc (length nm)" by simp
  moreover have "takeWhile (\<lambda>c. c \<noteq> 0) nm = nm" using assms by (auto simp: takeWhile_eq_all_conv)
  ultimately show ?thesis
    by (simp del: takeWhile_eq_all_conv add: decodeName_def decodeName_fwd_def setChainedNameIV_def NullNameIO_def Null_name_coder_def bufSize_def Let_def)
qed

text \<open>What a coder relies on of its cipher.\<close>

locale name_cipher =
  fixes cph :: "('k, 'r) cipher" and key :: 'k and nbs :: nat
  assumes nbs: "0 < nbs" "nbs < 128" "c_cipherBlockSize cph = nbs"
    and name_stream: "p \<noteq> [] \<Longrightarrow> inverts (c_streamDecode cph key) (c_streamEncode cph key) p"
    and name_block: "p \<noteq> [] \<Longrightarrow> length p mod nbs = 0 \<Longrightarrow> inverts (c_blockDecode cph key) (c_blockEncode cph key) p"
    and name_mac: "p \<noteq> [] \<Longrightarrow> \<exists>mac. c_MAC_64 cph p key iv = Inr mac"
begin

lemma mac_16:
  assumes "p \<noteq> []"
  shows "\<exists>m iv'. MAC_16 cph p key iv = Inr (fold_16 m, iv')"
  using name_mac [OF assms, of iv] by (auto simp: MAC_16_def)

end

context name_cipher
begin

lemma stream_name_codes:
  fixes io :: "('k, 'r) streamnameio"
  assumes io: "sn_cipher io = cph" "sn_key io = key" and ne: "c \<noteq> []"
  shows "\<exists>q iv'. Stream_encodeName io c iv (bufSize (Stream_maxEncodedNameLen (length c))) = Inr (q, iv') \<and>
      plain_component q \<and> hd q \<noteq> plus_sign \<and> 0 < Stream_maxEncodedNameLen (length c) \<and> int (length q) \<le> Stream_maxEncodedNameLen (length c) \<and>
      Stream_decodeName io q iv (bufSize (Stream_maxDecodedNameLen (length q))) = Inr (c, iv') \<and>
      0 < Stream_maxDecodedNameLen (length q) \<and> int (length c) \<le> Stream_maxDecodedNameLen (length q)"
proof -
  have c1: "1 \<le> length c" using ne by (simp add: Suc_le_eq)
  obtain m iv' where mac: "MAC_16 cph c key iv = Inr (fold_16 m, iv')" using mac_16 [OF ne] by blast
  define v where "v = ucast (fold_16 m) XOR chained_from 2 (sn_interface io) iv"
  obtain e where e: "c_streamEncode cph key c v = Inr (Some e)" "length e = length c" "c_streamDecode cph key e v = Inr (Some c)"
    using name_stream [OF ne] unfolding inverts_def by blast
  define src where "src = (if sn_interface io \<ge> 1 then mac16_bytes (fold_16 m) @ e else e @ mac16_bytes (fold_16 m))"
  have sl: "length src = 2 + length c" by (simp add: src_def mac16_bytes_def e)
  define q where "q = B64ToAscii (changeBase2Inline src 8 6 True)"
  have "src \<noteq> []" using sl by auto
  note n = name64 [OF this, folded q_def]
  define buf where "buf = name_bytes False q"
  have buf: "take (2 + length c) buf = src" using n(3) by (simp add: buf_def name_bytes_def sl)
  have nth: "buf ! i = src ! i" if "i < 2 + length c" for i
    using that buf nth_take [of i "2 + length c" buf] by simp
  have ml: "Stream_maxEncodedNameLen (length c) = int (length q)" by (simp add: Stream_maxEncodedNameLen_def n(2) sl)
  have dl: "int (B64ToB256Bytes (length q)) - 2 = int (length c)" by (simp add: n(2) sl)
  have big: "length c + 2 \<le> bufSize (int (length q))" "4 \<le> length q"
    using encoded_longer(1,3) [of "2 + length c"] c1 by (auto simp: bufSize_def n(2) sl)
  have enc: "Stream_encodeName io c iv (bufSize (int (length q))) = Inr (q, iv')"
    using big e by (simp add: Stream_encodeName_def Let_def io mac nameEncode_def v_def [symmetric] q_def src_def)
  have parts: "(if sn_interface io \<ge> 1 then mac16_of (buf ! 0) (buf ! 1)
      else mac16_of (buf ! length c) (buf ! (length c + 1))) = fold_16 m"
    "(if sn_interface io \<ge> 1 then take (length c) (drop 2 buf) else take (length c) buf) = e"
    using mac16_roundtrip [of m] prefix_parts [of "mac16_bytes (fold_16 m)" e buf] prefix_parts [of e "mac16_bytes (fold_16 m)" buf] buf
    by (simp_all add: nth src_def mac16_bytes_def e nth_append numeral_2_eq_2 split: if_splits)
  have "Stream_decodeName io q iv (bufSize (int (length c))) = Inr (c, iv')"
    unfolding Stream_decodeName_def dl Let_def io nat_int buf_def [symmetric] parts
    using big c1 ne e by (auto simp: mac nameDecode_def v_def [symmetric] bufSize_def)
  then show ?thesis
    using enc n(1) big ne by (intro exI [of _ q] exI [of _ iv']) (auto simp: ml Stream_maxDecodedNameLen_def dl)
qed

text \<open>The base change of the two block codings, as one function of the flag.\<close>

lemma block_name_base:
  fixes ci :: bool
  assumes "src \<noteq> []"
  defines "q \<equiv> (if ci then B32ToAscii (changeBase2Inline src 8 5 True) else B64ToAscii (changeBase2Inline src 8 6 True))"
  shows "plain_component q \<and> hd q \<noteq> plus_sign" "length q = (if ci then B256ToB32Bytes (length src) else B256ToB64Bytes (length src))"
    "take (length src) (name_bytes ci q) = src"
  using name64 [OF assms(1)] name32 [OF assms(1)] by (cases ci; simp add: q_def name_bytes_def)+

lemma block_name_codes:
  fixes io :: "('k, 'r) blocknameio"
  assumes io: "bn_cipher io = cph" "bn_key io = key" "bn_bs io = nbs" and ne: "c \<noteq> []"
  shows "\<exists>q iv'. Block_encodeName io c iv (bufSize (Block_maxEncodedNameLen io (length c))) = Inr (q, iv') \<and>
      plain_component q \<and> hd q \<noteq> plus_sign \<and> 0 < Block_maxEncodedNameLen io (length c) \<and> int (length q) \<le> Block_maxEncodedNameLen io (length c) \<and>
      Block_decodeName io q iv (bufSize (Block_maxDecodedNameLen io (length q))) = Inr (c, iv') \<and>
      0 < Block_maxDecodedNameLen io (length q) \<and> int (length c) \<le> Block_maxDecodedNameLen io (length q)"
proof -
  define pad where "pad = nbs - length c mod nbs"
  have pad: "0 < pad" "pad \<le> nbs" using nbs(1) by (simp_all add: pad_def)
  define p where "p = c @ replicate pad (of_nat pad)"
  have pl: "length p = length c + pad" by (simp add: p_def)
  have blocks: "length p = (length c + nbs) div nbs * nbs"
    using nbs(1) by (simp add: pl pad_def minus_mod_eq_div_mult [symmetric] add_mult_distrib)
  then have pm: "length p mod nbs = 0" by simp
  have pne: "p \<noteq> []" using ne by (simp add: p_def)
  have last: "unat (p ! (length p - 1)) = pad"
    using pad nbs(2) by (auto simp: p_def nth_append unat_of_nat take_bit_nat_eq_self)
  obtain m iv' where mac: "MAC_16 cph p key iv = Inr (fold_16 m, iv')" using mac_16 [OF pne] by blast
  define v where "v = ucast (fold_16 m) XOR chained_from 3 (bn_interface io) iv"
  obtain e where e: "c_blockEncode cph key p v = Inr (Some e)" "length e = length p" "c_blockDecode cph key e v = Inr (Some p)"
    using name_block [OF pne pm] unfolding inverts_def by blast
  define src where "src = mac16_bytes (fold_16 m) @ e"
  have sl: "length src = 2 + length p" by (simp add: src_def mac16_bytes_def e)
  define q where "q = (if bn_caseInsensitive io then B32ToAscii (changeBase2Inline src 8 5 True)
      else B64ToAscii (changeBase2Inline src 8 6 True))"
  have "src \<noteq> []" using sl by auto
  note n = block_name_base [OF this, of "bn_caseInsensitive io", folded q_def]
  have ml: "Block_maxEncodedNameLen io (length c) = int (length q)"
    by (simp add: Block_maxEncodedNameLen_def Let_def n(2) sl io blocks add.commute)
  have dl: "Block_maxDecodedNameLen io (length q) = int (length p)"
    by (simp add: Block_maxDecodedNameLen_def n(2) sl)
  have big: "length c + 2 + pad \<le> bufSize (int (length q))"
    using encoded_longer(1,2) [of "2 + length p"] by (auto simp: bufSize_def n(2) sl pl)
  have enc: "Block_encodeName io c iv (bufSize (int (length q))) = Inr (q, iv')"
    using big e pad by (simp add: Block_encodeName_def Let_def io pad_def [symmetric] p_def [symmetric] mac v_def [symmetric]
        q_def src_def)
  define buf where "buf = name_bytes (bn_caseInsensitive io) q"
  have buf: "take (2 + length p) buf = src" using n(3) by (simp add: buf_def sl)
  have nth: "buf ! i = src ! i" if "i < 2 + length p" for i
    using that buf nth_take [of i "2 + length p" buf] by simp
  have parts: "mac16_of (buf ! 0) (buf ! 1) = fold_16 m" "take (length p) (drop 2 buf) = e"
    using mac16_roundtrip [of m] prefix_parts [of "mac16_bytes (fold_16 m)" e buf] buf
    by (simp_all add: nth src_def mac16_bytes_def e numeral_2_eq_2)
  have nb: "nbs \<le> length p" using pm pne nbs(1) by (metis dvd_imp_le length_greater_0_conv mod_0_imp_dvd)
  have fin: "int (length p) - int pad = int (length c)" "int (length c) < int (bufSize (int (length p)))"
    and tk: "take (length c) p = c" by (auto simp: pl bufSize_def p_def)
  have last': "unat (p ! (length p - Suc 0)) = pad" "uint (p ! (length p - Suc 0)) = int pad"
    using last by (simp_all add: uint_nat)
  have "Block_decodeName io q iv (bufSize (int (length p))) = Inr (c, iv')"
    unfolding Block_decodeName_def dl Let_def io nat_int buf_def [symmetric] parts
    using nb e pad fin by (simp add: mac v_def [symmetric] last' tk)
  moreover have "q \<noteq> []" "length c \<le> length p" using n(1) by (simp_all add: plain_component_def pl)
  ultimately show ?thesis
    using enc n(1) pne by (intro exI [of _ q] exI [of _ iv']) (simp add: ml dl)
qed

end

lemma name_codec_weaken: "name_codec maxEnc maxDec enc dec False \<Longrightarrow> name_codec maxEnc maxDec enc dec m"
  unfolding name_codec_def by blast

text \<open>The implementations as the constructors make them: every encoded name is a plain component.\<close>

lemma name_codecI:
  assumes "\<And>c iv. c \<noteq> [] \<Longrightarrow> \<exists>q iv'. enc c iv (bufSize (maxEnc (length c))) = Inr (q, iv') \<and> plain_component q \<and>
      hd q \<noteq> plus_sign \<and> 0 < maxEnc (length c) \<and> int (length q) \<le> maxEnc (length c) \<and>
      dec q iv (bufSize (maxDec (length q))) = Inr (c, iv') \<and> 0 < maxDec (length q) \<and> int (length c) \<le> maxDec (length q)"
  shows "name_codec maxEnc maxDec enc dec False"
proof
  fix c :: bytes and iv
  assume "c \<noteq> []"
  from assms [OF this, of iv] show "\<exists>q iv'. enc c iv (bufSize (maxEnc (length c))) = Inr (q, iv') \<and>
      (plain_component c \<longrightarrow> plain_component q) \<and> q \<noteq> [] \<and> 0 \<notin> set q \<and> (hd q = plus_sign \<longrightarrow> False \<and> hd c = plus_sign) \<and>
      0 < maxEnc (length c) \<and> int (length q) \<le> maxEnc (length c) \<and>
      dec q iv (bufSize (maxDec (length q))) = Inr (c, iv') \<and> 0 < maxDec (length q) \<and> int (length c) \<le> maxDec (length q)"
    by (auto simp: plain_component_def)
qed

sublocale name_cipher \<subseteq> stream_name: name_codec
  "nio_maxEncodedNameLen (StreamNameIO iface cph key)" "nio_maxDecodedNameLen (StreamNameIO iface cph key)"
  "nio_encodeName (StreamNameIO iface cph key)" "nio_decodeName (StreamNameIO iface cph key)" False for iface
  by (rule name_codecI) (simp add: StreamNameIO_def Let_def stream_name_codes)

context name_cipher
begin

lemma block_name_codec:
  assumes "BlockNameIO iface cph key nbs ci = Inr io"
  shows "name_codec (nio_maxEncodedNameLen io) (nio_maxDecodedNameLen io) (nio_encodeName io) (nio_decodeName io) False"
  by (rule name_codecI) (use assms nbs in \<open>auto simp: BlockNameIO_def Let_def block_name_codes split: if_splits\<close>)

end

sublocale ssl_keyed \<subseteq> name: name_cipher "ssl_as_cipher lib cph" key "EVP_block_size lib (ssl_blockCipher cph)"
proof
  show "0 < EVP_block_size lib (ssl_blockCipher cph)" "EVP_block_size lib (ssl_blockCipher cph) < 128"
    using block_size [of "ssl_blockCipher cph"] by auto
qed (simp_all add: stream_coder block_coder mac_total)

interpretation null_cipher_name: name_cipher "NullCipher iface" "()" 1 for iface
  by unfold_locales (auto simp: NullCipher_def Null_coder_def inverts_def)

section \<open>Properties\<close>

text \<open>The four codings of names, on top of an SSL cipher.\<close>

definition ssl_nameio :: "'r openssl \<Rightarrow> ssl_cipher \<Rightarrow> sslkey \<Rightarrow> nameio \<Rightarrow> bool" where
  "ssl_nameio lib cph key io =
     (io = NullNameIO \<or> (\<exists>iface. io = StreamNameIO iface (ssl_as_cipher lib cph) key) \<or>
      (\<exists>iface. NewBlockNameIO iface (ssl_as_cipher lib cph) key = Inr io) \<or>
      (\<exists>iface. NewBlockNameIO32 iface (ssl_as_cipher lib cph) key = Inr io))"

context ssl_keyed
begin

lemma ssl_nameio_codec:
  assumes "ssl_nameio lib cph key io"
  shows "name_codec (nio_maxEncodedNameLen io) (nio_maxDecodedNameLen io) (nio_encodeName io) (nio_decodeName io) (io = NullNameIO)"
    "\<not> nio_reverseEncryption io"
proof -
  have "(io = NullNameIO \<or> name_codec (nio_maxEncodedNameLen io) (nio_maxDecodedNameLen io) (nio_encodeName io) (nio_decodeName io) False)
      \<and> \<not> nio_reverseEncryption io"
    using assms name.stream_name.name_codec_axioms name.block_name_codec
    by (auto simp: ssl_nameio_def NewBlockNameIO_def NewBlockNameIO32_def)
      (auto simp: NullNameIO_def StreamNameIO_def BlockNameIO_def Let_def split: if_splits)
  then show "name_codec (nio_maxEncodedNameLen io) (nio_maxDecodedNameLen io) (nio_encodeName io) (nio_decodeName io) (io = NullNameIO)"
    "\<not> nio_reverseEncryption io"
    using null_name.name_codec_axioms name_codec_weaken by (auto simp: NullNameIO_def)
qed

lemma name_roundtrip:
  assumes "ssl_nameio lib cph key io" "nm \<noteq> []" "0 \<notin> set nm"
  shows "\<exists>q. encodeName (setChainedNameIV chained io) nm = Inr q \<and> decodeName (setChainedNameIV chained io) q = Inr nm"
proof -
  note c = ssl_nameio_codec [OF assms(1)]
  from name_codec.codes [OF c(1) assms(2,3), of None] obtain q iv' where q:
    "nio_encodeName io nm None (bufSize (nio_maxEncodedNameLen io (length nm))) = Inr (q, iv')" "0 \<notin> set q"
    "int (length q) \<le> nio_maxEncodedNameLen io (length nm)"
    "nio_decodeName io q None (bufSize (nio_maxDecodedNameLen io (length q))) = Inr (nm, iv')"
    "int (length nm) \<le> nio_maxDecodedNameLen io (length q)" by blast
  have "takeWhile (\<lambda>c. c \<noteq> 0) q = q" "takeWhile (\<lambda>c. c \<noteq> 0) nm = nm"
    using q(2) assms(3) by (auto simp: takeWhile_eq_all_conv)
  then show ?thesis using q c(2)
    by (simp del: takeWhile_eq_all_conv add: encodeName_def decodeName_def encodeName_fwd_def decodeName_fwd_def setChainedNameIV_def Let_def)
qed

lemma path_head:
  assumes "ssl_nameio lib cph key io" "0 \<notin> set path" "path \<noteq> []" "hd path \<noteq> slash"
    and "encodePath (setChainedNameIV chained io) path iv = Inr (q, iv')"
  shows "q \<noteq> [] \<and> (hd q = plus_sign \<longrightarrow> io = NullNameIO \<and> hd path = plus_sign)"
proof -
  note c = ssl_nameio_codec [OF assms(1)]
  have "\<exists>iv''. recodePath (nio_maxEncodedNameLen io) (nio_encodeName io) path (if chained then Some iv else None) [] = Inr (q, iv'')"
    using assms(5) c(2) by (auto simp: encodePath_def encodePath_fwd_def setChainedNameIV_def split: sum.splits if_splits)
  then show ?thesis using name_codec.recode_head [OF c(1) assms(2-4)] by blast
qed

lemma path_roundtrip:
  assumes "ssl_nameio lib cph key io" "0 \<notin> set path"
  shows "\<exists>q iv'. encodePath (setChainedNameIV chained io) path iv = Inr (q, iv') \<and>
    decodePath (setChainedNameIV chained io) q iv = Inr (dropWhile (\<lambda>c. c = slash) path, iv')"
proof -
  note c = ssl_nameio_codec [OF assms(1)]
  obtain q iv' where q: "recodePath (nio_maxEncodedNameLen io) (nio_encodeName io) path (if chained then Some iv else None) [] = Inr (q, iv')"
    "recodePath (nio_maxDecodedNameLen io) (nio_decodeName io) q (if chained then Some iv else None) []
       = Inr (dropWhile (\<lambda>c. c = slash) path, iv')"
    using name_codec.recode_roundtrip [OF c(1) assms(2), of "[]" "[]" "if chained then Some iv else None"] by auto
  then show ?thesis using c(2)
    by (simp add: encodePath_def decodePath_def encodePath_fwd_def decodePath_fwd_def setChainedNameIV_def)
qed

end

text \<open>
  Claim C4. Encoding a path and decoding it gives the path back, without the slashes at its
  beginning, for each of the four codings, every interface version, with and without chained
  vectors; both directions end with the same chained vector. Components \<open>.\<close> and \<open>..\<close> and
  repeated slashes stay as they are.
\<close>

theorem path_coding_roundtrip:
  assumes "openssl_laws lib" "cipher_ok lib cph" "key_ok cph key" "ssl_nameio lib cph key io" "0 \<notin> set path"
  shows "\<exists>q iv'. encodePath (setChainedNameIV chained io) path iv = Inr (q, iv') \<and>
    decodePath (setChainedNameIV chained io) q iv = Inr (dropWhile (\<lambda>c. c = slash) path, iv')"
proof -
  have "ssl_keyed lib cph key" using assms by (simp add: ssl_keyed_def ssl_keyed_axioms_def)
  then show ?thesis by (rule ssl_keyed.path_roundtrip) (rule assms)+
qed

theorem path_coding_roundtrip_witness:
  "\<exists>q iv'. encodePath (setChainedNameIV True (StreamNameIO Stream_CurrentInterface (ssl_as_cipher xor_lib xor_aes) xor_key))
       (str ''/a/../b c'') 0 = Inr (q, iv') \<and>
     decodePath (setChainedNameIV True (StreamNameIO Stream_CurrentInterface (ssl_as_cipher xor_lib xor_aes) xor_key))
       q 0 = Inr (str ''a/../b c'', iv')"
proof -
  have p: "0 \<notin> set (str ''/a/../b c'')" "dropWhile (\<lambda>c. c = slash) (str ''/a/../b c'') = str ''a/../b c''" by code_simp+
  show ?thesis
    using path_coding_roundtrip [OF xor_laws.openssl_laws_axioms xor_aes_ok xor_key_ok _ p(1),
        of "StreamNameIO Stream_CurrentInterface (ssl_as_cipher xor_lib xor_aes) xor_key" True 0]
    unfolding p(2) by (simp add: ssl_nameio_def) blast
qed




end
