(* ===== verification/Open_Files.thy ===== *)
theory Open_Files
  imports File_IO "HOL-Library.AList_Mapping"
begin

text \<open>
  \<open>EncFS_Context\<close> (\<^verbatim>\<open>encfs/Context.cpp\<close>): the table of open files, the handles that are given
  to the kernel, and the idle monitor.

  \<^item> A \<open>FileNode\<close> is known here by its address, a number; the two fields of it that the context
    reads and writes, the handle and the canary, are in \<open>fn_fuseFh\<close> and \<open>fn_canary\<close>, and
    \<open>ctx_alloc\<close> is the next free address.
  \<^item> \<open>openFiles\<close> maps a plain path to the list of its openers, whose length is the reference
    count; \<open>fuseFhMap\<close> maps a handle to its node.
  \<^item> Every operation runs under the context's mutex and is one step.

  What the kernel does between mount and unmount is the step relation \<open>ctx_step\<close>; the invariant
  \<open>ctx_ok\<close> holds in every reachable state, and the table refines the list of handles that are
  open under each path.
\<close>

section \<open>The code\<close>

definition CANARY_OK :: u32 where "CANARY_OK = 0x46040975"
definition CANARY_RELEASED :: u32 where "CANARY_RELEASED = 0x70c5610d"
definition CANARY_DESTROYED :: u32 where "CANARY_DESTROYED = 0x52cdad90"

definition EBUSY :: int where "EBUSY = 16"

record efs_context =
  openFiles :: "(bytes, nat list) mapping"
  fuseFhMap :: "(u64, nat) mapping"
  currentFuseFh :: u64
  usageCount :: int
  idleCount :: int
  isUnmounting :: bool
  ctx_root :: bool
  mountOnDemand :: bool
  unmountCalls :: nat
  fn_fuseFh :: "nat \<Rightarrow> u64"
  fn_canary :: "nat \<Rightarrow> u32"
  ctx_alloc :: nat

definition EncFS_Context :: "bool \<Rightarrow> efs_context" where
  "EncFS_Context onDemand =
     \<lparr>openFiles = Mapping.empty, fuseFhMap = Mapping.empty, currentFuseFh = 1, usageCount = 0, idleCount = -1,
      isUnmounting = False, ctx_root = False, mountOnDemand = onDemand, unmountCalls = 0,
      fn_fuseFh = (\<lambda>_. 0), fn_canary = (\<lambda>_. 0), ctx_alloc = 0\<rparr>"

definition setRoot :: "bool \<Rightarrow> efs_context \<Rightarrow> efs_context" where
  "setRoot r s = s\<lparr>ctx_root := r\<rparr>"

text \<open>
  \<open>remountFS\<close> and \<open>unmountFS\<close> of \<^verbatim>\<open>encfs/FileUtils.cpp\<close>. Whether \<open>initFS\<close> finds a
  volume is its argument, a function of the context; an unmount that is asked of the system is counted.
\<close>

definition remountFS :: "(efs_context \<Rightarrow> bool) \<Rightarrow> efs_context \<Rightarrow> int \<times> efs_context" where
  "remountFS initFS s = (if initFS s then (0, setRoot True s) else (- EACCES, s))"

definition unmountFS :: "efs_context \<Rightarrow> bool \<times> efs_context" where
  "unmountFS s = (if mountOnDemand s then (False, setRoot False s) else (True, s\<lparr>unmountCalls := Suc (unmountCalls s)\<rparr>))"

text \<open>\<open>getRoot\<close>: 0 when there is a root, or an error number.\<close>

fun getRoot :: "(efs_context \<Rightarrow> bool) \<Rightarrow> bool \<Rightarrow> nat \<Rightarrow> (efs_context, int) io" where
  "getRoot initFS skipUsageCount 0 s = (Inl Diverged, s)"
| "getRoot initFS skipUsageCount (Suc fuel) s =
     (if isUnmounting s then (Inr (- EBUSY), s)
      else
        let s = (if skipUsageCount then s else s\<lparr>usageCount := usageCount s + 1\<rparr>) in
        if ctx_root s then (Inr 0, s)
        else case remountFS initFS s of
          (res, s) \<Rightarrow> if res \<noteq> 0 then (Inr res, s) else getRoot initFS skipUsageCount fuel s)"

text \<open>
  One cycle of the idle monitor. The result tells whether the file system was unmounted.
\<close>

definition usageAndUnmount :: "int \<Rightarrow> efs_context \<Rightarrow> bool \<times> efs_context" where
  "usageAndUnmount timeoutCycles s =
     (if ctx_root s then
        let s = s\<lparr>idleCount := if usageCount s = 0 then idleCount s + 1 else 0, usageCount := 0\<rparr> in
        if idleCount s < timeoutCycles then (False, s)
        else if \<not> Mapping.is_empty (openFiles s) then (False, s)
        else unmountFS (if \<not> mountOnDemand s then s\<lparr>isUnmounting := True\<rparr> else s)
      else (False, s))"

text \<open>
  \<open>idleMonitor\<close> of \<^verbatim>\<open>encfs/main.cpp\<close>: the list holds what the file system operations do to the
  context during each wait; the thread is stopped at its end.
\<close>

definition ActivityCheckInterval :: int where "ActivityCheckInterval = 10"

definition timeoutCycles :: "int \<Rightarrow> int" where
  "timeoutCycles idleTimeout = 60 * idleTimeout div ActivityCheckInterval"

fun idleMonitor :: "int \<Rightarrow> (efs_context \<Rightarrow> efs_context) list \<Rightarrow> efs_context \<Rightarrow> bool \<times> efs_context" where
  "idleMonitor idleTimeout [] s = (False, s)"
| "idleMonitor idleTimeout (w # waits) s =
     (case usageAndUnmount (timeoutCycles idleTimeout) s of
        (unmountres, s) \<Rightarrow> if unmountres then (True, s) else idleMonitor idleTimeout waits (w s))"

definition ctx_lookupNode :: "bytes \<Rightarrow> efs_context \<Rightarrow> nat option" where
  "ctx_lookupNode path s = (case Mapping.lookup (openFiles s) path of None \<Rightarrow> None | Some l \<Rightarrow> Some (hd l))"

definition ctx_renameNode :: "bytes \<Rightarrow> bytes \<Rightarrow> efs_context \<Rightarrow> efs_context" where
  "ctx_renameNode from to s =
     (case Mapping.lookup (openFiles s) from of None \<Rightarrow> s
      | Some val \<Rightarrow> s\<lparr>openFiles := Mapping.update to val (Mapping.delete from (openFiles s))\<rparr>)"

definition putNode :: "bytes \<Rightarrow> nat \<Rightarrow> efs_context \<Rightarrow> efs_context" where
  "putNode path node s =
     s\<lparr>openFiles := Mapping.update path (node # (case Mapping.lookup (openFiles s) path of None \<Rightarrow> [] | Some l \<Rightarrow> l)) (openFiles s),
       fuseFhMap := Mapping.update (fn_fuseFh s node) node (fuseFhMap s)\<rparr>"

text \<open>\<open>fnode\<close> may be a null pointer, which is in no list.\<close>

definition eraseNode :: "bytes \<Rightarrow> nat option \<Rightarrow> (efs_context, unit) io" where
  "eraseNode path fnode s =
     (case Mapping.lookup (openFiles s) path of
        None \<Rightarrow> (Inl (Error ''it != openFiles.end()''), s)
      | Some l \<Rightarrow>
          (case fnode of
             None \<Rightarrow> (Inl (Error ''findIter != list.end()''), s)
           | Some p \<Rightarrow>
               if p \<notin> set l then (Inl (Error ''findIter != list.end()''), s)
               else
                 let l = remove1 p l;
                     s = (if p \<notin> set l
                          then s\<lparr>fuseFhMap := Mapping.delete (fn_fuseFh s p) (fuseFhMap s),
                                 fn_canary := (fn_canary s)(p := CANARY_RELEASED)\<rparr>
                          else s)
                 in (Inr (), s\<lparr>openFiles := if l = [] then Mapping.delete path (openFiles s) else Mapping.update path l (openFiles s)\<rparr>)))"

definition nextFuseFh :: "efs_context \<Rightarrow> u64 \<times> efs_context" where
  "nextFuseFh s = (currentFuseFh s, s\<lparr>currentFuseFh := currentFuseFh s + 1\<rparr>)"

definition lookupFuseFh :: "u64 \<Rightarrow> efs_context \<Rightarrow> nat option" where
  "lookupFuseFh n s = Mapping.lookup (fuseFhMap s) n"

text \<open>
  \<open>new FileNode(.., nextFuseFh())\<close> as \<open>DirNode::findOrCreate\<close> does it: the handle and the canary
  of the new object.
\<close>

definition newNode :: "efs_context \<Rightarrow> nat \<times> efs_context" where
  "newNode s =
     (case nextFuseFh s of
        (fuseFh, s) \<Rightarrow>
          (ctx_alloc s, s\<lparr>fn_fuseFh := (fn_fuseFh s)(ctx_alloc s := fuseFh),
                          fn_canary := (fn_canary s)(ctx_alloc s := CANARY_OK), ctx_alloc := Suc (ctx_alloc s)\<rparr>))"

section \<open>Steps and the invariant\<close>

abbreviation opened :: "efs_context \<Rightarrow> bytes \<Rightarrow> nat list option" where
  "opened s \<equiv> Mapping.lookup (openFiles s)"

text \<open>
  What the file system operations do to the table: creating a node that is not kept, opening a
  path (with the node that is there, or a new one), releasing a handle that is open under a
  path, and renaming to a path that is not open. Handles are not used up.
\<close>

inductive ctx_step :: "efs_context \<Rightarrow> efs_context \<Rightarrow> bool" where
  create: "ctx_alloc s < 2 ^ 64 - 2 \<Longrightarrow> newNode s = (p, s') \<Longrightarrow> ctx_step s s'"
| open_again: "ctx_lookupNode path s = Some p \<Longrightarrow> ctx_step s (putNode path p s)"
| open_new: "ctx_lookupNode path s = None \<Longrightarrow> ctx_alloc s < 2 ^ 64 - 2 \<Longrightarrow> newNode s = (p, s') \<Longrightarrow>
    ctx_step s (putNode path p s')"
| release: "opened s path = Some l \<Longrightarrow> p \<in> set l \<Longrightarrow> eraseNode path (Some p) s = (Inr (), s') \<Longrightarrow> ctx_step s s'"
| rename: "opened s to = None \<Longrightarrow> ctx_step s (ctx_renameNode from to s)"

inductive ctx_reachable :: "bool \<Rightarrow> efs_context \<Rightarrow> bool" for onDemand where
  init: "ctx_reachable onDemand (EncFS_Context onDemand)"
| step: "ctx_reachable onDemand s \<Longrightarrow> ctx_step s s' \<Longrightarrow> ctx_reachable onDemand s'"

inductive_cases ctx_stepE: "ctx_step s s'"

text \<open>
  No list is empty; all openers of a path share one node, which is registered under its handle
  and alive; a registered handle belongs to an open node; no node is open under two paths;
  handles number the nodes.
\<close>

definition handles_ok :: "efs_context \<Rightarrow> bool" where
  "handles_ok s = (currentFuseFh s = of_nat (Suc (ctx_alloc s)) \<and> ctx_alloc s < 2 ^ 64 - 1 \<and>
     (\<forall>p<ctx_alloc s. fn_fuseFh s p = of_nat (Suc p)))"

definition table_ok :: "efs_context \<Rightarrow> bool" where
  "table_ok s =
     ((\<forall>path l. opened s path = Some l \<longrightarrow>
        (\<exists>k p. l = replicate (Suc k) p \<and> p < ctx_alloc s \<and> fn_canary s p = CANARY_OK \<and>
           lookupFuseFh (fn_fuseFh s p) s = Some p)) \<and>
      (\<forall>h p. lookupFuseFh h s = Some p \<longrightarrow> (\<exists>path l. opened s path = Some l \<and> p \<in> set l \<and> fn_fuseFh s p = h)) \<and>
      (\<forall>path path' l l' p. opened s path = Some l \<longrightarrow> opened s path' = Some l' \<longrightarrow>
         p \<in> set l \<longrightarrow> p \<in> set l' \<longrightarrow> path = path'))"

definition ctx_ok :: "efs_context \<Rightarrow> bool" where
  "ctx_ok s = (handles_ok s \<and> table_ok s)"

section \<open>The invariant\<close>

lemma handle_inj:
  assumes "handles_ok s" "p < ctx_alloc s" "q < ctx_alloc s" "fn_fuseFh s p = fn_fuseFh s q"
  shows "p = q"
proof -
  have lt: "Suc p < 2 ^ 64" "Suc q < 2 ^ 64" using assms(1-3) by (auto simp: handles_ok_def)
  have "(of_nat (Suc p) :: u64) = of_nat (Suc q)" using assms by (simp add: handles_ok_def)
  then have "unat (of_nat (Suc p) :: u64) = unat (of_nat (Suc q) :: u64)" by (rule arg_cong)
  then show ?thesis using lt by (simp add: unat_of_nat take_bit_nat_eq_self del: of_nat_Suc)
qed

lemma table_open:
  assumes "table_ok s" "opened s path = Some l"
  obtains k p where "l = replicate (Suc k) p" "p < ctx_alloc s" "fn_canary s p = CANARY_OK"
    "lookupFuseFh (fn_fuseFh s p) s = Some p"
  using assms unfolding table_ok_def by blast

lemma table_member:
  assumes "table_ok s" "opened s path = Some l" "p \<in> set l"
  shows "p < ctx_alloc s" "fn_canary s p = CANARY_OK" "lookupFuseFh (fn_fuseFh s p) s = Some p"
    "\<exists>k. l = replicate (Suc k) p"
proof -
  from table_open [OF assms(1,2)] obtain k q where q: "l = replicate (Suc k) q" "q < ctx_alloc s"
    "fn_canary s q = CANARY_OK" "lookupFuseFh (fn_fuseFh s q) s = Some q" .
  moreover have "p = q" using assms(3) q(1) by (auto dest: in_set_replicate [THEN iffD1])
  ultimately show "p < ctx_alloc s" "fn_canary s p = CANARY_OK" "lookupFuseFh (fn_fuseFh s p) s = Some p"
    "\<exists>k. l = replicate (Suc k) p" by auto
qed

lemma table_handle:
  assumes "table_ok s" "lookupFuseFh h s = Some p"
  obtains path l where "opened s path = Some l" "p \<in> set l" "fn_fuseFh s p = h"
  using assms unfolding table_ok_def by blast

lemma table_unique:
  assumes "table_ok s" "opened s path = Some l" "opened s path' = Some l'" "p \<in> set l" "p \<in> set l'"
  shows "path = path'"
  using assms unfolding table_ok_def by blast

lemma table_okI:
  assumes "\<And>path l. opened s path = Some l \<Longrightarrow>
      \<exists>k p. l = replicate (Suc k) p \<and> p < ctx_alloc s \<and> fn_canary s p = CANARY_OK \<and> lookupFuseFh (fn_fuseFh s p) s = Some p"
    and "\<And>h p. lookupFuseFh h s = Some p \<Longrightarrow> \<exists>path l. opened s path = Some l \<and> p \<in> set l \<and> fn_fuseFh s p = h"
    and "\<And>path path' l l' p. opened s path = Some l \<Longrightarrow> opened s path' = Some l' \<Longrightarrow> p \<in> set l \<Longrightarrow> p \<in> set l' \<Longrightarrow> path = path'"
  shows "table_ok s"
  using assms unfolding table_ok_def by blast

lemma newNode_facts:
  assumes "newNode s = (p, s')"
  shows "p = ctx_alloc s" "openFiles s' = openFiles s" "fuseFhMap s' = fuseFhMap s" "fn_canary s' p = CANARY_OK"
    "ctx_alloc s' = Suc (ctx_alloc s)" "q < ctx_alloc s \<Longrightarrow> fn_fuseFh s' q = fn_fuseFh s q"
    "q < ctx_alloc s \<Longrightarrow> fn_canary s' q = fn_canary s q" "currentFuseFh s' = currentFuseFh s + 1"
    "fn_fuseFh s' p = currentFuseFh s"
  using assms by (auto simp: newNode_def nextFuseFh_def)

lemma newNode_ok:
  assumes ok: "ctx_ok s" and room: "ctx_alloc s < 2 ^ 64 - 2" and new: "newNode s = (p, s')"
  shows "ctx_ok s'"
proof -
  note f [simp] = newNode_facts [OF new]
  have h: "handles_ok s" and t: "table_ok s" using ok by (simp_all add: ctx_ok_def)
  have "handles_ok s'" using h room f(9) by (auto simp: handles_ok_def less_Suc_eq simp flip: f(1))
  moreover have "table_ok s'"
  proof (rule table_okI)
    fix path l assume "opened s' path = Some l"
    then have "opened s path = Some l" by simp
    from table_open [OF t this] show "\<exists>k p. l = replicate (Suc k) p \<and> p < ctx_alloc s' \<and> fn_canary s' p = CANARY_OK \<and>
        lookupFuseFh (fn_fuseFh s' p) s' = Some p"
      by (metis f(3,5,6,7) less_SucI lookupFuseFh_def)
  next
    fix hd q assume "lookupFuseFh hd s' = Some q"
    then have "lookupFuseFh hd s = Some q" by (simp add: lookupFuseFh_def)
    then obtain path l where "opened s path = Some l" "q \<in> set l" "fn_fuseFh s q = hd" by (rule table_handle [OF t])
    then show "\<exists>path l. opened s' path = Some l \<and> q \<in> set l \<and> fn_fuseFh s' q = hd"
      using table_member(1) [OF t, of path l q] by (intro exI [of _ path] exI [of _ l]) simp
  next
    fix path path' l l' q
    assume "opened s' path = Some l" "opened s' path' = Some l'" "q \<in> set l" "q \<in> set l'"
    then show "path = path'" by (simp add: table_unique [OF t])
  qed
  ultimately show ?thesis by (simp add: ctx_ok_def)
qed


lemma putNode_fields [simp]:
  "opened (putNode path p s) path' =
     (if path' = path then Some (p # (case opened s path of None \<Rightarrow> [] | Some l \<Rightarrow> l)) else opened s path')"
  "lookupFuseFh h (putNode path p s) = (if h = fn_fuseFh s p then Some p else lookupFuseFh h s)"
  "fn_canary (putNode path p s) = fn_canary s" "fn_fuseFh (putNode path p s) = fn_fuseFh s"
  "ctx_alloc (putNode path p s) = ctx_alloc s" "currentFuseFh (putNode path p s) = currentFuseFh s"
  by (simp_all add: putNode_def lookupFuseFh_def lookup_update')

lemma putNode_ok:
  assumes ok: "ctx_ok s" and p: "p < ctx_alloc s" "fn_canary s p = CANARY_OK"
    and own: "\<And>l. opened s path = Some l \<Longrightarrow> p \<in> set l" "\<And>path' l. opened s path' = Some l \<Longrightarrow> p \<in> set l \<Longrightarrow> path' = path"
  shows "ctx_ok (putNode path p s)"
proof -
  let ?s = "putNode path p s"
  have h: "handles_ok s" and t: "table_ok s" using ok by (simp_all add: ctx_ok_def)
  have inj: "fn_fuseFh s q = fn_fuseFh s p \<longleftrightarrow> q = p" if "q < ctx_alloc s" for q
    using handle_inj [OF h that p(1)] by auto
  have "handles_ok ?s" using h by (simp add: handles_ok_def)
  moreover have "table_ok ?s"
  proof (rule table_okI)
    fix path' l assume l: "opened ?s path' = Some l"
    show "\<exists>k q. l = replicate (Suc k) q \<and> q < ctx_alloc ?s \<and> fn_canary ?s q = CANARY_OK \<and> lookupFuseFh (fn_fuseFh ?s q) ?s = Some q"
    proof (cases "path' = path")
      case True
      have "\<exists>k. l = replicate (Suc k) p"
      proof (cases "opened s path")
        case None then show ?thesis using l True by (intro exI [of _ 0]) simp
      next
        case (Some l') then obtain k where "l' = replicate (Suc k) p" using table_member(4) [OF t Some own(1)] by blast
        then show ?thesis using l True Some by (intro exI [of _ "Suc k"]) simp
      qed
      then show ?thesis using p by auto
    next
      case False
      then have "opened s path' = Some l" using l by simp
      then obtain k q where "l = replicate (Suc k) q" "q < ctx_alloc s" "fn_canary s q = CANARY_OK" "lookupFuseFh (fn_fuseFh s q) s = Some q"
        by (rule table_open [OF t])
      then show ?thesis using inj by (intro exI [of _ k] exI [of _ q]) auto
    qed
  next
    fix hd q assume q: "lookupFuseFh hd ?s = Some q"
    show "\<exists>path l. opened ?s path = Some l \<and> q \<in> set l \<and> fn_fuseFh ?s q = hd"
    proof (cases "hd = fn_fuseFh s p")
      case True then show ?thesis using q by (intro exI [of _ path]) auto
    next
      case False
      then have "lookupFuseFh hd s = Some q" using q by simp
      then obtain path' l where "opened s path' = Some l" "q \<in> set l" "fn_fuseFh s q = hd" by (rule table_handle [OF t])
      then show ?thesis by (intro exI [of _ path']) auto
    qed
  next
    fix path1 path2 l1 l2 q assume a: "opened ?s path1 = Some l1" "opened ?s path2 = Some l2" "q \<in> set l1" "q \<in> set l2"
    have "path1 = path \<longleftrightarrow> q = p" if "opened ?s path1 = Some l1" "q \<in> set l1" for path1 l1
    proof (cases "path1 = path")
      case True
      have "q = p" if "opened s path = Some l" "q \<in> set l" for l
        using table_member(4) [OF t that(1) own(1), OF that(1)] that(2) by (auto dest: in_set_replicate [THEN iffD1])
      then show ?thesis using True that by (auto split: option.splits)
    next
      case False
      then show ?thesis using that own(2) [of path1 l1] by auto
    qed
    from this [OF a(1,3)] this [OF a(2,4)] show "path1 = path2"
      using a table_unique [OF t, of path1 l1 path2 l2 q] by (auto split: if_splits)
  qed
  ultimately show ?thesis by (simp add: ctx_ok_def)
qed

text \<open>Releasing an open node never raises, and this is what it does.\<close>

lemma eraseNode_open:
  assumes ok: "ctx_ok s" and l: "opened s path = Some l" "p \<in> set l"
  obtains s' where "eraseNode path (Some p) s = (Inr (), s')"
    "\<And>path'. opened s' path' = (if path' = path then (if tl l = [] then None else Some (tl l)) else opened s path')"
    "\<And>h. lookupFuseFh h s' = (if tl l = [] \<and> h = fn_fuseFh s p then None else lookupFuseFh h s)"
    "fn_canary s' = (if tl l = [] then (fn_canary s)(p := CANARY_RELEASED) else fn_canary s)"
    "fn_fuseFh s' = fn_fuseFh s" "ctx_alloc s' = ctx_alloc s" "currentFuseFh s' = currentFuseFh s"
proof -
  have t: "table_ok s" using ok by (simp add: ctx_ok_def)
  obtain k where k: "l = replicate (Suc k) p" using table_member(4) [OF t l] by blast
  show thesis
  proof (cases k)
    case 0
    then show ?thesis using k l by (intro that [of "snd (eraseNode path (Some p) s)"]) (auto simp: eraseNode_def lookupFuseFh_def lookup_delete lookup_update' Let_def)
  next
    case (Suc j)
    then show ?thesis using k l by (intro that [of "snd (eraseNode path (Some p) s)"]) (auto simp: eraseNode_def lookupFuseFh_def lookup_delete lookup_update' Let_def)
  qed
qed


lemma eraseNode_ok:
  assumes ok: "ctx_ok s" and l: "opened s path = Some l" "p \<in> set l"
    and er: "eraseNode path (Some p) s = (Inr (), s')"
  shows "ctx_ok s'"
proof -
  have h: "handles_ok s" and t: "table_ok s" using ok by (simp_all add: ctx_ok_def)
  from eraseNode_open [OF ok l] er have f [simp]:
    "\<And>path'. opened s' path' = (if path' = path then (if tl l = [] then None else Some (tl l)) else opened s path')"
    "\<And>h. lookupFuseFh h s' = (if tl l = [] \<and> h = fn_fuseFh s p then None else lookupFuseFh h s)"
    "fn_canary s' = (if tl l = [] then (fn_canary s)(p := CANARY_RELEASED) else fn_canary s)"
    "fn_fuseFh s' = fn_fuseFh s" "ctx_alloc s' = ctx_alloc s" "currentFuseFh s' = currentFuseFh s"
    by (metis prod.inject)+
  have p: "p < ctx_alloc s" "fn_canary s p = CANARY_OK" "lookupFuseFh (fn_fuseFh s p) s = Some p"
    using table_member [OF t l] by blast+
  obtain k where k: "l = replicate (Suc k) p" using table_member(4) [OF t l] by blast
  have "handles_ok s'" using h by (simp add: handles_ok_def)
  moreover have "table_ok s'"
  proof (rule table_okI)
    fix path' l' assume l': "opened s' path' = Some l'"
    show "\<exists>k q. l' = replicate (Suc k) q \<and> q < ctx_alloc s' \<and> fn_canary s' q = CANARY_OK \<and> lookupFuseFh (fn_fuseFh s' q) s' = Some q"
    proof (cases "path' = path")
      case True
      then have "l' = replicate k p" "k \<noteq> 0" using l' k by (auto split: if_splits)
      then show ?thesis using p k by (intro exI [of _ "k - 1"] exI [of _ p]) simp
    next
      case False
      then have o: "opened s path' = Some l'" using l' by simp
      then obtain j q where q: "l' = replicate (Suc j) q" "q < ctx_alloc s" "fn_canary s q = CANARY_OK"
        "lookupFuseFh (fn_fuseFh s q) s = Some q" by (rule table_open [OF t])
      have "q \<noteq> p" using table_unique [OF t o l(1), of p] l(2) q(1) False by auto
      then have "fn_fuseFh s q \<noteq> fn_fuseFh s p" using handle_inj [OF h q(2) p(1)] by blast
      then show ?thesis using q \<open>q \<noteq> p\<close> by (intro exI [of _ j] exI [of _ q]) simp
    qed
  next
    fix hd q assume q: "lookupFuseFh hd s' = Some q"
    then have "lookupFuseFh hd s = Some q" and not: "\<not> (tl l = [] \<and> hd = fn_fuseFh s p)" by (auto split: if_splits)
    then obtain path' l' where o: "opened s path' = Some l'" "q \<in> set l'" "fn_fuseFh s q = hd" by (metis table_handle [OF t])
    show "\<exists>path l. opened s' path = Some l \<and> q \<in> set l \<and> fn_fuseFh s' q = hd"
    proof (cases "path' = path")
      case True
      then have "q = p" using o l k by (auto dest: in_set_replicate [THEN iffD1])
      then have "k \<noteq> 0" using o not k by auto
      then show ?thesis using True o \<open>q = p\<close> k by (intro exI [of _ path]) auto
    next
      case False then show ?thesis using o by (intro exI [of _ path']) auto
    qed
  next
    fix path1 path2 l1 l2 q assume a: "opened s' path1 = Some l1" "opened s' path2 = Some l2" "q \<in> set l1" "q \<in> set l2"
    have "\<exists>l'. opened s path' = Some l' \<and> q \<in> set l'" if "opened s' path' = Some l1" "q \<in> set l1" for path' l1
      using that l k by (auto split: if_splits dest: in_set_replicate [THEN iffD1])
    from this [OF a(1,3)] this [OF a(2,4)] show "path1 = path2" using table_unique [OF t] by blast
  qed
  ultimately show ?thesis by (simp add: ctx_ok_def)
qed

lemma ctx_renameNode_fields:
  assumes "opened s from = Some l"
  shows "opened (ctx_renameNode from to s) path = (if path = to then Some l else if path = from then None else opened s path)"
    "lookupFuseFh h (ctx_renameNode from to s) = lookupFuseFh h s"
    "fn_canary (ctx_renameNode from to s) = fn_canary s" "fn_fuseFh (ctx_renameNode from to s) = fn_fuseFh s"
    "ctx_alloc (ctx_renameNode from to s) = ctx_alloc s" "currentFuseFh (ctx_renameNode from to s) = currentFuseFh s"
  using assms by (simp_all add: ctx_renameNode_def lookupFuseFh_def lookup_update' lookup_delete)

lemma ctx_renameNode_ok:
  assumes ok: "ctx_ok s" and to: "opened s to = None"
  shows "ctx_ok (ctx_renameNode from to s)"
proof (cases "opened s from")
  case None then show ?thesis using ok by (simp add: ctx_renameNode_def)
next
  case (Some l)
  let ?s = "ctx_renameNode from to s"
  note f [simp] = ctx_renameNode_fields [OF Some]
  define old where "old path = (if path = to then from else path)" for path
  have h: "handles_ok s" and t: "table_ok s" using ok by (simp_all add: ctx_ok_def)
  have old: "opened s (old path) = Some l'" "path \<noteq> from \<or> from = to" if "opened ?s path = Some l'" for path l'
    using that Some by (auto simp: old_def split: if_splits)
  have inj: "path1 = path2" if "old path1 = old path2" "path1 \<noteq> from \<or> from = to" "path2 \<noteq> from \<or> from = to" for path1 path2
    using that by (auto simp: old_def split: if_splits)
  have "handles_ok ?s" using h by (simp add: handles_ok_def)
  moreover have "table_ok ?s"
  proof (rule table_okI)
    fix path l' assume "opened ?s path = Some l'"
    from old(1) [OF this] show "\<exists>k q. l' = replicate (Suc k) q \<and> q < ctx_alloc ?s \<and> fn_canary ?s q = CANARY_OK \<and> lookupFuseFh (fn_fuseFh ?s q) ?s = Some q"
      by (rule table_open [OF t]) auto
  next
    fix hd q assume "lookupFuseFh hd ?s = Some q"
    then obtain path' l' where o: "opened s path' = Some l'" "q \<in> set l'" "fn_fuseFh s q = hd" by (metis f(2) table_handle [OF t])
    then show "\<exists>path l. opened ?s path = Some l \<and> q \<in> set l \<and> fn_fuseFh ?s q = hd"
      using Some to by (intro exI [of _ "if path' = from then to else path'"] exI [of _ l']) auto
  next
    fix path1 path2 l1 l2 q assume a: "opened ?s path1 = Some l1" "opened ?s path2 = Some l2" "q \<in> set l1" "q \<in> set l2"
    show "path1 = path2" using table_unique [OF t old(1) [OF a(1)] old(1) [OF a(2)] a(3,4)] inj old(2) a by blast
  qed
  ultimately show ?thesis by (simp add: ctx_ok_def)
qed

lemma ctx_step_ok: "ctx_step s s' \<Longrightarrow> ctx_ok s \<Longrightarrow> ctx_ok s'"
proof (induction rule: ctx_step.induct)
  case (create s p s') then show ?case by (auto intro: newNode_ok)
next
  case (open_again path s p)
  then obtain l where l: "opened s path = Some l" "p = hd l" by (auto simp: ctx_lookupNode_def split: option.splits)
  have t: "table_ok s" using open_again.prems by (simp add: ctx_ok_def)
  have "p \<in> set l" using table_open [OF t l(1)] l(2) by (metis hd_in_set length_replicate list.size(3) nat.distinct(1))
  then show ?case using table_member [OF t l(1)] l(1)
    by (intro putNode_ok [OF open_again.prems]) (auto dest: table_unique [OF t])
next
  case (open_new path s p s')
  have t: "table_ok s" using open_new.prems by (simp add: ctx_ok_def)
  note f = newNode_facts [OF open_new.hyps(3)]
  show ?case
  proof (rule putNode_ok [OF newNode_ok [OF open_new.prems open_new.hyps(2,3)]])
    show "p < ctx_alloc s'" "fn_canary s' p = CANARY_OK" using f(1,4,5) by simp_all
    show "p \<in> set l" if "opened s' path = Some l" for l
      using that open_new.hyps(1) f(2) by (auto simp: ctx_lookupNode_def split: option.splits)
    show "path' = path" if "opened s' path' = Some l" "p \<in> set l" for path' l
      using table_member(1) [OF t, of path' l p] that f(1,2) by auto
  qed
next
  case (release s path l p s') then show ?case by (auto intro: eraseNode_ok)
next
  case (rename s to "from") then show ?case by (auto intro: ctx_renameNode_ok)
qed

lemma ctx_ok_init: "ctx_ok (EncFS_Context onDemand)"
  by (simp add: ctx_ok_def handles_ok_def table_ok_def EncFS_Context_def lookupFuseFh_def)

lemma reachable_ok: "ctx_reachable onDemand s \<Longrightarrow> ctx_ok s"
  by (induction rule: ctx_reachable.induct) (auto intro: ctx_ok_init ctx_step_ok)


section \<open>What the table promises\<close>

text \<open>The abstract table: the handles that are open under a path, one entry for each opener.\<close>

definition openers :: "efs_context \<Rightarrow> bytes \<Rightarrow> u64 list" where
  "openers s path = (case opened s path of None \<Rightarrow> [] | Some l \<Rightarrow> map (fn_fuseFh s) l)"

lemma openers_node:
  assumes ok: "ctx_ok s" and h: "h \<in> set (openers s path)"
  obtains k p where "opened s path = Some (replicate (Suc k) p)" "openers s path = replicate (Suc k) h"
    "fn_fuseFh s p = h" "lookupFuseFh h s = Some p" "fn_canary s p = CANARY_OK" "p < ctx_alloc s"
proof -
  have t: "table_ok s" using ok by (simp add: ctx_ok_def)
  obtain l where l: "opened s path = Some l" "h \<in> fn_fuseFh s ` set l"
    using h by (cases "opened s path") (auto simp: openers_def)
  from table_open [OF t l(1)] obtain k p where "l = replicate (Suc k) p" "p < ctx_alloc s" "fn_canary s p = CANARY_OK"
    "lookupFuseFh (fn_fuseFh s p) s = Some p" .
  with l show ?thesis by (intro that [of k p]) (auto simp: openers_def)
qed

lemma release_open:
  assumes ok: "ctx_ok s" and h: "h \<in> set (openers s path)"
  shows "\<exists>s'. eraseNode path (lookupFuseFh h s) s = (Inr (), s') \<and>
      openers s' = (openers s)(path := remove1 h (openers s path)) \<and>
      (lookupFuseFh h s' = None \<longleftrightarrow> length (openers s path) = 1) \<and> (\<forall>h'. h' \<noteq> h \<longrightarrow> lookupFuseFh h' s' = lookupFuseFh h' s)"
proof -
  obtain k p where p: "opened s path = Some (replicate (Suc k) p)" "openers s path = replicate (Suc k) h"
    "fn_fuseFh s p = h" "lookupFuseFh h s = Some p" by (rule openers_node [OF ok h])
  obtain s' where s': "eraseNode path (Some p) s = (Inr (), s')"
    "\<And>path'. opened s' path' = (if path' = path then (if k = 0 then None else Some (replicate k p)) else opened s path')"
    "\<And>h'. lookupFuseFh h' s' = (if k = 0 \<and> h' = h then None else lookupFuseFh h' s)" "fn_fuseFh s' = fn_fuseFh s"
    by (rule eraseNode_open [OF ok p(1), of p]) (auto simp: p(3))
  have "openers s' = (openers s)(path := remove1 h (openers s path))"
    by (rule ext) (simp add: openers_def s'(2,4) p split: option.split)
  then show ?thesis using s' p by (intro exI [of _ s']) auto
qed

lemma open_table_facts:
  assumes ok: "ctx_ok s"
  shows "\<forall>path h h'. h \<in> set (openers s path) \<longrightarrow> h' \<in> set (openers s path) \<longrightarrow> h = h'"
    and "\<forall>path path' h. h \<in> set (openers s path) \<longrightarrow> h \<in> set (openers s path') \<longrightarrow> path = path'"
    and "\<forall>h. (\<exists>path. h \<in> set (openers s path)) \<longleftrightarrow> lookupFuseFh h s \<noteq> None"
    and "\<forall>h p. lookupFuseFh h s = Some p \<longrightarrow> fn_fuseFh s p = h \<and> fn_canary s p = CANARY_OK"
proof -
  have t: "table_ok s" using ok by (simp add: ctx_ok_def)
  show "\<forall>path h h'. h \<in> set (openers s path) \<longrightarrow> h' \<in> set (openers s path) \<longrightarrow> h = h'"
    by (metis openers_node [OF ok] in_set_replicate)
  show "\<forall>path path' h. h \<in> set (openers s path) \<longrightarrow> h \<in> set (openers s path') \<longrightarrow> path = path'"
  proof (intro allI impI)
    fix path path' h1 assume "h1 \<in> set (openers s path)" "h1 \<in> set (openers s path')"
    then obtain k p k' p' where "opened s path = Some (replicate (Suc k) p)" "opened s path' = Some (replicate (Suc k') p')"
      "lookupFuseFh h1 s = Some p" "lookupFuseFh h1 s = Some p'" by (metis openers_node [OF ok])
    then show "path = path'" by (intro table_unique [OF t, of path "replicate (Suc k) p" path' "replicate (Suc k') p'" p]) auto
  qed
  show "\<forall>h. (\<exists>path. h \<in> set (openers s path)) \<longleftrightarrow> lookupFuseFh h s \<noteq> None"
  proof (intro allI iffI)
    fix h1 assume "\<exists>path. h1 \<in> set (openers s path)" then show "lookupFuseFh h1 s \<noteq> None" by (metis openers_node [OF ok] option.distinct(1))
  next
    fix h1 assume "lookupFuseFh h1 s \<noteq> None"
    then obtain p where "lookupFuseFh h1 s = Some p" by blast
    then obtain path l where "opened s path = Some l" "p \<in> set l" "fn_fuseFh s p = h1" by (rule table_handle [OF t])
    then show "\<exists>path. h1 \<in> set (openers s path)" by (intro exI [of _ path]) (auto simp: openers_def)
  qed
  show "\<forall>h p. lookupFuseFh h s = Some p \<longrightarrow> fn_fuseFh s p = h \<and> fn_canary s p = CANARY_OK"
    by (metis table_handle [OF t] table_member(2) [OF t])
qed


text \<open>A file opened twice, another one opened, and one of the handles released.\<close>

definition demo_table :: efs_context where
  "demo_table =
     (let (p, s) = newNode (EncFS_Context False);
          s = putNode [97] p (putNode [97] p s);
          (q, s) = newNode s;
          s = putNode [98] q s
      in snd (eraseNode [97] (lookupFuseFh 1 s) s))"

lemma demo_table_reachable: "ctx_reachable False demo_table"
proof -
  let ?s0 = "EncFS_Context False"
  let ?s1 = "snd (newNode ?s0)"
  let ?s2 = "putNode [97] 0 ?s1"
  let ?s3 = "putNode [97] 0 ?s2"
  let ?s4 = "snd (newNode ?s3)"
  let ?s5 = "putNode [98] 1 ?s4"
  note defs = newNode_def nextFuseFh_def EncFS_Context_def putNode_def ctx_lookupNode_def lookup_update' lookupFuseFh_def
  have "ctx_reachable False ?s2"
    by (rule ctx_reachable.step [OF ctx_reachable.init ctx_step.open_new]) (simp_all add: defs)
  then have "ctx_reachable False ?s3" by (rule ctx_reachable.step [OF _ ctx_step.open_again]) (simp add: defs)
  then have s5: "ctx_reachable False ?s5"
    by (rule ctx_reachable.step [OF _ ctx_step.open_new]) (simp_all add: defs)
  have d: "demo_table = snd (eraseNode [97] (lookupFuseFh 1 ?s5) ?s5)" by (simp add: demo_table_def defs)
  have o: "opened ?s5 [97] = Some [0, 0]" "lookupFuseFh 1 ?s5 = Some 0" by (simp_all add: defs)
  have "\<exists>s'. eraseNode [97] (Some 0) ?s5 = (Inr (), s')" using o(1) by (simp add: eraseNode_def Let_def)
  then obtain s' where s': "eraseNode [97] (Some 0) ?s5 = (Inr (), s')" ..
  have "ctx_reachable False s'" using s5 by (rule ctx_reachable.step [OF _ ctx_step.release [OF o(1) _ s']]) simp
  then show ?thesis by (simp only: d o s' snd_conv)
qed



text \<open>
  Claim C8. Opening, releasing and renaming do to the table what they do to the abstract one.
  Opening adds an opener; releasing a handle that is open under the path never raises, removes one opener of that path,
  and forgets the handle exactly when it was the last; renaming to a path that is not open moves all openers.
\<close>

theorem open_table_refines:
  assumes "ctx_reachable onDemand s"
  shows "openers (putNode path p s) = (openers s)(path := fn_fuseFh s p # openers s path) \<and>
    (h \<in> set (openers s path) \<longrightarrow>
      (\<exists>s'. eraseNode path (lookupFuseFh h s) s = (Inr (), s') \<and>
        openers s' = (openers s)(path := remove1 h (openers s path)) \<and>
        (lookupFuseFh h s' = None \<longleftrightarrow> length (openers s path) = 1) \<and>
        (\<forall>h'. h' \<noteq> h \<longrightarrow> lookupFuseFh h' s' = lookupFuseFh h' s))) \<and>
    (openers s to = [] \<longrightarrow> openers (ctx_renameNode from to s) = (openers s)(from := [], to := openers s from))"
proof (intro conjI impI)
  have ok: "ctx_ok s" using assms by (rule reachable_ok)
  show "openers (putNode path p s) = (openers s)(path := fn_fuseFh s p # openers s path)"
    by (rule ext) (simp add: openers_def split: option.split)
  show "\<exists>s'. eraseNode path (lookupFuseFh h s) s = (Inr (), s') \<and>
        openers s' = (openers s)(path := remove1 h (openers s path)) \<and>
        (lookupFuseFh h s' = None \<longleftrightarrow> length (openers s path) = 1) \<and> (\<forall>h'. h' \<noteq> h \<longrightarrow> lookupFuseFh h' s' = lookupFuseFh h' s)"
    if "h \<in> set (openers s path)"
    by (rule release_open [OF ok that])
  show "openers (ctx_renameNode from to s) = (openers s)(from := [], to := openers s from)" if "openers s to = []"
  proof (cases "opened s from")
    case None then show ?thesis using that by (auto simp: ctx_renameNode_def openers_def fun_eq_iff)
  next
    case (Some l) then show ?thesis
      by (intro ext) (simp add: openers_def ctx_renameNode_fields [OF Some] split: option.split)
  qed
qed

theorem open_table_refines_witness:
  "\<exists>s'. eraseNode [97] (lookupFuseFh 1 demo_table) demo_table = (Inr (), s') \<and> openers s' [97] = [] \<and> lookupFuseFh 1 s' = None"
proof -
  have "openers demo_table [97] = [1]"
    by (simp add: demo_table_def openers_def eraseNode_def newNode_def nextFuseFh_def EncFS_Context_def putNode_def
        lookup_update' lookupFuseFh_def)
  then show ?thesis using open_table_refines [OF demo_table_reachable, of "[97]" 0 1 "[97]" "[97]"] by auto
qed



section \<open>The root and the idle monitor\<close>


text \<open>One cycle while the file system is in use or has open files.\<close>

lemma busy_cycle:
  assumes "0 < T" "usageCount s \<noteq> 0 \<or> \<not> Mapping.is_empty (openFiles s)"
  shows "usageAndUnmount T s = (False, if ctx_root s then s\<lparr>idleCount := if usageCount s = 0 then idleCount s + 1 else 0, usageCount := 0\<rparr> else s)"
  using assms by (auto simp: usageAndUnmount_def Let_def)

lemma idle_cycle:
  assumes "ctx_root s" "usageCount s = 0" "idleCount s + 1 < T"
  shows "usageAndUnmount T s = (False, s\<lparr>idleCount := idleCount s + 1\<rparr>)"
  using assms by (simp add: usageAndUnmount_def Let_def)

definition in_use :: "efs_context \<Rightarrow> bool" where
  "in_use s = (usageCount s \<noteq> 0 \<or> \<not> Mapping.is_empty (openFiles s))"

lemma idle_cycles:
  assumes "ctx_root s" "usageCount s = 0" "idleCount s + int m < timeoutCycles T"
  shows "idleMonitor T (replicate m id @ ws) s = idleMonitor T ws (s\<lparr>idleCount := idleCount s + int m\<rparr>)"
  using assms by (induction m arbitrary: s) (simp_all add: idle_cycle ac_simps)

lemma last_cycle:
  assumes "ctx_root s" "usageCount s = 0" "Mapping.is_empty (openFiles s)" "idleCount s + 1 = timeoutCycles T"
  shows "idleMonitor T (id # ws) s =
    (if mountOnDemand s then idleMonitor T ws (s\<lparr>idleCount := timeoutCycles T, ctx_root := False\<rparr>)
     else (True, s\<lparr>idleCount := timeoutCycles T, isUnmounting := True, unmountCalls := Suc (unmountCalls s)\<rparr>))"
  using assms by (cases s) (simp add: usageAndUnmount_def unmountFS_def setRoot_def Let_def)

lemma busy_run:
  assumes "0 < T" "in_use s"
    and "\<And>w s. w \<in> set waits \<Longrightarrow> in_use (w s) \<and> unmountCalls (w s) = unmountCalls s \<and> ctx_root (w s) = ctx_root s"
  shows "fst (idleMonitor T waits s) = False \<and> unmountCalls (snd (idleMonitor T waits s)) = unmountCalls s \<and>
    ctx_root (snd (idleMonitor T waits s)) = ctx_root s"
  using assms
proof (induction waits arbitrary: s)
  case (Cons w waits)
  have "0 < timeoutCycles T" using Cons.prems(1) by (simp add: timeoutCycles_def ActivityCheckInterval_def)
  then show ?case using Cons by (simp add: busy_cycle in_use_def)
qed simp



end
