(* ===== verification/Config_Var.thy ===== *)
theory Config_Var
  imports Versioning
begin

text \<open>
  \<open>ConfigVar\<close>, the growable byte string in which the version 4 and 5 configurations store
  their values (\<^verbatim>\<open>encfs/ConfigVar.cpp\<close>), and \<open>ConfigReader\<close>, the map from keys to such
  strings that is written to the configuration file (\<^verbatim>\<open>encfs/ConfigReader.cpp\<close>).

  An \<open>int\<close> is a word of width 32, read as two's complement, since \<open>writeInt\<close> and \<open>readInt\<close>
  shift and mask it. The reader's \<open>std::map\<close> is the list of its entries in the order of the
  keys, which is the order in which \<open>toVar\<close> writes them.
\<close>

section \<open>ConfigVar\<close>

record configvar =
  cv_buffer :: bytes
  cv_offset :: nat

definition ConfigVar_default :: configvar where
  "ConfigVar_default = \<lparr>cv_buffer = [], cv_offset = 0\<rparr>"

definition ConfigVar :: "bytes \<Rightarrow> configvar" where
  "ConfigVar buf = \<lparr>cv_buffer = buf, cv_offset = 0\<rparr>"

definition resetOffset :: "(configvar, unit) io" where
  "resetOffset = (\<lambda>s. (Inr (), s\<lparr>cv_offset := 0\<rparr>))"

text \<open>\<open>read\<close> gives the bytes it copied; their number is the value the code returns.\<close>

definition cv_read :: "nat \<Rightarrow> (configvar, bytes) io" where
  "cv_read n = (\<lambda>s. let toCopy = min n (length (cv_buffer s) - cv_offset s) in
     (Inr (take toCopy (drop (cv_offset s) (cv_buffer s))),
      s\<lparr>cv_offset := cv_offset s + toCopy\<rparr>))"

text \<open>In the middle of the buffer \<open>write\<close> inserts; it does not overwrite.\<close>

definition cv_write :: "bytes \<Rightarrow> (configvar, nat) io" where
  "cv_write d = (\<lambda>s.
     (Inr (length d),
      s\<lparr>cv_buffer := (if length (cv_buffer s) = cv_offset s then cv_buffer s @ d
                      else take (cv_offset s) (cv_buffer s) @ d @ drop (cv_offset s) (cv_buffer s)),
        cv_offset := cv_offset s + length d\<rparr>))"

definition berDigits :: "u32 \<Rightarrow> bytes" where
  "berDigits val =
     [0x80 OR ucast (drop_bit 28 (val AND 0xf0000000)),
      0x80 OR ucast (drop_bit 21 (val AND 0x0fe00000)),
      0x80 OR ucast (drop_bit 14 (val AND 0x001fc000)),
      0x80 OR ucast (drop_bit 7 (val AND 0x00003f80)),
      ucast (val AND 0x0000007f)]"

definition writeInt :: "u32 \<Rightarrow> (configvar, unit) io" where
  "writeInt val = io_bind (cv_write (dropWhile (\<lambda>d. d = 0x80) (berDigits val))) (\<lambda>_. io_return ())"

definition writeString :: "bytes \<Rightarrow> (configvar, unit) io" where
  "writeString d = io_bind (writeInt (of_nat (length d)))
     (\<lambda>_. io_bind (cv_write d) (\<lambda>_. io_return ()))"

text \<open>
  The \<open>do\<close> loop of \<open>readInt\<close> on the bytes from the offset on; it gives the value and how many
  bytes it consumed. The list is not empty when the loop is entered.
\<close>

definition ber_step :: "u32 \<Rightarrow> byte \<Rightarrow> u32" where
  "ber_step value tmp = push_bit 7 value OR ucast (tmp AND 0x7f)"

fun readInt_loop :: "bytes \<Rightarrow> u32 \<Rightarrow> u32 \<times> nat" where
  "readInt_loop [] value = (value, 0)"
| "readInt_loop (tmp # rest) value =
     (let highBitSet = (tmp AND 0x80 \<noteq> 0);
          value = ber_step value tmp
      in if highBitSet \<and> rest \<noteq> []
         then (case readInt_loop rest value of (v, n) \<Rightarrow> (v, Suc n))
         else (value, 1))"

definition readInt :: "(configvar, u32) io" where
  "readInt = (\<lambda>s.
     if \<not> cv_offset s < length (cv_buffer s) then (Inl (Error ''offset < bytes''), s)
     else (case readInt_loop (drop (cv_offset s) (cv_buffer s)) 0 of (value, n) \<Rightarrow>
       let s' = s\<lparr>cv_offset := cv_offset s + n\<rparr> in
       if bit value 31 then (Inl (Error ''value >= 0''), s') else (Inr value, s')))"

definition readInt_default :: "u32 \<Rightarrow> (configvar, u32) io" where
  "readInt_default defaultValue = (\<lambda>s.
     if cv_offset s \<ge> length (cv_buffer s) then (Inr defaultValue, s) else readInt s)"

definition readBool :: "bool \<Rightarrow> (configvar, bool) io" where
  "readBool defaultValue =
     io_bind (readInt_default (if defaultValue then 1 else 0)) (\<lambda>tmp. io_return (tmp \<noteq> 0))"

definition put_bool :: "bool \<Rightarrow> (configvar, unit) io" where
  "put_bool value = writeInt (if value then 1 else 0)"

definition put_int :: "u32 \<Rightarrow> (configvar, unit) io" where
  "put_int var = writeInt var"

definition put_string :: "bytes \<Rightarrow> (configvar, unit) io" where
  "put_string s = writeString s"

definition get_bool :: "(configvar, bool) io" where
  "get_bool = io_bind readInt (\<lambda>tmp. io_return (tmp \<noteq> 0))"

definition get_int :: "(configvar, u32) io" where
  "get_int = readInt"

definition get_string :: "(configvar, bytes) io" where
  "get_string = io_bind readInt (\<lambda>len.
     io_bind (cv_read (unat len)) (\<lambda>d.
       io_bind (rAssert (length d = unat len) ''readLen == length'') (\<lambda>_. io_return d)))"

definition put_interface :: "interface \<Rightarrow> (configvar, unit) io" where
  "put_interface iface =
     io_bind (put_string (if_name iface)) (\<lambda>_.
     io_bind (put_int (word_of_int (if_current iface))) (\<lambda>_.
     io_bind (put_int (word_of_int (if_revision iface))) (\<lambda>_.
     put_int (word_of_int (if_age iface)))))"

definition get_interface :: "(configvar, interface) io" where
  "get_interface =
     io_bind get_string (\<lambda>nm.
     io_bind get_int (\<lambda>c.
     io_bind get_int (\<lambda>r.
     io_bind get_int (\<lambda>a.
     io_return \<lparr>if_name = nm, if_current = sint c, if_revision = sint r, if_age = sint a\<rparr>))))"

section \<open>ConfigReader\<close>

text \<open>\<open>std::map\<close>: the entries in increasing order of their keys.\<close>

type_synonym configreader = "(bytes \<times> configvar) list"

text \<open>\<open>vars.insert(make_pair(k, v))\<close>: an existing entry stays.\<close>

fun vars_insert :: "bytes \<Rightarrow> configvar \<Rightarrow> configreader \<Rightarrow> configreader" where
  "vars_insert k v [] = [(k, v)]"
| "vars_insert k v ((k', v') # es) =
     (if k < k' then (k, v) # (k', v') # es
      else if k = k' then (k', v') # es
      else (k', v') # vars_insert k v es)"

fun vars_update :: "bytes \<Rightarrow> configvar \<Rightarrow> configreader \<Rightarrow> configreader" where
  "vars_update k v [] = []"
| "vars_update k v ((k', v') # es) =
     (if k = k' then (k', v) # es else (k', v') # vars_update k v es)"

text \<open>The \<open>for\<close> loop of \<open>loadFromVar\<close>; the state is the input and the map.\<close>

fun loadFromVar_loop :: "nat \<Rightarrow> (configvar \<times> configreader, bool) io" where
  "loadFromVar_loop 0 = io_return True"
| "loadFromVar_loop (Suc i) =
     io_bind (io_lift fst (\<lambda>v (_, r). (v, r)) get_string) (\<lambda>key.
     io_bind (io_lift fst (\<lambda>v (_, r). (v, r)) get_string) (\<lambda>value.
       if key = [] then io_return False
       else io_bind (\<lambda>(v, r). (Inr (), (v, vars_insert key (ConfigVar value) r)))
              (\<lambda>_. loadFromVar_loop i)))"

definition loadFromVar :: "(configvar \<times> configreader, bool) io" where
  "loadFromVar =
     io_bind (io_lift fst (\<lambda>v (_, r). (v, r)) resetOffset) (\<lambda>_.
     io_bind (io_lift fst (\<lambda>v (_, r). (v, r)) readInt) (\<lambda>numEntries.
     loadFromVar_loop (unat numEntries)))"

text \<open>
  \<open>load\<close> with the answers of the system calls as arguments: the size \<open>lstat\<close> reports
  (\<open>None\<close>: it failed), whether \<open>open\<close> succeeded, and the bytes \<open>read\<close> delivered
  (\<open>None\<close>: it failed).
\<close>

definition config_load :: "nat option \<Rightarrow> bool \<Rightarrow> bytes option \<Rightarrow> (configreader, bool) io" where
  "config_load st_size open_ok data = (\<lambda>r.
     case st_size of None \<Rightarrow> (Inr False, r)
     | Some sz \<Rightarrow>
       if \<not> open_ok then (Inr False, r)
       else (case data of None \<Rightarrow> (Inr False, r)
         | Some buf \<Rightarrow>
           if length buf \<noteq> sz then (Inr False, r)
           else (case cv_write buf ConfigVar_default of (_, v) \<Rightarrow>
             (case loadFromVar (v, r) of (res, (_, r')) \<Rightarrow> (res, r')))))"

fun toVar_loop :: "configreader \<Rightarrow> (configvar, unit) io" where
  "toVar_loop [] = io_return ()"
| "toVar_loop ((k, v) # es) =
     io_bind (writeInt (of_nat (length k))) (\<lambda>_.
     io_bind (cv_write k) (\<lambda>_.
     io_bind (writeInt (of_nat (length (cv_buffer v)))) (\<lambda>_.
     io_bind (cv_write (cv_buffer v)) (\<lambda>_.
     toVar_loop es))))"

definition toVar :: "configreader \<Rightarrow> configvar" where
  "toVar vars = snd (io_bind (writeInt (of_nat (length vars))) (\<lambda>_. toVar_loop vars) ConfigVar_default)"

text \<open>\<open>save\<close>: the bytes handed to \<open>write\<close>, and the result given what \<open>write\<close> returned.\<close>

definition config_save :: "configreader \<Rightarrow> bool \<Rightarrow> (bytes \<Rightarrow> int) \<Rightarrow> bool" where
  "config_save vars open_ok write_ret =
     (let out = toVar vars in
      if open_ok then write_ret (cv_buffer out) = int (length (cv_buffer out)) else False)"

text \<open>
  The read-only \<open>operator[]\<close> gives an empty variable for a missing key; the other one
  creates the entry and gives a reference, through which \<open>cfg_at\<close> runs an operation.
\<close>

definition config_find :: "configreader \<Rightarrow> bytes \<Rightarrow> configvar" where
  "config_find vars varName = (case map_of vars varName of None \<Rightarrow> ConfigVar_default | Some v \<Rightarrow> v)"

definition cfg_at :: "bytes \<Rightarrow> (configvar, 'a) io \<Rightarrow> (configreader, 'a) io" where
  "cfg_at k m = (\<lambda>vars.
     let vars = vars_insert k ConfigVar_default vars in
     case m (config_find vars k) of (r, v) \<Rightarrow> (r, vars_update k v vars))"

section \<open>Integers and strings\<close>

definition ber :: "u32 \<Rightarrow> bytes" where
  "ber val = dropWhile (\<lambda>d. d = 0x80) (berDigits val)"

definition ber_string :: "bytes \<Rightarrow> bytes" where
  "ber_string d = ber (of_nat (length d)) @ d"

text \<open>A variable whose offset stands between \<open>pre\<close> and \<open>rest\<close>.\<close>

abbreviation cv_split :: "bytes \<Rightarrow> bytes \<Rightarrow> configvar" where
  "cv_split pre rest \<equiv> \<lparr>cv_buffer = pre @ rest, cv_offset = length pre\<rparr>"

lemma sign_bit_u32: "bit (n :: u32) 31 \<longleftrightarrow> \<not> unat n < 2 ^ 31"
proof -
  have "bit n 31 \<longleftrightarrow> odd (unat n div 2 ^ 31)"
    unfolding bit_iff_odd [of "unat n", symmetric] by (simp add: bit_unsigned_iff)
  moreover have "unat n div 2 ^ 31 < 2"
    using unsigned_less [of n] by (simp add: div_less_iff_less_mult)
  ultimately show ?thesis by (cases "unat n div 2 ^ 31 = 0") (auto simp: div_eq_0_iff)
qed

lemma low_mask_8: "(0x7f :: 8 word) = mask 7" by (simp add: mask_eq_exp_minus_1)

lemma bit_0x80: "bit (0x80 :: int) n \<longleftrightarrow> n = 7"
  using bit_exp_iff [where 'a = int, of 7 n] by simp

lemma high_bit_8: "(b :: byte) AND 0x80 \<noteq> 0 \<longleftrightarrow> bit b 7"
proof -
  have "b AND 0x80 = (if bit b 7 then 0x80 else 0)"
    by (rule bit_word_eqI) (auto simp add: bit_0x80 bit_and_iff)
  then show ?thesis by simp
qed

lemma berDigits_masks:
  "berDigits val =
     [0x80 OR ucast (take_bit 4 (drop_bit 28 val)), 0x80 OR ucast (take_bit 7 (drop_bit 21 val)),
      0x80 OR ucast (take_bit 7 (drop_bit 14 val)), 0x80 OR ucast (take_bit 7 (drop_bit 7 val)),
      ucast (take_bit 7 val)]"
proof -
  have m: "drop_bit k (val AND push_bit k (mask m)) = take_bit m (drop_bit k val)" for k m
    by (rule bit_word_eqI) (auto simp: bit_simps dest: bit_imp_le_length)
  have "(0xf0000000 :: u32) = push_bit 28 (mask 4)" "(0x0fe00000 :: u32) = push_bit 21 (mask 7)"
    "(0x001fc000 :: u32) = push_bit 14 (mask 7)" "(0x00003f80 :: u32) = push_bit 7 (mask 7)"
    "(0x0000007f :: u32) = mask 7"
    by (simp_all add: mask_eq_exp_minus_1 push_bit_eq_mult)
  then show ?thesis by (simp only: berDigits_def m take_bit_eq_mask)
qed

text \<open>Each step puts seven more bits of the number below the ones read so far.\<close>

lemma ber_step_high:
  "ber_step v (0x80 OR ucast (take_bit 7 d)) = push_bit 7 v OR take_bit 7 d"
  "ber_step v (ucast (take_bit 7 d)) = push_bit 7 v OR take_bit 7 (d :: u32)"
  unfolding ber_step_def low_mask_8
   apply (rule bit_word_eqI, auto simp: bit_simps bit_0x80)
  apply (rule bit_word_eqI, auto simp: bit_simps)
  done

lemma push_take_bit: "push_bit 7 (drop_bit (k + 7) val) OR take_bit 7 (drop_bit k val) = drop_bit k (val :: u32)"
  by (rule bit_word_eqI) (auto simp: bit_simps not_le)

lemma ber_step_fold_id: "fold (\<lambda>b v. ber_step v b) (berDigits val) 0 = val"
proof -
  have "take_bit 4 (drop_bit 28 val) = take_bit 7 (drop_bit 28 val)"
    by (rule bit_word_eqI) (auto simp: bit_simps dest: bit_imp_le_length)
  moreover have "take_bit 7 (drop_bit 28 val) = drop_bit 28 val"
    by (rule bit_word_eqI) (auto simp: bit_simps dest: bit_imp_le_length)
  ultimately have top: "ber_step 0 (0x80 OR ucast (take_bit 4 (drop_bit 28 val))) = drop_bit 28 val"
    using ber_step_high(1) [of 0 "drop_bit 28 val"] by simp
  have next_digit: "ber_step (drop_bit (k + 7) val) (0x80 OR ucast (take_bit 7 (drop_bit k val))) = drop_bit k val"
    for k by (simp only: ber_step_high push_take_bit)
  have last: "ber_step (drop_bit 7 val) (ucast (take_bit 7 val)) = val"
    using push_take_bit [of 0 val] by (simp only: ber_step_high add_0 drop_bit_0 id_apply)
  show ?thesis
    using next_digit [of 21] next_digit [of 14] next_digit [of 7]
    by (simp add: berDigits_masks top last)
qed

lemma ber_step_80: "ber_step 0 0x80 = 0"
  by (simp add: ber_step_def)

lemma fold_dropWhile_80:
  "fold (\<lambda>b v. ber_step v b) (dropWhile (\<lambda>d. d = 0x80) ds) 0 = fold (\<lambda>b v. ber_step v b) ds 0"
  by (induction ds) (auto simp: ber_step_80)

lemma readInt_loop_digits:
  "\<forall>d\<in>set ds. bit d 7 \<Longrightarrow> \<not> bit l 7 \<Longrightarrow>
   readInt_loop (ds @ l # rest) v = (fold (\<lambda>b v. ber_step v b) (ds @ [l]) v, Suc (length ds))"
  by (induction ds arbitrary: v) (auto simp: high_bit_8)

lemma ber_form:
  obtains ds l where "ber val = ds @ [l]" "\<forall>d\<in>set ds. bit d 7" "\<not> bit l 7" "length ds \<le> 4"
proof -
  obtain as l where b: "berDigits val = as @ [l]" "\<forall>d\<in>set as. bit d 7" "\<not> bit l 7" "length as = 4"
  proof
    show "berDigits val = take 4 (berDigits val) @ [ucast (take_bit 7 val)]"
      by (simp add: berDigits_masks)
    show "\<forall>d\<in>set (take 4 (berDigits val)). bit d 7"
      by (simp add: berDigits_masks bit_simps bit_0x80)
    show "\<not> bit (ucast (take_bit 7 val) :: byte) 7" by (simp add: bit_simps)
    show "length (take 4 (berDigits val)) = 4" by (simp add: berDigits_masks)
  qed
  have "l \<noteq> 0x80" using b(3) by (auto simp: bit_0x80)
  then have "ber val = dropWhile (\<lambda>d. d = 0x80) as @ [l]"
    by (simp add: ber_def b(1) dropWhile_append)
  moreover have "\<forall>d\<in>set (dropWhile (\<lambda>d. d = 0x80) as). bit d 7"
    using b(2) by (auto dest: set_dropWhileD)
  moreover have "length (dropWhile (\<lambda>d. d = 0x80) as) \<le> 4"
    using length_dropWhile_le [of _ as] b(4) by simp
  ultimately show thesis using that b(3) by blast
qed

lemma readInt_loop_ber: "readInt_loop (ber val @ rest) 0 = (val, length (ber val))"
proof -
  obtain ds l where b: "ber val = ds @ [l]" "\<forall>d\<in>set ds. bit d 7" "\<not> bit l 7" by (rule ber_form)
  have "fold (\<lambda>b v. ber_step v b) (ber val) 0 = val"
    unfolding ber_def fold_dropWhile_80 by (rule ber_step_fold_id)
  then show ?thesis using readInt_loop_digits [OF b(2,3), of rest 0] b(1) by simp
qed

lemma ber_length: "1 \<le> length (ber val)" "length (ber val) \<le> 5"
  by (rule ber_form [of val]; simp)+

lemma ber_not_Nil [simp]: "ber val \<noteq> []"
  using ber_length(1) [of val] by auto

lemma readInt_ber:
  "readInt (cv_split pre (ber val @ post)) =
     (if bit val 31 then Inl (Error ''value >= 0'') else Inr val, cv_split (pre @ ber val) post)"
  using ber_length(1) [of val] by (simp add: readInt_def readInt_loop_ber)

lemma get_string_ber:
  assumes "length d < 2 ^ 31"
  shows "get_string (cv_split pre (ber_string d @ post)) = (Inr d, cv_split (pre @ ber_string d) post)"
proof -
  have u: "unat (of_nat (length d) :: u32) = length d"
    using assms by (simp add: unat_of_nat take_bit_nat_eq_self)
  have "\<not> bit (of_nat (length d) :: u32) 31"
    using assms by (simp add: sign_bit_u32 u)
  then show ?thesis
    using readInt_ber [of pre "of_nat (length d)" "d @ post"]
    by (simp add: get_string_def ber_string_def io_bind_split cv_read_def Let_def u io_simps)
qed

text \<open>At the end of the buffer the writers append.\<close>

abbreviation cv_end :: "bytes \<Rightarrow> configvar" where
  "cv_end b \<equiv> \<lparr>cv_buffer = b, cv_offset = length b\<rparr>"

lemma cv_write_end: "cv_write d (cv_end b) = (Inr (length d), cv_end (b @ d))"
  by (simp add: cv_write_def)

lemma writeInt_end: "writeInt val (cv_end b) = (Inr (), cv_end (b @ ber val))"
  using cv_write_end [of "ber val" b] by (simp add: writeInt_def ber_def [symmetric] io_simps)

lemma writeString_end: "writeString d (cv_end b) = (Inr (), cv_end (b @ ber_string d))"
  using cv_write_end [of d "b @ ber (of_nat (length d))"]
  by (simp add: writeString_def io_bind_split writeInt_end ber_string_def io_simps)

lemmas put_end = put_bool_def put_int_def put_string_def writeInt_end writeString_end


section \<open>The configuration map\<close>

text \<open>The keys of a map strictly increase.\<close>

abbreviation vars_ok :: "configreader \<Rightarrow> bool" where
  "vars_ok vars \<equiv> sorted_wrt (<) (map fst vars)"

lemma map_of_vars_insert:
  "map_of (vars_insert k v vars) = (if k \<in> dom (map_of vars) then map_of vars else (map_of vars)(k \<mapsto> v))"
  if "vars_ok vars"
  using that
proof (induction vars)
  case (Cons e vars)
  obtain k' v' where e: "e = (k', v')" by (cases e)
  have "k \<notin> dom (map_of vars)" if "k < k'"
    using Cons.prems that by (auto simp: e dom_map_of_conv_image_fst)
  then show ?case using Cons by (auto simp: e fun_eq_iff)
qed auto

lemma keys_vars_insert: "set (map fst (vars_insert k v vars)) = insert k (set (map fst vars))"
  by (induction k v vars rule: vars_insert.induct) auto

lemma vars_ok_insert: "vars_ok vars \<Longrightarrow> vars_ok (vars_insert k v vars)"
  by (induction k v vars rule: vars_insert.induct)
    (use keys_vars_insert in \<open>force simp del: set_map simp: not_less_iff_gr_or_eq\<close>)+

lemma keys_vars_update: "map fst (vars_update k v vars) = map fst vars"
  by (induction k v vars rule: vars_update.induct) auto

lemma map_of_vars_update:
  "map_of (vars_update k v vars) = (if k \<in> dom (map_of vars) then (map_of vars)(k \<mapsto> v) else map_of vars)"
  by (induction k v vars rule: vars_update.induct) (auto simp: fun_eq_iff)

lemma vars_insert_last:
  "\<forall>k'\<in>set (map fst vars). k' < k \<Longrightarrow> vars_insert k v vars = vars @ [(k, v)]"
  by (induction k v vars rule: vars_insert.induct) (auto dest: order.asym)

definition enc_entry :: "bytes \<times> configvar \<Rightarrow> bytes" where
  "enc_entry e = ber_string (fst e) @ ber_string (cv_buffer (snd e))"

lemma toVar_loop_end: "toVar_loop es (cv_end b) = (Inr (), cv_end (b @ concat (map enc_entry es)))"
proof (induction es arbitrary: b)
  case (Cons e es)
  obtain k v where e: "e = (k, v)" by (cases e)
  let ?b1 = "b @ ber_string k" and ?b2 = "b @ ber_string k @ ber_string (cv_buffer v)"
  show ?case
    using Cons [of ?b2] writeInt_end [of "of_nat (length k)" b]
      cv_write_end [of k "b @ ber (of_nat (length k))"]
      writeInt_end [of "of_nat (length (cv_buffer v))" ?b1]
      cv_write_end [of "cv_buffer v" "?b1 @ ber (of_nat (length (cv_buffer v)))"]
    by (simp add: e io_bind_split enc_entry_def ber_string_def)
qed (simp add: io_simps)

lemma toVar_eq: "toVar vars = cv_end (ber (of_nat (length vars)) @ concat (map enc_entry vars))"
  using writeInt_end [of "of_nat (length vars)" "[]"] toVar_loop_end [of vars "ber (of_nat (length vars))"]
  by (simp add: toVar_def io_bind_split ConfigVar_default_def)

definition entry_ok :: "bytes \<times> configvar \<Rightarrow> bool" where
  "entry_ok e = (fst e \<noteq> [] \<and> length (fst e) < 2 ^ 31 \<and> length (cv_buffer (snd e)) < 2 ^ 31)"

lemma get_entry:
  assumes "entry_ok (k, v)"
  shows "loadFromVar_loop (Suc i) (cv_split pre (enc_entry (k, v) @ post), r) =
    loadFromVar_loop i (cv_split (pre @ enc_entry (k, v)) post, vars_insert k (ConfigVar (cv_buffer v)) r)"
proof -
  have "get_string (cv_split pre (ber_string k @ ber_string (cv_buffer v) @ post)) =
      (Inr k, cv_split (pre @ ber_string k) (ber_string (cv_buffer v) @ post))"
    using assms by (intro get_string_ber) (simp add: entry_ok_def)
  moreover have "get_string (cv_split (pre @ ber_string k) (ber_string (cv_buffer v) @ post)) =
      (Inr (cv_buffer v), cv_split ((pre @ ber_string k) @ ber_string (cv_buffer v)) post)"
    using assms by (intro get_string_ber) (simp add: entry_ok_def)
  ultimately show ?thesis
    using assms by (simp add: enc_entry_def io_bind_split io_lift_def entry_ok_def)
qed

lemma loadFromVar_loop_entries:
  assumes "\<forall>e\<in>set es. entry_ok e" "vars_ok (r @ es)"
  shows "loadFromVar_loop (length es) (cv_split pre (concat (map enc_entry es) @ post), r) =
    (Inr True, (cv_split (pre @ concat (map enc_entry es)) post,
       r @ map (\<lambda>(k, v). (k, ConfigVar (cv_buffer v))) es))"
  using assms
proof (induction es arbitrary: pre r)
  case (Cons e es)
  obtain k v where e: "e = (k, v)" by (cases e)
  let ?r = "r @ [(k, ConfigVar (cv_buffer v))]"
  have "vars_insert k (ConfigVar (cv_buffer v)) r = ?r"
    using Cons.prems by (intro vars_insert_last) (auto simp: e sorted_wrt_append)
  moreover have "vars_ok (?r @ es)" using Cons.prems by (simp add: e)
  ultimately show ?case
    using Cons.IH [of ?r "pre @ enc_entry (k, v)"] Cons.prems
      get_entry [of k v "length es" pre "concat (map enc_entry es) @ post" r]
    by (simp add: e)
qed (simp add: io_simps)

lemma loadFromVar_toVar:
  assumes "\<forall>e\<in>set vars. entry_ok e" "vars_ok vars" "length vars < 2 ^ 31"
  shows "fst (loadFromVar (toVar vars, [])) = Inr True"
    and "snd (snd (loadFromVar (toVar vars, []))) = map (\<lambda>(k, v). (k, ConfigVar (cv_buffer v))) vars"
proof -
  let ?n = "of_nat (length vars) :: u32"
  have n: "unat ?n = length vars" "\<not> bit ?n 31"
    using assms(3) by (simp_all add: unat_of_nat take_bit_nat_eq_self bit_of_nat_iff) (simp add: bit_iff_odd)
  have "readInt (cv_split [] (ber ?n @ concat (map enc_entry vars))) =
      (Inr ?n, cv_split (ber ?n) (concat (map enc_entry vars)))"
    using readInt_ber [of "[]" ?n "concat (map enc_entry vars)"] n(2) by simp
  then have "loadFromVar (toVar vars, []) = loadFromVar_loop (length vars)
      (cv_split (ber ?n) (concat (map enc_entry vars) @ []), [])"
    by (simp add: loadFromVar_def toVar_eq io_bind_split io_lift_def resetOffset_def n(1))
  also have "\<dots> = (Inr True, (cv_split (ber ?n @ concat (map enc_entry vars)) [],
      [] @ map (\<lambda>(k, v). (k, ConfigVar (cv_buffer v))) vars))"
    using assms by (intro loadFromVar_loop_entries) auto
  finally show "fst (loadFromVar (toVar vars, [])) = Inr True"
    "snd (snd (loadFromVar (toVar vars, []))) = map (\<lambda>(k, v). (k, ConfigVar (cv_buffer v))) vars"
    by simp_all
qed

section \<open>What the callers rely on\<close>

text \<open>
  An integer written at the end of a variable and read back from there is the same
  integer with the offset just behind it, in at most five bytes, for every 32 bit value that
  is not negative; a negative value is written too, and reading it is an error.
\<close>

theorem writeInt_readInt:
  "let v = snd (writeInt val (cv_end b)) in
     readInt (v\<lparr>cv_offset := length b\<rparr>) =
       (if sint val < 0 then Inl (Error ''value >= 0'') else Inr val, v) \<and>
     (\<exists>d. cv_buffer v = b @ d \<and> 1 \<le> length d \<and> length d \<le> 5)"
proof -
  have "sint val < 0 \<longleftrightarrow> bit val 31"
    using bit_last_iff [of val] by simp
  then show ?thesis
    using readInt_ber [of b val "[]"] ber_length [of val] by (simp add: writeInt_end Let_def)
qed

text \<open>
  A string read where the rest of the variable is shorter than the announced length
  is an error, never a shorter string or bytes from outside the buffer; a complete string comes
  back unchanged and leaves the offset behind it.
\<close>

theorem get_string_outcome:
  assumes "unat n < 2 ^ 31"
  shows "fst (get_string (cv_split pre (ber n @ d))) =
    (if unat n \<le> length d then Inr (take (unat n) d) else Inl (Error ''readLen == length'')) \<and>
    cv_offset (snd (get_string (cv_split pre (ber n @ d)))) =
      length pre + length (ber n) + min (unat n) (length d)"
  using assms readInt_ber [of pre n d] sign_bit_u32 [of n]
  by (simp add: get_string_def io_bind_split cv_read_def Let_def io_simps)

theorem get_string_outcome_witness:
  "unat (3 :: u32) < 2 ^ 31 \<and>
   fst (get_string (cv_split [] (ber 3 @ [65, 66, 67, 68]))) = Inr [65, 66, 67] \<and>
   fst (get_string (cv_split [] (ber 3 @ [65, 66]))) = Inl (Error ''readLen == length'')"
  using get_string_outcome [of 3 "[]" "[65, 66, 67, 68]"] get_string_outcome [of 3 "[]" "[65, 66]"]
  by simp

text \<open>
  Claim C29. The configuration map survives the configuration file: loading the bytes \<open>save\<close>
  hands to \<open>write\<close> gives the entries that were saved, each value rewound to its start.
\<close>

theorem config_save_load:
  assumes "\<forall>e\<in>set vars. entry_ok e" "sorted_wrt (<) (map fst vars)" "length vars < 2 ^ 31"
  shows "let file = cv_buffer (toVar vars) in
    config_load (Some (length file)) True (Some file) [] =
      (Inr True, map (\<lambda>(k, v). (k, ConfigVar (cv_buffer v))) vars)"
proof -
  have "cv_write (cv_buffer (toVar vars)) ConfigVar_default = (Inr (length (cv_buffer (toVar vars))), toVar vars)"
    using cv_write_end [of "cv_buffer (toVar vars)" "[]"]
    by (simp add: ConfigVar_default_def toVar_eq)
  then show ?thesis
    using loadFromVar_toVar [OF assms] by (cases "loadFromVar (toVar vars, [])") (auto simp: config_load_def)
qed

theorem config_save_load_witness:
  "let vars = [(str ''blockSize'', ConfigVar [136, 0]), (str ''cipher'', ConfigVar [])];
       file = cv_buffer (toVar vars) in
   (\<forall>e\<in>set vars. entry_ok e) \<and> sorted_wrt (<) (map fst vars) \<and>
   config_load (Some (length file)) True (Some file) [] = (Inr True, vars)"
  using config_save_load [of "[(str ''blockSize'', ConfigVar [136, 0]), (str ''cipher'', ConfigVar [])]"]
  by (simp add: entry_ok_def ConfigVar_def str_def)

end
