(* ===== verification/Volume_Config.thy ===== *)
theory Volume_Config
  imports Config_Var
begin

text \<open>
  The persistent description of a volume, \<open>EncFSConfig\<close> of \<^verbatim>\<open>encfs/FSConfig.h\<close>, and the
  functions of \<^verbatim>\<open>encfs/FileUtils.cpp\<close> that find it, load it and save it: the table of
  configuration formats, \<open>readConfig\<close> and \<open>saveConfig\<close>, and the binary formats 5 and 4.
  The loader and the saver of a format are parameters of \<open>readConfig\<close> and \<open>saveConfig\<close>; those of the
  XML format 6 are in \<open>Xml_Config\<close>.
\<close>

section \<open>EncFSConfig\<close>

datatype config_type =
  Config_None | Config_Prehistoric | Config_V3 | Config_V4 | Config_V5 | Config_V6

record EncFSConfig =
  cfgType :: config_type
  creator :: bytes
  subVersion :: int
  cipherIface :: interface
  nameIface :: interface
  keySize :: int
  blockSize :: int
  keyData :: bytes
  salt :: bytes
  kdfIterations :: int
  desiredKDFDuration :: int
  plainData :: bool
  blockMACBytes :: int
  blockMACRandBytes :: int
  uniqueIV :: bool
  externalIVChaining :: bool
  chainedNameIV :: bool
  allowHoles :: bool

text \<open>The constructor leaves the two sizes uninitialised; they are arguments here.\<close>

definition EncFSConfig_new :: "int \<Rightarrow> int \<Rightarrow> EncFSConfig" where
  "EncFSConfig_new ks bs =
     \<lparr>cfgType = Config_None, creator = [], subVersion = 0,
      cipherIface = Interface_default, nameIface = Interface_default,
      keySize = ks, blockSize = bs, keyData = [], salt = [],
      kdfIterations = 0, desiredKDFDuration = 500, plainData = False,
      blockMACBytes = 0, blockMACRandBytes = 0, uniqueIV = False,
      externalIVChaining = False, chainedNameIV = False, allowHoles = False\<rparr>"

definition V5SubVersion :: int where "V5SubVersion = 20040813"
definition V5SubVersionDefault :: int where "V5SubVersionDefault = 0"
definition V6SubVersion :: int where "V6SubVersion = 20100713"

text \<open>A row of the table; a null function pointer or name is \<open>None\<close>.\<close>

record 'f config_info =
  ci_fileName :: bytes
  ci_type :: config_type
  ci_environmentOverride :: "bytes option"
  ci_loadFunc :: "'f option"
  ci_currentSubVersion :: int
  ci_defaultSubVersion :: int

datatype config_format = FormatV6 | FormatV5 | FormatV4

definition ConfigFileMapping :: "config_format config_info list" where
  "ConfigFileMapping =
    [\<lparr>ci_fileName = str ''.encfs6.xml'', ci_type = Config_V6, ci_environmentOverride = Some (str ''ENCFS6_CONFIG''),
      ci_loadFunc = Some FormatV6, ci_currentSubVersion = V6SubVersion, ci_defaultSubVersion = 0\<rparr>,
     \<lparr>ci_fileName = str ''.encfs5'', ci_type = Config_V5, ci_environmentOverride = Some (str ''ENCFS5_CONFIG''),
      ci_loadFunc = Some FormatV5, ci_currentSubVersion = V5SubVersion, ci_defaultSubVersion = V5SubVersionDefault\<rparr>,
     \<lparr>ci_fileName = str ''.encfs4'', ci_type = Config_V4, ci_environmentOverride = None,
      ci_loadFunc = Some FormatV4, ci_currentSubVersion = 0, ci_defaultSubVersion = 0\<rparr>,
     \<lparr>ci_fileName = str ''.encfs3'', ci_type = Config_V3, ci_environmentOverride = None,
      ci_loadFunc = None, ci_currentSubVersion = 0, ci_defaultSubVersion = 0\<rparr>,
     \<lparr>ci_fileName = str ''.encfs2'', ci_type = Config_Prehistoric, ci_environmentOverride = None,
      ci_loadFunc = None, ci_currentSubVersion = 0, ci_defaultSubVersion = 0\<rparr>,
     \<lparr>ci_fileName = str ''.encfs'', ci_type = Config_Prehistoric, ci_environmentOverride = None,
      ci_loadFunc = None, ci_currentSubVersion = 0, ci_defaultSubVersion = 0\<rparr>]"

section \<open>Finding a configuration\<close>

text \<open>
  \<open>exit(1)\<close> is \<open>Fatal\<close>. The loader of a format takes the path and the table row, and works
  on the configuration.
\<close>

definition readConfig_load ::
  "('f \<Rightarrow> bytes \<Rightarrow> 'f config_info \<Rightarrow> (EncFSConfig, bool) io) \<Rightarrow>
   'f config_info \<Rightarrow> bytes \<Rightarrow> (EncFSConfig, config_type) io" where
  "readConfig_load load nm path =
     (case ci_loadFunc nm of
        Some f \<Rightarrow>
          io_bind (io_catch (load f path nm) (\<lambda>_. io_return False)) (\<lambda>ok.
            if ok then (\<lambda>c. (Inr (ci_type nm), c\<lparr>cfgType := ci_type nm\<rparr>))
            else io_throw (Fatal ''failed to load - exiting''))
      | None \<Rightarrow> (\<lambda>c. (Inr (ci_type nm), c\<lparr>cfgType := ci_type nm\<rparr>)))"

fun readConfig_loop ::
  "('f \<Rightarrow> bytes \<Rightarrow> 'f config_info \<Rightarrow> (EncFSConfig, bool) io) \<Rightarrow> (bytes \<Rightarrow> bool) \<Rightarrow>
   (bytes \<Rightarrow> bytes option) \<Rightarrow> bytes \<Rightarrow> bytes \<Rightarrow> 'f config_info list \<Rightarrow>
   (EncFSConfig, config_type) io" where
  "readConfig_loop load fileExists getenv rootDir cmdConfig [] = io_return Config_None"
| "readConfig_loop load fileExists getenv rootDir cmdConfig (nm # nms) =
     (if cmdConfig \<noteq> [] then
        (if \<not> fileExists cmdConfig then io_throw (Fatal ''config file specified on command line does not exist'')
         else readConfig_load load nm cmdConfig)
      else case Option.bind (ci_environmentOverride nm) getenv of
        Some envFile \<Rightarrow>
          (if \<not> fileExists envFile then io_throw (Fatal ''config file specified by environment does not exist'')
           else readConfig_load load nm envFile)
      | None \<Rightarrow>
          (let path = rootDir @ ci_fileName nm in
           if fileExists path then readConfig_load load nm path
           else readConfig_loop load fileExists getenv rootDir cmdConfig nms))"

definition readConfig ::
  "(config_format \<Rightarrow> bytes \<Rightarrow> config_format config_info \<Rightarrow> (EncFSConfig, bool) io) \<Rightarrow> (bytes \<Rightarrow> bool) \<Rightarrow>
   (bytes \<Rightarrow> bytes option) \<Rightarrow> bytes \<Rightarrow> bytes \<Rightarrow> (EncFSConfig, config_type) io" where
  "readConfig load fileExists getenv rootDir cmdConfig =
     readConfig_loop load fileExists getenv rootDir cmdConfig ConfigFileMapping"

text \<open>
  \<open>saveConfig\<close>: the saver works on the state in which it stores the file. Every format with a loader has a
  saver.
\<close>

fun saveConfig_loop ::
  "('f \<Rightarrow> bytes \<Rightarrow> ('s, bool) io) \<Rightarrow> (bytes \<Rightarrow> bytes option) \<Rightarrow> config_type \<Rightarrow> bytes \<Rightarrow> bytes \<Rightarrow>
   'f config_info list \<Rightarrow> ('s, bool) io" where
  "saveConfig_loop save getenv type rootDir cmdConfig [] = io_return False"
| "saveConfig_loop save getenv type rootDir cmdConfig (nm # nms) =
     (case ci_loadFunc nm of
        Some f \<Rightarrow>
          if ci_type nm = type then
            (let path =
               (if cmdConfig \<noteq> [] then cmdConfig
                else case Option.bind (ci_environmentOverride nm) getenv of
                  Some envFile \<Rightarrow> envFile
                | None \<Rightarrow> rootDir @ ci_fileName nm)
             in io_catch (save f path) (\<lambda>_. io_return False))
          else saveConfig_loop save getenv type rootDir cmdConfig nms
      | None \<Rightarrow> saveConfig_loop save getenv type rootDir cmdConfig nms)"

definition saveConfig ::
  "(config_format \<Rightarrow> bytes \<Rightarrow> ('s, bool) io) \<Rightarrow> (bytes \<Rightarrow> bytes option) \<Rightarrow> config_type \<Rightarrow> bytes \<Rightarrow>
   bytes \<Rightarrow> ('s, bool) io" where
  "saveConfig save getenv type rootDir cmdConfig =
     saveConfig_loop save getenv type rootDir cmdConfig ConfigFileMapping"

section \<open>The binary formats\<close>

text \<open>An operation on \<open>cfgRdr[key]\<close>, and an assignment to a field of the configuration.\<close>

definition rd :: "string \<Rightarrow> (configvar, 'a) io \<Rightarrow> (configreader \<times> EncFSConfig, 'a) io" where
  "rd k m = io_lift fst (\<lambda>v (_, c). (v, c)) (cfg_at (str k) m)"

definition setc :: "(EncFSConfig \<Rightarrow> EncFSConfig) \<Rightarrow> (configreader \<times> EncFSConfig, unit) io" where
  "setc f = (\<lambda>(v, c). (Inr (), (v, f c)))"

definition readV5_body :: "'f config_info \<Rightarrow> (configreader \<times> EncFSConfig, bool) io" where
  "readV5_body info =
     io_bind (rd ''subVersion'' (readInt_default (word_of_int (ci_defaultSubVersion info)))) (\<lambda>sv.
     io_bind (setc (\<lambda>c. c\<lparr>subVersion := sint sv\<rparr>)) (\<lambda>_.
     if sint sv > ci_currentSubVersion info then io_return False
     else if sint sv < 20040813 then io_return False
     else
     io_bind (rd ''creator'' get_string) (\<lambda>x. io_bind (setc (\<lambda>c. c\<lparr>creator := x\<rparr>)) (\<lambda>_.
     io_bind (rd ''cipher'' get_interface) (\<lambda>x. io_bind (setc (\<lambda>c. c\<lparr>cipherIface := x\<rparr>)) (\<lambda>_.
     io_bind (rd ''naming'' get_interface) (\<lambda>x. io_bind (setc (\<lambda>c. c\<lparr>nameIface := x\<rparr>)) (\<lambda>_.
     io_bind (rd ''keySize'' get_int) (\<lambda>x. io_bind (setc (\<lambda>c. c\<lparr>keySize := sint x\<rparr>)) (\<lambda>_.
     io_bind (rd ''blockSize'' get_int) (\<lambda>x. io_bind (setc (\<lambda>c. c\<lparr>blockSize := sint x\<rparr>)) (\<lambda>_.
     io_bind (rd ''keyData'' get_string) (\<lambda>x. io_bind (setc (\<lambda>c. c\<lparr>keyData := x\<rparr>)) (\<lambda>_.
     io_bind (rd ''uniqueIV'' (readBool False)) (\<lambda>x. io_bind (setc (\<lambda>c. c\<lparr>uniqueIV := x\<rparr>)) (\<lambda>_.
     io_bind (rd ''chainedIV'' (readBool False)) (\<lambda>x. io_bind (setc (\<lambda>c. c\<lparr>chainedNameIV := x\<rparr>)) (\<lambda>_.
     io_bind (rd ''externalIV'' (readBool False)) (\<lambda>x. io_bind (setc (\<lambda>c. c\<lparr>externalIVChaining := x\<rparr>)) (\<lambda>_.
     io_bind (rd ''blockMACBytes'' (readInt_default 0)) (\<lambda>x. io_bind (setc (\<lambda>c. c\<lparr>blockMACBytes := sint x\<rparr>)) (\<lambda>_.
     io_bind (rd ''blockMACRandBytes'' (readInt_default 0)) (\<lambda>x. io_bind (setc (\<lambda>c. c\<lparr>blockMACRandBytes := sint x\<rparr>)) (\<lambda>_.
     io_return True))))))))))))))))))))))))"

definition readV4_body :: "'f config_info \<Rightarrow> (configreader \<times> EncFSConfig, bool) io" where
  "readV4_body info =
     io_bind (rd ''cipher'' get_interface) (\<lambda>x. io_bind (setc (\<lambda>c. c\<lparr>cipherIface := x\<rparr>)) (\<lambda>_.
     io_bind (rd ''keySize'' get_int) (\<lambda>x. io_bind (setc (\<lambda>c. c\<lparr>keySize := sint x\<rparr>)) (\<lambda>_.
     io_bind (rd ''blockSize'' get_int) (\<lambda>x. io_bind (setc (\<lambda>c. c\<lparr>blockSize := sint x\<rparr>)) (\<lambda>_.
     io_bind (rd ''keyData'' get_string) (\<lambda>x. io_bind (setc (\<lambda>c. c\<lparr>keyData := x\<rparr>)) (\<lambda>_.
     io_bind (setc (\<lambda>c. c\<lparr>nameIface := Interface (str ''nameio/stream'') 1 0 0,
        creator := str ''EncFS 1.0.x'', subVersion := ci_defaultSubVersion info,
        blockMACBytes := 0, blockMACRandBytes := 0, uniqueIV := False,
        externalIVChaining := False, chainedNameIV := False\<rparr>)) (\<lambda>_.
     io_return True)))))))))"

text \<open>
  Both readers load the map first, outside of their \<open>try\<close> block; the answers of the system
  calls are those of \<open>config_load\<close>.
\<close>

definition read_binary_config ::
  "(configreader \<times> EncFSConfig, bool) io \<Rightarrow> nat option \<Rightarrow> bool \<Rightarrow> bytes option \<Rightarrow> (EncFSConfig, bool) io" where
  "read_binary_config body st_size open_ok data = (\<lambda>c.
     case config_load st_size open_ok data [] of
       (Inl e, _) \<Rightarrow> (Inl e, c)
     | (Inr False, _) \<Rightarrow> (Inr False, c)
     | (Inr True, r) \<Rightarrow>
         (case io_catch body (\<lambda>_. io_return False) (r, c) of (res, (_, c')) \<Rightarrow> (res, c')))"

definition readV5Config ::
  "nat option \<Rightarrow> bool \<Rightarrow> bytes option \<Rightarrow> 'f config_info \<Rightarrow> (EncFSConfig, bool) io" where
  "readV5Config st_size open_ok data info = read_binary_config (readV5_body info) st_size open_ok data"

definition readV4Config ::
  "nat option \<Rightarrow> bool \<Rightarrow> bytes option \<Rightarrow> 'f config_info \<Rightarrow> (EncFSConfig, bool) io" where
  "readV4Config st_size open_ok data info = read_binary_config (readV4_body info) st_size open_ok data"

text \<open>The map \<open>writeV5Config\<close> and \<open>writeV4Config\<close> build before they call \<open>save\<close>.\<close>

definition v5_map :: "EncFSConfig \<Rightarrow> configreader" where
  "v5_map c = snd (
     io_bind (cfg_at (str ''creator'') (put_string (creator c))) (\<lambda>_.
     io_bind (cfg_at (str ''subVersion'') (put_int (word_of_int (subVersion c)))) (\<lambda>_.
     io_bind (cfg_at (str ''cipher'') (put_interface (cipherIface c))) (\<lambda>_.
     io_bind (cfg_at (str ''naming'') (put_interface (nameIface c))) (\<lambda>_.
     io_bind (cfg_at (str ''keySize'') (put_int (word_of_int (keySize c)))) (\<lambda>_.
     io_bind (cfg_at (str ''blockSize'') (put_int (word_of_int (blockSize c)))) (\<lambda>_.
     io_bind (cfg_at (str ''keyData'') (put_string (keyData c))) (\<lambda>_.
     io_bind (cfg_at (str ''blockMACBytes'') (put_int (word_of_int (blockMACBytes c)))) (\<lambda>_.
     io_bind (cfg_at (str ''blockMACRandBytes'') (put_int (word_of_int (blockMACRandBytes c)))) (\<lambda>_.
     io_bind (cfg_at (str ''uniqueIV'') (put_bool (uniqueIV c))) (\<lambda>_.
     io_bind (cfg_at (str ''chainedIV'') (put_bool (chainedNameIV c))) (\<lambda>_.
     cfg_at (str ''externalIV'') (put_bool (externalIVChaining c))))))))))))) [])"

definition writeV5Config :: "EncFSConfig \<Rightarrow> bool \<Rightarrow> (bytes \<Rightarrow> int) \<Rightarrow> bool" where
  "writeV5Config c open_ok write_ret = config_save (v5_map c) open_ok write_ret"

definition v4_map :: "EncFSConfig \<Rightarrow> configreader" where
  "v4_map c = snd (
     io_bind (cfg_at (str ''cipher'') (put_interface (cipherIface c))) (\<lambda>_.
     io_bind (cfg_at (str ''keySize'') (put_int (word_of_int (keySize c)))) (\<lambda>_.
     io_bind (cfg_at (str ''blockSize'') (put_int (word_of_int (blockSize c)))) (\<lambda>_.
     cfg_at (str ''keyData'') (put_string (keyData c))))) [])"

definition writeV4Config :: "EncFSConfig \<Rightarrow> bool \<Rightarrow> (bytes \<Rightarrow> int) \<Rightarrow> bool" where
  "writeV4Config c open_ok write_ret = config_save (v4_map c) open_ok write_ret"

section \<open>Lemmas\<close>

lemma str_inject [simp]: "str a = str b \<longleftrightarrow> a = b"
proof -
  have "inj (of_char :: char \<Rightarrow> byte)"
  proof (rule injI)
    fix c d :: char assume "of_char c = (of_char d :: byte)"
    moreover have "(of_char x :: byte) = of_nat (of_char x)" for x :: char
      by (cases x) (simp add: of_char_def)
    ultimately have "unat (of_nat (of_char c) :: byte) = unat (of_nat (of_char d) :: byte)" by simp
    then show "c = d" by (simp add: unat_of_nat take_bit_eq_mod del: of_nat_of_char)
  qed
  then show ?thesis by (simp add: str_def inj_map_eq_map)
qed

lemma length_str [simp]: "length (str a) = length a"
  by (simp add: str_def)

lemma str_Nil_iff [simp]: "str a = [] \<longleftrightarrow> a = []"
  by (simp add: str_def)

text \<open>A sequence of \<open>cfg[key] << value\<close> on fresh keys.\<close>

fun put_all :: "(bytes \<times> (configvar, unit) io) list \<Rightarrow> (configreader, unit) io" where
  "put_all [] = io_return ()"
| "put_all ((k, m) # ops) = io_bind (cfg_at k m) (\<lambda>_. put_all ops)"

lemma put_all_last: "io_bind (cfg_at k m) (\<lambda>_. put_all []) = cfg_at k m"
  by (auto simp: io_bind_def io_return_def fun_eq_iff split: prod.splits sum.splits)

lemma cfg_at_new:
  assumes "vars_ok vars" "map_of vars k = None" "m ConfigVar_default = (Inr (), v)"
  shows "\<exists>vars'. cfg_at k m vars = (Inr (), vars') \<and> vars_ok vars' \<and> map_of vars' = (map_of vars)(k \<mapsto> v)"
proof -
  let ?i = "vars_insert k ConfigVar_default vars"
  have i: "vars_ok ?i" "map_of ?i = (map_of vars)(k \<mapsto> ConfigVar_default)"
    using assms(1,2) by (simp_all add: vars_ok_insert map_of_vars_insert domIff)
  have "cfg_at k m vars = (Inr (), vars_update k v ?i)"
    using assms(3) i by (simp add: cfg_at_def config_find_def)
  moreover have "map_of (vars_update k v ?i) = (map_of vars)(k \<mapsto> v)"
    using i by (simp add: map_of_vars_update)
  ultimately show ?thesis using i(1) by (auto simp: keys_vars_update)
qed

lemma put_all_map:
  assumes "vars_ok vars" "distinct (map fst ops)" "\<forall>k\<in>set (map fst ops). map_of vars k = None"
    and "\<forall>(k, m)\<in>set ops. fst (m ConfigVar_default) = Inr ()"
  shows "vars_ok (snd (put_all ops vars)) \<and> map_of (snd (put_all ops vars)) =
    map_of vars ++ map_of (map (\<lambda>(k, m). (k, snd (m ConfigVar_default))) ops)"
  using assms
proof (induction ops arbitrary: vars)
  case (Cons op ops)
  obtain k m where op: "op = (k, m)" by (cases op)
  obtain v where "m ConfigVar_default = (Inr (), v)"
    using Cons.prems(4) by (cases "m ConfigVar_default") (auto simp: op)
  moreover from this obtain vars' where v':
    "cfg_at k m vars = (Inr (), vars')" "vars_ok vars'" "map_of vars' = (map_of vars)(k \<mapsto> v)"
    using cfg_at_new [of vars k m v] Cons.prems by (auto simp: op)
  moreover have "map_of (map (\<lambda>(k, m). (k, snd (m ConfigVar_default))) ops) k = None"
    using Cons.prems(2) by (auto simp: op map_of_eq_None_iff image_iff)
  moreover have "vars_ok (snd (put_all ops vars')) \<and> map_of (snd (put_all ops vars')) =
    map_of vars' ++ map_of (map (\<lambda>(k, m). (k, snd (m ConfigVar_default))) ops)"
    using Cons.prems v' by (intro Cons.IH) (auto simp: op image_iff)
  ultimately show ?case
    by (simp add: op io_bind_split map_add_def fun_eq_iff split: option.splits)
qed (simp add: io_simps)

lemma vars_insert_present: "vars_ok vars \<Longrightarrow> k \<in> dom (map_of vars) \<Longrightarrow> vars_insert k v vars = vars"
  by (induction k v vars rule: vars_insert.induct)
    (auto simp: dom_map_of_conv_image_fst split: if_splits dest: order.asym)

lemma rd_step:
  assumes "vars_ok r" "map_of r (str k) = Some v" "m v = (Inr x, v')"
  shows "rd k m (r, c) = (Inr x, (vars_update (str k) v' r, c))"
  using assms by (simp add: rd_def io_lift_def cfg_at_def vars_insert_present config_find_def domIff)

lemma setc_apply: "setc f (v, c) = (Inr (), (v, f c))"
  by (simp add: setc_def)

lemma vars_ok_update [simp]: "vars_ok (vars_update k v r) \<longleftrightarrow> vars_ok r"
  by (simp only: keys_vars_update)

text \<open>Reading back a value that fills the whole variable.\<close>

definition ber_interface :: "interface \<Rightarrow> bytes" where
  "ber_interface i = ber_string (if_name i) @ ber (word_of_int (if_current i)) @
     ber (word_of_int (if_revision i)) @ ber (word_of_int (if_age i))"

definition int_ok :: "int \<Rightarrow> bool" where
  "int_ok i = (0 \<le> i \<and> i < 2 ^ 31)"

definition iface_ok :: "interface \<Rightarrow> bool" where
  "iface_ok i = (length (if_name i) < 2 ^ 30 \<and> int_ok (if_current i) \<and> int_ok (if_revision i) \<and> int_ok (if_age i))"

lemma int_ok_word:
  assumes "int_ok i"
  shows "\<not> bit (word_of_int i :: u32) 31" "sint (word_of_int i :: u32) = i"
proof -
  have "unat (word_of_int i :: u32) = nat i"
    using assms by (simp add: int_ok_def unat_eq_nat_uint uint_word_of_int_eq take_bit_int_eq_self)
  then show "\<not> bit (word_of_int i :: u32) 31" using assms by (auto simp: sign_bit_u32 int_ok_def nat_less_iff)
  show "sint (word_of_int i :: u32) = i"
    using assms by (simp add: int_ok_def sint_uint uint_word_of_int_eq take_bit_int_eq_self signed_take_bit_int_eq_self)
qed

lemma readInt_whole: "\<not> bit w 31 \<Longrightarrow> readInt (ConfigVar (ber w)) = (Inr w, cv_end (ber w))"
  using readInt_ber [of "[]" w "[]"] by (simp add: ConfigVar_def)

lemma readInt_default_whole:
  "\<not> bit w 31 \<Longrightarrow> readInt_default d (ConfigVar (ber w)) = (Inr w, cv_end (ber w))"
  using readInt_whole [of w] by (simp add: readInt_default_def ConfigVar_def)

lemma readBool_whole:
  "readBool d (ConfigVar (ber (if b then 1 else 0))) = (Inr b, cv_end (ber (if b then 1 else 0)))"
proof -
  have "\<not> bit (if b then 1 else 0 :: u32) 31" by (simp add: bit_1_iff)
  then show ?thesis
    using readInt_default_whole [of "if b then 1 else 0" "if d then 1 else 0"]
    by (simp add: readBool_def io_bind_split io_simps)
qed

lemma get_string_whole:
  "length d < 2 ^ 31 \<Longrightarrow> get_string (ConfigVar (ber_string d)) = (Inr d, cv_end (ber_string d))"
  using get_string_ber [of d "[]" "[]"] by (simp add: ConfigVar_def)

lemma get_interface_whole:
  assumes "iface_ok i"
  shows "get_interface (ConfigVar (ber_interface i)) = (Inr i, cv_end (ber_interface i))"
proof -
  let ?n = "ber_string (if_name i)" and ?w = "\<lambda>x. ber (word_of_int x)"
  have "get_string (cv_split [] (?n @ ?w (if_current i) @ ?w (if_revision i) @ ?w (if_age i))) =
      (Inr (if_name i), cv_split ([] @ ?n) (?w (if_current i) @ ?w (if_revision i) @ ?w (if_age i)))"
    using assms by (intro get_string_ber) (simp add: iface_ok_def)
  moreover have w: "\<And>x pre post. int_ok x \<Longrightarrow>
      get_int (cv_split pre (?w x @ post)) = (Inr (word_of_int x), cv_split (pre @ ?w x) post)"
    by (simp add: get_int_def readInt_ber int_ok_word)
  ultimately show ?thesis
    using assms w [of "if_current i" "?n" "?w (if_revision i) @ ?w (if_age i)"]
      w [of "if_revision i" "?n @ ?w (if_current i)" "?w (if_age i)"]
      w [of "if_age i" "?n @ ?w (if_current i) @ ?w (if_revision i)" "[]"]
    by (simp add: get_interface_def ConfigVar_def ber_interface_def io_bind_split io_simps iface_ok_def int_ok_word)
qed

lemma put_interface_end: "put_interface i (cv_end b) = (Inr (), cv_end (b @ ber_interface i))"
proof -
  let ?n = "ber_string (if_name i)" and ?w = "\<lambda>x. ber (word_of_int x)"
  show ?thesis
    using writeString_end [of "if_name i" b] writeInt_end [of "word_of_int (if_current i)" "b @ ?n"]
      writeInt_end [of "word_of_int (if_revision i)" "b @ ?n @ ?w (if_current i)"]
      writeInt_end [of "word_of_int (if_age i)" "b @ ?n @ ?w (if_current i) @ ?w (if_revision i)"]
    by (simp add: put_interface_def put_int_def put_string_def io_bind_split ber_interface_def)
qed

lemma put_default:
  "put_bool x ConfigVar_default = (Inr (), cv_end (ber (if x then 1 else 0)))"
  "put_int w ConfigVar_default = (Inr (), cv_end (ber w))"
  "put_string d ConfigVar_default = (Inr (), cv_end (ber_string d))"
  "put_interface i ConfigVar_default = (Inr (), cv_end (ber_interface i))"
  using writeInt_end [of _ "[]"] writeString_end [of _ "[]"] put_interface_end [of i "[]"]
  by (simp_all add: put_bool_def put_int_def put_string_def ConfigVar_default_def)

lemma vars_of_map:
  assumes "vars_ok vars" "map_of vars = map_of es" "distinct (map fst es)"
  shows "set vars = set es" "length vars = length es"
proof -
  have d: "distinct (map fst vars)" using assms(1) by (rule strict_sorted_iff [THEN iffD1, THEN conjunct2])
  show "set vars = set es"
    using map_of_inject_set [OF d assms(3)] assms(2) by simp
  then show "length vars = length es"
    using d assms(3) by (metis distinct_card length_map set_map)
qed

definition v5_ops :: "EncFSConfig \<Rightarrow> (bytes \<times> (configvar, unit) io) list" where
  "v5_ops c =
    [(str ''creator'', put_string (creator c)), (str ''subVersion'', put_int (word_of_int (subVersion c))),
     (str ''cipher'', put_interface (cipherIface c)), (str ''naming'', put_interface (nameIface c)),
     (str ''keySize'', put_int (word_of_int (keySize c))), (str ''blockSize'', put_int (word_of_int (blockSize c))),
     (str ''keyData'', put_string (keyData c)), (str ''blockMACBytes'', put_int (word_of_int (blockMACBytes c))),
     (str ''blockMACRandBytes'', put_int (word_of_int (blockMACRandBytes c))),
     (str ''uniqueIV'', put_bool (uniqueIV c)), (str ''chainedIV'', put_bool (chainedNameIV c)),
     (str ''externalIV'', put_bool (externalIVChaining c))]"

definition v5_entries :: "EncFSConfig \<Rightarrow> (bytes \<times> configvar) list" where
  "v5_entries c = map (\<lambda>(k, m). (k, snd (m ConfigVar_default))) (v5_ops c)"

lemma v5_map_entries: "vars_ok (v5_map c)" "map_of (v5_map c) = map_of (v5_entries c)"
proof -
  have "v5_map c = snd (put_all (v5_ops c) [])"
    by (simp only: v5_map_def v5_ops_def put_all.simps(2) put_all_last)
  moreover have "distinct (map fst (v5_ops c))" by (simp add: v5_ops_def)
  moreover have "\<forall>(k, m)\<in>set (v5_ops c). fst (m ConfigVar_default) = Inr ()"
    by (simp add: v5_ops_def put_default)
  ultimately show "vars_ok (v5_map c)" "map_of (v5_map c) = map_of (v5_entries c)"
    using put_all_map [of "[]" "v5_ops c"] by (simp_all add: v5_entries_def)
qed

definition v5_ok :: "EncFSConfig \<Rightarrow> bool" where
  "v5_ok c = (length (creator c) < 2 ^ 30 \<and> length (keyData c) < 2 ^ 30 \<and>
     iface_ok (cipherIface c) \<and> iface_ok (nameIface c) \<and> int_ok (keySize c) \<and> int_ok (blockSize c) \<and>
     int_ok (blockMACBytes c) \<and> int_ok (blockMACRandBytes c))"

lemma ber_lengths:
  "length (ber_string d) \<le> 5 + length d" "length (ber_interface i) \<le> 20 + length (if_name i)"
proof -
  show s: "length (ber_string d) \<le> 5 + length d" for d
    using ber_length(2) [of "of_nat (length d)"] by (simp add: ber_string_def)
  show "length (ber_interface i) \<le> 20 + length (if_name i)"
    using s [of "if_name i"] ber_length(2) [of "word_of_int (if_current i)"]
      ber_length(2) [of "word_of_int (if_revision i)"] ber_length(2) [of "word_of_int (if_age i)"]
    by (simp add: ber_interface_def)
qed

lemma ber_small:
  "length (ber w) < 2 ^ 31" "length d < 2 ^ 30 \<Longrightarrow> length (ber_string d) < 2 ^ 31"
  "iface_ok i \<Longrightarrow> length (ber_interface i) < 2 ^ 31"
  using ber_length(2) [of w] ber_lengths(1) [of d] ber_lengths(2) [of i]
  by (simp_all add: iface_ok_def)

lemma v5_loaded:
  assumes "v5_ok c"
  defines "file \<equiv> cv_buffer (toVar (v5_map c))"
  shows "\<exists>r. config_load (Some (length file)) True (Some file) [] = (Inr True, r) \<and> vars_ok r \<and>
    map_of r = map_option (\<lambda>v. ConfigVar (cv_buffer v)) \<circ> map_of (v5_entries c)"
proof -
  have keys: "distinct (map fst (v5_entries c))" by (simp add: v5_entries_def v5_ops_def)
  note vars = vars_of_map [OF v5_map_entries keys]
  have ok: "\<forall>e\<in>set (v5_map c). entry_ok e"
    using assms(1) unfolding vars(1)
    by (simp add: v5_entries_def v5_ops_def put_default entry_ok_def v5_ok_def ber_small [simplified])
  have len: "length (v5_map c) < 2 ^ 31" unfolding vars(2) by (simp add: v5_entries_def v5_ops_def)
  let ?r = "map (\<lambda>(k, v). (k, ConfigVar (cv_buffer v))) (v5_map c)"
  have "cv_write file ConfigVar_default = (Inr (length file), toVar (v5_map c))"
    using cv_write_end [of "file" "[]"] by (simp add: ConfigVar_default_def toVar_eq file_def)
  then have "config_load (Some (length file)) True (Some file) [] = (Inr True, ?r)"
    using loadFromVar_toVar [OF ok v5_map_entries(1) len]
    by (cases "loadFromVar (toVar (v5_map c), [])") (auto simp: config_load_def)
  moreover have "vars_ok ?r"
    using v5_map_entries(1) [of c] by (simp add: comp_def case_prod_beta)
  moreover have "map_of ?r = map_option (\<lambda>v. ConfigVar (cv_buffer v)) \<circ> map_of (v5_map c)"
    by (rule map_of_map)
  ultimately show ?thesis using v5_map_entries(2) [of c] by auto
qed

lemma map_of_update_other: "k' \<noteq> k \<Longrightarrow> map_of (vars_update k v vars) k' = map_of vars k'"
  by (simp add: map_of_vars_update)

section \<open>What the callers rely on\<close>

text \<open>
  Claim C19. A volume description survives the version 5 configuration file: reading the bytes
  \<open>writeV5Config\<close> produces gives every stored field back, and leaves the fields the format
  does not have as they were.
\<close>

theorem v5_config_roundtrip:
  assumes "v5_ok c" "subVersion c = 20040813"
  defines "file \<equiv> cv_buffer (toVar (v5_map c))"
  shows "readV5Config (Some (length file)) True (Some file) (ConfigFileMapping ! 1) c0 =
    (Inr True, c0\<lparr>subVersion := subVersion c, creator := creator c, cipherIface := cipherIface c,
       nameIface := nameIface c, keySize := keySize c, blockSize := blockSize c, keyData := keyData c,
       uniqueIV := uniqueIV c, chainedNameIV := chainedNameIV c, externalIVChaining := externalIVChaining c,
       blockMACBytes := blockMACBytes c, blockMACRandBytes := blockMACRandBytes c\<rparr>)"
proof -
  obtain r where r: "config_load (Some (length file)) True (Some file) [] = (Inr True, r)" "vars_ok r"
      "map_of r = map_option (\<lambda>v. ConfigVar (cv_buffer v)) \<circ> map_of (v5_entries c)"
    using v5_loaded [OF assms(1)] by (auto simp: file_def)
  have "int_ok 20040813" by (simp add: int_ok_def)
  note w = int_ok_word [OF this]
  show ?thesis
    using assms(1,2) r(2,3) w
    by (simp add: readV5Config_def read_binary_config_def r(1) io_catch_def readV5_body_def io_bind_split
      rd_step setc_apply v5_entries_def v5_ops_def put_default map_of_update_other v5_ok_def int_ok_word
      readInt_default_whole readInt_whole readBool_whole get_string_whole get_interface_whole get_int_def
      ConfigFileMapping_def V5SubVersion_def io_return_def)
qed

theorem v5_config_roundtrip_witness:
  "let c = (EncFSConfig_new 192 1024)\<lparr>subVersion := 20040813, creator := str ''EncFS 1.1'',
         cipherIface := Interface (str ''ssl/aes'') 3 0 2, nameIface := Interface (str ''nameio/block'') 3 0 1,
         keyData := [1, 2, 3], uniqueIV := True, blockMACBytes := 8\<rparr>;
       file = cv_buffer (toVar (v5_map c)) in
   v5_ok c \<and> subVersion c = 20040813 \<and>
   readV5Config (Some (length file)) True (Some file) (ConfigFileMapping ! 1) (EncFSConfig_new 0 0) = (Inr True, c)"
proof -
  let ?c = "(EncFSConfig_new 192 1024)\<lparr>subVersion := 20040813, creator := str ''EncFS 1.1'',
         cipherIface := Interface (str ''ssl/aes'') 3 0 2, nameIface := Interface (str ''nameio/block'') 3 0 1,
         keyData := [1, 2, 3], uniqueIV := True, blockMACBytes := 8\<rparr>"
  have ok: "v5_ok ?c" "subVersion ?c = 20040813"
    by (simp_all add: v5_ok_def EncFSConfig_new_def iface_ok_def Interface_def int_ok_def)
  show ?thesis
    unfolding Let_def using ok v5_config_roundtrip [OF ok, of "EncFSConfig_new 0 0"]
    by (simp add: EncFSConfig_new_def)
qed



end
