(* ===== verification/File_Node.thy ===== *)
theory File_Node
  imports File_Stack Name_IO Open_Files Volume_Config
begin

text \<open>
  \<open>FileNode\<close> (\<^verbatim>\<open>encfs/FileNode.cpp\<close>): a file of the volume, with its plain and its encrypted
  name and the stack of \<open>FileIO\<close> objects below it.

  \<^item> The stack is a \<open>CipherFileIO\<close>, or a \<open>MACFileIO\<close> above one, over a \<open>RawFileIO\<close>; the type
    \<open>node_io\<close> is the sum of the two and \<open>either_fileio\<close> is the dispatch of the virtual
    functions.
  \<^item> The handle and the canary of a node are kept by \<open>Open_Files\<close>, which is who uses them.
  \<^item> The calls to the operating system that work on names are the record \<open>filesys\<close>, over the
    same state as the calls \<open>sys\<close> on open files; again a negated error number stands for
    -1 and \<open>errno\<close>.
  \<^item> Every object draws random bytes from a source of its own.
\<close>

section \<open>The system and the volume\<close>

record dirent =
  d_name :: bytes
  d_type :: byte
  d_ino :: u64

text \<open>
  Of \<open>stat\<close>, as opposed to \<open>lstat\<close>, only the two times are used.
\<close>

definition DT_UNKNOWN :: byte where "DT_UNKNOWN = 0"
definition DT_DIR :: byte where "DT_DIR = 4"

record 'w filesys =
  fsy_setfsuid :: "int \<Rightarrow> 'w \<Rightarrow> int \<times> 'w"
  fsy_setfsgid :: "int \<Rightarrow> 'w \<Rightarrow> int \<times> 'w"
  fsy_create :: "bytes \<Rightarrow> u32 \<Rightarrow> 'w \<Rightarrow> int \<times> 'w"
  fsy_close :: "int \<Rightarrow> 'w \<Rightarrow> int \<times> 'w"
  fsy_mkfifo :: "bytes \<Rightarrow> u32 \<Rightarrow> 'w \<Rightarrow> int \<times> 'w"
  fsy_mknod :: "bytes \<Rightarrow> u32 \<Rightarrow> int \<Rightarrow> 'w \<Rightarrow> int \<times> 'w"
  fsy_fsync :: "int \<Rightarrow> 'w \<Rightarrow> int \<times> 'w"
  fsy_fdatasync :: "int \<Rightarrow> 'w \<Rightarrow> int \<times> 'w"
  fsy_stat :: "bytes \<Rightarrow> 'w \<Rightarrow> (int + int \<times> int) \<times> 'w"
  fsy_utime :: "bytes \<Rightarrow> int \<times> int \<Rightarrow> 'w \<Rightarrow> int \<times> 'w"
  fsy_rename :: "bytes \<Rightarrow> bytes \<Rightarrow> 'w \<Rightarrow> int \<times> 'w"
  fsy_mkdir :: "bytes \<Rightarrow> u32 \<Rightarrow> 'w \<Rightarrow> int \<times> 'w"
  fsy_link :: "bytes \<Rightarrow> bytes \<Rightarrow> 'w \<Rightarrow> int \<times> 'w"
  fsy_unlink :: "bytes \<Rightarrow> 'w \<Rightarrow> int \<times> 'w"
  fsy_readdir :: "bytes \<Rightarrow> 'w \<Rightarrow> (int + dirent list) \<times> 'w"

text \<open>What the nodes of a volume use of \<open>FSConfig\<close> and of the options.\<close>

record fsconfig =
  fs_config :: EncFSConfig
  fs_mountPoint :: bytes
  fs_noCache :: bool
  fs_forceDecode :: bool
  fs_reverseEncryption :: bool
  fs_nameCoding :: nameio

record ('w, 'k, 'r) fs_env =
  fe_sys :: "'w sys"
  fe_fsys :: "'w filesys"
  fe_cipher :: "('k, 'r) cipher"
  fe_key :: 'k
  fe_sha1 :: "bytes \<Rightarrow> bytes"
  fe_tries :: nat
  fe_rng :: "u64 \<Rightarrow> 'r \<times> 'r"

section \<open>The stack of a node\<close>

type_synonym ('w, 'r) plain_io = "('w rawfileio, 'r) cipherfileio"
type_synonym ('w, 'r) node_io = "('w, 'r) plain_io + (('w, 'r) plain_io, 'r) macfileio"

fun either_io :: "('a, 'x) io \<Rightarrow> ('b, 'x) io \<Rightarrow> ('a + 'b, 'x) io" where
  "either_io f g (Inl s) = (case f s of (r, s) \<Rightarrow> (r, Inl s))"
| "either_io f g (Inr s) = (case g s of (r, s) \<Rightarrow> (r, Inr s))"

definition either_fileio :: "'a fileio \<Rightarrow> 'b fileio \<Rightarrow> ('a + 'b) fileio" where
  "either_fileio a b =
     \<lparr>fio_blockSize = case_sum (fio_blockSize a) (fio_blockSize b),
      fio_setFileName = (\<lambda>n. map_sum (fio_setFileName a n) (fio_setFileName b n)),
      fio_getFileName = case_sum (fio_getFileName a) (fio_getFileName b),
      fio_setIV = (\<lambda>iv. either_io (fio_setIV a iv) (fio_setIV b iv)),
      fio_open = (\<lambda>flags. either_io (fio_open a flags) (fio_open b flags)),
      fio_getAttr = either_io (fio_getAttr a) (fio_getAttr b),
      fio_getSize = either_io (fio_getSize a) (fio_getSize b),
      fio_read = (\<lambda>off len. either_io (fio_read a off len) (fio_read b off len)),
      fio_write = (\<lambda>off d. either_io (fio_write a off d) (fio_write b off d)),
      fio_truncate = (\<lambda>n. either_io (fio_truncate a n) (fio_truncate b n)),
      fio_isWritable = case_sum (fio_isWritable a) (fio_isWritable b)\<rparr>"

definition node_cenv :: "('w, 'k, 'r) fs_env \<Rightarrow> ('w rawfileio, 'k, 'r) cipher_env" where
  "node_cenv env = \<lparr>ce_base = raw_fileio (fe_sys env), ce_cipher = fe_cipher env, ce_key = fe_key env,
     ce_sha1 = fe_sha1 env, ce_tries = fe_tries env\<rparr>"

definition node_menv :: "('w, 'k, 'r) fs_env \<Rightarrow> (('w, 'r) plain_io, 'k, 'r) mac_env" where
  "node_menv env = \<lparr>me_base = cipher_fileio (node_cenv env), me_cipher = fe_cipher env, me_key = fe_key env\<rparr>"

definition node_fileio :: "('w, 'k, 'r) fs_env \<Rightarrow> ('w, 'r) node_io fileio" where
  "node_fileio env = either_fileio (cipher_fileio (node_cenv env)) (mac_fileio (node_menv env))"

text \<open>The state of the system as the stack sees it.\<close>

fun io_world :: "('w, 'r) node_io \<Rightarrow> 'w" where
  "io_world (Inl s) = raw_world (cf_base s)"
| "io_world (Inr s) = raw_world (cf_base (mf_base s))"

fun set_io_world :: "'w \<Rightarrow> ('w, 'r) node_io \<Rightarrow> ('w, 'r) node_io" where
  "set_io_world w (Inl s) = Inl (s\<lparr>cf_base := (cf_base s)\<lparr>raw_world := w\<rparr>\<rparr>)"
| "set_io_world w (Inr s) = Inr (s\<lparr>mf_base := (mf_base s)\<lparr>cf_base := (cf_base (mf_base s))\<lparr>raw_world := w\<rparr>\<rparr>\<rparr>)"

lemma io_world_set [simp]: "io_world (set_io_world w io) = w"
  by (cases io) simp_all

section \<open>The code\<close>

record ('w, 'r) filenode =
  fnode_pname :: bytes
  fnode_cname :: bytes
  fnode_io :: "('w, 'r) node_io"

definition FileNode_new ::
  "('w, 'k, 'r) fs_env \<Rightarrow> fsconfig \<Rightarrow> bytes \<Rightarrow> bytes \<Rightarrow> u64 \<Rightarrow> 'w \<Rightarrow> exn + ('w, 'r) filenode" where
  "FileNode_new env cfg plaintextName cipherName fuseFh w =
     (let c = fs_config cfg; rngs = fe_rng env fuseFh in
      case CipherFileIO_new (node_cenv env) (unat (word_of_int (blockSize c) :: u32)) (allowHoles c) (fs_noCache cfg)
             (uniqueIV c) (fs_reverseEncryption cfg) (RawFileIO_new cipherName w) (fst rngs) of
        Inl e \<Rightarrow> Inl e
      | Inr s \<Rightarrow>
          if blockMACBytes c \<noteq> 0 \<or> blockMACRandBytes c \<noteq> 0 then
            (case MACFileIO_new (blockSize c) (blockMACBytes c) (blockMACRandBytes c) (allowHoles c) (fs_noCache cfg)
                    (fs_forceDecode cfg) s (snd rngs) of
               Inl e \<Rightarrow> Inl e
             | Inr s \<Rightarrow> Inr \<lparr>fnode_pname = plaintextName, fnode_cname = cipherName, fnode_io = Inr s\<rparr>)
          else Inr \<lparr>fnode_pname = plaintextName, fnode_cname = cipherName, fnode_io = Inl s\<rparr>)"

definition parentDirectory :: "bytes \<Rightarrow> bytes" where
  "parentDirectory path = (if slash \<in> set path then rev (tl (dropWhile (\<lambda>c. c \<noteq> slash) (rev path))) else [])"

definition plaintextParent :: "('w, 'r) filenode \<Rightarrow> bytes" where
  "plaintextParent n = parentDirectory (fnode_pname n)"

definition on_io :: "(('w, 'r) node_io, 'a) io \<Rightarrow> (('w, 'r) filenode, 'a) io" where
  "on_io m = io_lift fnode_io (\<lambda>b n. n\<lparr>fnode_io := b\<rparr>) m"

text \<open>A system call made by the node itself.\<close>

definition on_world :: "('w \<Rightarrow> 'a \<times> 'w) \<Rightarrow> (('w, 'r) filenode, 'a) io" where
  "on_world f n = (case f (io_world (fnode_io n)) of (r, w) \<Rightarrow> (Inr r, n\<lparr>fnode_io := set_io_world w (fnode_io n)\<rparr>))"

text \<open>The static function \<open>setIV\<close>.\<close>

definition node_setIV :: "('w, 'k, 'r) fs_env \<Rightarrow> u64 \<Rightarrow> (('w, 'r) filenode, bool) io" where
  "node_setIV env iv =
     io_bind (on_io (fio_getAttr (node_fileio env))) (\<lambda>res.
     if (case res of Inl _ \<Rightarrow> True | Inr stbuf \<Rightarrow> S_ISREG (st_mode stbuf))
     then on_io (fio_setIV (node_fileio env) iv) else io_return True)"

definition assign_names :: "('w, 'k, 'r) fs_env \<Rightarrow> bytes option \<Rightarrow> bytes option \<Rightarrow> ('w, 'r) filenode \<Rightarrow> ('w, 'r) filenode" where
  "assign_names env plaintextName cipherName n =
     (let n = (case plaintextName of None \<Rightarrow> n | Some p \<Rightarrow> n\<lparr>fnode_pname := p\<rparr>) in
      case cipherName of None \<Rightarrow> n
      | Some c \<Rightarrow> n\<lparr>fnode_cname := c, fnode_io := fio_setFileName (node_fileio env) c (fnode_io n)\<rparr>)"

definition setName ::
  "('w, 'k, 'r) fs_env \<Rightarrow> fsconfig \<Rightarrow> bytes option \<Rightarrow> bytes option \<Rightarrow> u64 \<Rightarrow> bool \<Rightarrow> (('w, 'r) filenode, bool) io" where
  "setName env cfg plaintextName cipherName iv setIVFirst =
     (if setIVFirst then
        io_bind (if externalIVChaining (fs_config cfg) then node_setIV env iv else io_return True) (\<lambda>ok.
        if \<not> ok then io_return False
        else io_bind (io_modify (assign_names env plaintextName cipherName)) (\<lambda>_. io_return True))
      else
        io_bind (io_get id) (\<lambda>old.
        io_bind (io_modify (assign_names env plaintextName cipherName)) (\<lambda>_.
        io_bind (if externalIVChaining (fs_config cfg) then node_setIV env iv else io_return True) (\<lambda>ok.
        if \<not> ok then
          io_bind (io_modify (\<lambda>n. n\<lparr>fnode_pname := fnode_pname old, fnode_cname := fnode_cname old\<rparr>)) (\<lambda>_. io_return False)
        else io_return True))))"

text \<open>
  What \<open>mknod\<close> and \<open>DirNode::mkdir\<close> do around the creation: act as the given user and group.
  When the user cannot be set the group stays changed.
\<close>

definition as_owner :: "'w filesys \<Rightarrow> int \<Rightarrow> int \<Rightarrow> ('w \<Rightarrow> int \<times> 'w) \<Rightarrow> 'w \<Rightarrow> int \<times> 'w" where
  "as_owner fsy uid gid act w =
     (case (if gid \<noteq> 0 then fsy_setfsgid fsy gid w else (-1, w)) of
        (oldgid, w) \<Rightarrow>
          if gid \<noteq> 0 \<and> oldgid = -1 then (- EPERM, w)
          else
            (case (if uid \<noteq> 0 then fsy_setfsuid fsy uid w else (-1, w)) of
               (olduid, w) \<Rightarrow>
                 if uid \<noteq> 0 \<and> olduid = -1 then (- EPERM, w)
                 else
                   (case act w of
                      (res, w) \<Rightarrow>
                        let w = (if olduid \<ge> 0 then snd (fsy_setfsuid fsy olduid w) else w);
                            w = (if oldgid \<ge> 0 then snd (fsy_setfsgid fsy oldgid w) else w)
                        in (res, w))))"

definition S_ISFIFO :: "u32 \<Rightarrow> bool" where
  "S_ISFIFO m = (m AND 0xF000 = 0x1000)"

definition node_mknod :: "('w, 'k, 'r) fs_env \<Rightarrow> u32 \<Rightarrow> int \<Rightarrow> int \<Rightarrow> int \<Rightarrow> (('w, 'r) filenode, int) io" where
  "node_mknod env mode rdev uid gid = (\<lambda>n. on_world (as_owner (fe_fsys env) uid gid (\<lambda>w.
     if S_ISREG mode then
       (case fsy_create (fe_fsys env) (fnode_cname n) mode w of
          (res, w) \<Rightarrow> if res \<ge> 0 then fsy_close (fe_fsys env) res w else (res, w))
     else if S_ISFIFO mode then fsy_mkfifo (fe_fsys env) (fnode_cname n) mode w
     else fsy_mknod (fe_fsys env) (fnode_cname n) mode rdev w)) n)"

definition node_open :: "('w, 'k, 'r) fs_env \<Rightarrow> int \<Rightarrow> (('w, 'r) filenode, int) io" where
  "node_open env flags = on_io (fio_open (node_fileio env) flags)"

definition node_getAttr :: "('w, 'k, 'r) fs_env \<Rightarrow> (('w, 'r) filenode, int + stat) io" where
  "node_getAttr env = on_io (fio_getAttr (node_fileio env))"

definition node_getSize :: "('w, 'k, 'r) fs_env \<Rightarrow> (('w, 'r) filenode, int) io" where
  "node_getSize env = on_io (fio_getSize (node_fileio env))"

definition node_read :: "('w, 'k, 'r) fs_env \<Rightarrow> nat \<Rightarrow> nat \<Rightarrow> (('w, 'r) filenode, int + bytes) io" where
  "node_read env offset sz = on_io (fio_read (node_fileio env) offset sz)"

definition node_write :: "('w, 'k, 'r) fs_env \<Rightarrow> nat \<Rightarrow> bytes \<Rightarrow> (('w, 'r) filenode, int) io" where
  "node_write env offset d =
     io_bind (on_io (fio_write (node_fileio env) offset d)) (\<lambda>res.
     io_return (if res < 0 then res else int (length d)))"

definition node_truncate :: "('w, 'k, 'r) fs_env \<Rightarrow> nat \<Rightarrow> (('w, 'r) filenode, int) io" where
  "node_truncate env sz = on_io (fio_truncate (node_fileio env) sz)"

definition node_sync :: "('w, 'k, 'r) fs_env \<Rightarrow> bool \<Rightarrow> (('w, 'r) filenode, int) io" where
  "node_sync env datasync =
     io_bind (on_io (fio_open (node_fileio env) O_RDONLY)) (\<lambda>fh.
     if fh \<ge> 0
     then on_world (if datasync then fsy_fdatasync (fe_fsys env) fh else fsy_fsync (fe_fsys env) fh)
     else io_return fh)"

end
