(* ===== verification/Dir_Node.thy ===== *)
theory Dir_Node
  imports File_Node
begin

text \<open>
  \<open>DirNode\<close> (\<^verbatim>\<open>encfs/DirNode.cpp\<close>): the tree of a volume as its plain names. It codes
  paths, lists directories, finds or creates the node of a file, and renames; when names are chained the
  renaming of a directory renames everything below it first, and takes it back when a step fails.

  \<^item> The object itself does not change: \<open>dirnode\<close>. What its operations change is \<open>dirstate\<close>: the context,
    the nodes by their address, and the state of the operating system.
  \<^item> A directory that was opened is the list of the entries that are still to be read.
  \<^item> \<open>genRenameList\<close> calls itself for every subdirectory; its fuel bounds the depth.
\<close>

section \<open>State\<close>

record dirnode =
  dn_rootDir :: bytes
  dn_cfg :: fsconfig
  dn_hasCtx :: bool

abbreviation naming :: "dirnode \<Rightarrow> nameio" where
  "naming dn \<equiv> fs_nameCoding (dn_cfg dn)"

record ('w, 'r) dirstate =
  ds_ctx :: efs_context
  ds_nodes :: "nat \<Rightarrow> ('w, 'r) filenode"
  ds_world :: 'w

text \<open>An operation of the node at an address, on the current state of the system.\<close>

definition on_node :: "nat \<Rightarrow> (('w, 'r) filenode, 'a) io \<Rightarrow> (('w, 'r) dirstate, 'a) io" where
  "on_node p m s =
     (let n = ds_nodes s p in
      case m (n\<lparr>fnode_io := set_io_world (ds_world s) (fnode_io n)\<rparr>) of
        (r, n) \<Rightarrow> (r, s\<lparr>ds_nodes := (ds_nodes s)(p := n), ds_world := io_world (fnode_io n)\<rparr>))"

definition on_system :: "('w \<Rightarrow> 'a \<times> 'w) \<Rightarrow> (('w, 'r) dirstate, 'a) io" where
  "on_system f s = (case f (ds_world s) of (r, w) \<Rightarrow> (Inr r, s\<lparr>ds_world := w\<rparr>))"

section \<open>Paths\<close>

definition hasDirectoryNameDependency :: "dirnode \<Rightarrow> bool" where
  "hasDirectoryNameDependency dn = nio_chainedNameIV (naming dn)"

definition rootDirectory :: "dirnode \<Rightarrow> bytes" where
  "rootDirectory dn = take (length (dn_rootDir dn) - 1) (dn_rootDir dn)"

text \<open>The byte behind the end of a C string is NUL. A mount point is not empty and has no NUL.\<close>

definition touchesMountpoint :: "dirnode \<Rightarrow> bytes \<Rightarrow> bool" where
  "touchesMountpoint dn realPath =
     (let mountPoint = fs_mountPoint (dn_cfg dn); len = length mountPoint - 1 in
      if take len mountPoint = take len realPath
      then (realPath @ [0]) ! len = 0 \<or> (realPath @ [0]) ! len = slash else False)"

definition cipherPathWithoutRoot :: "dirnode \<Rightarrow> bytes \<Rightarrow> exn + bytes" where
  "cipherPathWithoutRoot dn plaintextPath = map_sum id fst (encodePath (naming dn) plaintextPath 0)"

definition cipherPath :: "dirnode \<Rightarrow> bytes \<Rightarrow> exn + bytes" where
  "cipherPath dn plaintextPath = map_sum id (\<lambda>p. dn_rootDir dn @ p) (cipherPathWithoutRoot dn plaintextPath)"

text \<open>\<open>catch (encfs::Error &err)\<close> with an empty string as the result.\<close>

fun or_empty :: "exn + bytes \<Rightarrow> exn + bytes" where
  "or_empty (Inl (Error _)) = Inr []"
| "or_empty r = r"

definition plainPath :: "dirnode \<Rightarrow> bytes \<Rightarrow> exn + bytes" where
  "plainPath dn cpath =
     or_empty
       (let reverse = fs_reverseEncryption (dn_cfg dn);
            mark = (if reverse then slash else plus_sign);
            prefix = (if reverse then plus_sign else slash)
        in case cpath of
             c # rest \<Rightarrow> if c = mark then map_sum id (\<lambda>n. prefix # n) (decodeName (naming dn) rest)
                         else map_sum id fst (decodePath (naming dn) cpath 0)
           | [] \<Rightarrow> map_sum id fst (decodePath (naming dn) cpath 0))"

definition relativeCipherPath :: "dirnode \<Rightarrow> bytes \<Rightarrow> exn + bytes" where
  "relativeCipherPath dn plaintextPath =
     or_empty
       (let reverse = fs_reverseEncryption (dn_cfg dn);
            mark = (if reverse then plus_sign else slash);
            prefix = (if reverse then slash else plus_sign)
        in case plaintextPath of
             c # rest \<Rightarrow> if c = mark then map_sum id (\<lambda>n. prefix # n) (encodeName (naming dn) rest)
                         else map_sum id fst (encodePath (naming dn) plaintextPath 0)
           | [] \<Rightarrow> map_sum id fst (encodePath (naming dn) plaintextPath 0))"

section \<open>Listing a directory\<close>

record dirtraverse =
  dt_dir :: "dirent list"
  dt_iv :: u64
  dt_naming :: nameio
  dt_root :: bool

definition skip_config :: "bool \<Rightarrow> dirent \<Rightarrow> bool" where
  "skip_config root de = (root \<and> d_name de = str ''.encfs6.xml'')"

text \<open>The name, the entry it comes from, and the entries behind it; an empty name at the end.\<close>

fun next_plaintext :: "nameio \<Rightarrow> u64 \<Rightarrow> bool \<Rightarrow> dirent list \<Rightarrow> exn + bytes \<times> dirent option \<times> dirent list" where
  "next_plaintext nio iv root [] = Inr ([], None, [])"
| "next_plaintext nio iv root (de # des) =
     (if skip_config root de then next_plaintext nio iv root des
      else case decodePath nio (d_name de) iv of
        Inr (n, _) \<Rightarrow> Inr (n, Some de, des)
      | Inl (Error _) \<Rightarrow> next_plaintext nio iv root des
      | Inl e \<Rightarrow> Inl e)"

definition nextPlaintextName :: "dirtraverse \<Rightarrow> exn + bytes \<times> dirent option \<times> dirtraverse" where
  "nextPlaintextName dt =
     (case next_plaintext (dt_naming dt) (dt_iv dt) (dt_root dt) (dt_dir dt) of
        Inl e \<Rightarrow> Inl e | Inr (n, de, des) \<Rightarrow> Inr (n, de, dt\<lparr>dt_dir := des\<rparr>))"

fun next_invalid :: "nameio \<Rightarrow> u64 \<Rightarrow> bool \<Rightarrow> dirent list \<Rightarrow> exn + bytes \<times> dirent list" where
  "next_invalid nio iv root [] = Inr ([], [])"
| "next_invalid nio iv root (de # des) =
     (if skip_config root de then next_invalid nio iv root des
      else case decodePath nio (d_name de) iv of
        Inr _ \<Rightarrow> next_invalid nio iv root des
      | Inl (Error _) \<Rightarrow> Inr (d_name de, des)
      | Inl e \<Rightarrow> Inl e)"

definition nextInvalid :: "dirtraverse \<Rightarrow> exn + bytes \<times> dirtraverse" where
  "nextInvalid dt =
     (case next_invalid (dt_naming dt) (dt_iv dt) (dt_root dt) (dt_dir dt) of
        Inl e \<Rightarrow> Inl e | Inr (n, des) \<Rightarrow> Inr (n, dt\<lparr>dt_dir := des\<rparr>))"

text \<open>\<open>None\<close> is a traversal that is not valid.\<close>

definition openDir :: "('w, 'k, 'r) fs_env \<Rightarrow> dirnode \<Rightarrow> bytes \<Rightarrow> (('w, 'r) dirstate, dirtraverse option) io" where
  "openDir env dn plaintextPath =
     io_bind (io_of (cipherPath dn plaintextPath)) (\<lambda>cyName.
     io_bind (on_system (fsy_readdir (fe_fsys env) cyName)) (\<lambda>dir.
     case dir of Inl _ \<Rightarrow> io_return None
     | Inr des \<Rightarrow>
         io_bind (io_of (if nio_chainedNameIV (naming dn) then
             (case encodePath (naming dn) plaintextPath 0 of
                Inr (_, iv) \<Rightarrow> Inr iv | Inl (Error _) \<Rightarrow> Inr 0 | Inl e \<Rightarrow> Inl e) else Inr 0)) (\<lambda>iv.
         io_return (Some \<lparr>dt_dir = des, dt_iv = iv, dt_naming = naming dn, dt_root = (length plaintextPath = 1)\<rparr>))))"

section \<open>Nodes\<close>

definition findOrCreate :: "('w, 'k, 'r) fs_env \<Rightarrow> dirnode \<Rightarrow> bytes \<Rightarrow> (('w, 'r) dirstate, nat option) io" where
  "findOrCreate env dn plainName s =
     (if \<not> dn_hasCtx dn then (Inr None, s)
      else case ctx_lookupNode plainName (ds_ctx s) of
        Some p \<Rightarrow> (Inr (Some p), s)
      | None \<Rightarrow>
          (case encodePath (naming dn) plainName 0 of
             Inl e \<Rightarrow> (Inl e, s)
           | Inr (cipherName, iv) \<Rightarrow>
               (case newNode (ds_ctx s) of
                  (p, ctx) \<Rightarrow>
                    let s = s\<lparr>ds_ctx := ctx\<rparr> in
                    (case FileNode_new env (dn_cfg dn) plainName (dn_rootDir dn @ cipherName) (fn_fuseFh ctx p) (ds_world s) of
                       Inl e \<Rightarrow> (Inl e, s)
                     | Inr n \<Rightarrow>
                         let s = s\<lparr>ds_nodes := (ds_nodes s)(p := n)\<rparr> in
                         if externalIVChaining (fs_config (dn_cfg dn))
                         then io_bind (on_node p (setName env (dn_cfg dn) None None iv True)) (\<lambda>_. io_return (Some p)) s
                         else (Inr (Some p), s)))))"

definition dir_lookupNode :: "('w, 'k, 'r) fs_env \<Rightarrow> dirnode \<Rightarrow> bytes \<Rightarrow> (('w, 'r) dirstate, nat option) io" where
  "dir_lookupNode env dn plainName = findOrCreate env dn plainName"

text \<open>The node when it could be opened, and the value of \<open>open\<close>; without a node \<open>*result\<close> is left as it is.\<close>

definition openNode ::
  "('w, 'k, 'r) fs_env \<Rightarrow> dirnode \<Rightarrow> bytes \<Rightarrow> int \<Rightarrow> int \<Rightarrow> (('w, 'r) dirstate, nat option \<times> int) io" where
  "openNode env dn plainName flags result =
     io_bind (findOrCreate env dn plainName) (\<lambda>node.
     case node of None \<Rightarrow> io_return (None, result)
     | Some p \<Rightarrow>
         io_bind (on_node p (node_open env flags)) (\<lambda>res.
         io_return (if res \<ge> 0 then (Some p, res) else (None, res))))"

definition dir_renameNode ::
  "('w, 'k, 'r) fs_env \<Rightarrow> dirnode \<Rightarrow> bytes \<Rightarrow> bytes \<Rightarrow> bool \<Rightarrow> (('w, 'r) dirstate, nat option) io" where
  "dir_renameNode env dn from to forwardMode =
     io_bind (findOrCreate env dn from) (\<lambda>node.
     case node of None \<Rightarrow> io_return None
     | Some p \<Rightarrow>
         io_bind (io_of (encodePath (naming dn) to 0)) (\<lambda>(c, newIV).
         io_bind (on_node p (setName env (dn_cfg dn) (Some to) (Some (dn_rootDir dn @ c)) newIV forwardMode)) (\<lambda>ok.
         if ok then io_bind (io_modify (\<lambda>s. s\<lparr>ds_ctx := ctx_renameNode from to (ds_ctx s)\<rparr>)) (\<lambda>_. io_return (Some p))
         else io_throw (Error ''Internal node name change failed!''))))"

section \<open>Renaming\<close>

record renameel =
  oldCName :: bytes
  newCName :: bytes
  oldPName :: bytes
  newPName :: bytes
  re_isDirectory :: bool

definition isDirectory :: "'w sys \<Rightarrow> bytes \<Rightarrow> 'w \<Rightarrow> bool \<times> 'w" where
  "isDirectory sys fileName w =
     (case sys_lstat sys fileName w of (Inr buf, w) \<Rightarrow> (S_ISDIR (st_mode buf), w) | (Inl _, w) \<Rightarrow> (False, w))"

definition is_dots :: "bytes \<Rightarrow> bool" where
  "is_dots n = (n = [dot] \<or> n = [dot, dot])"

text \<open>
  The loop of \<open>genRenameList\<close> over the entries. \<open>descend\<close> is the recursive call; the list is
  extended at its end, and the flag tells whether everything could be renamed.
\<close>

fun genRename_entries ::
  "'w sys \<Rightarrow> nameio \<Rightarrow> (bytes \<Rightarrow> bytes \<Rightarrow> renameel list \<Rightarrow> 'w \<Rightarrow> (exn + bool \<times> renameel list) \<times> 'w) \<Rightarrow>
   u64 \<Rightarrow> u64 \<Rightarrow> bytes \<Rightarrow> bytes \<Rightarrow> bytes \<Rightarrow> dirent list \<Rightarrow> renameel list \<Rightarrow> 'w \<Rightarrow> (exn + bool \<times> renameel list) \<times> 'w" where
  "genRename_entries sys nio descend fromIV toIV sourcePath fromP toP [] renameList w = (Inr (True, renameList), w)"
| "genRename_entries sys nio descend fromIV toIV sourcePath fromP toP (de # des) renameList w =
     (if is_dots (d_name de) then genRename_entries sys nio descend fromIV toIV sourcePath fromP toP des renameList w
      else case decodePath nio (d_name de) fromIV of
        Inl (Error _) \<Rightarrow> genRename_entries sys nio descend fromIV toIV sourcePath fromP toP des renameList w
      | Inl e \<Rightarrow> (Inl e, w)
      | Inr (plainName, _) \<Rightarrow>
          (case encodePath nio plainName toIV of
             Inl (Error _) \<Rightarrow> (Inr (False, renameList), w)
           | Inl e \<Rightarrow> (Inl e, w)
           | Inr (newName, _) \<Rightarrow>
               let oldFull = sourcePath @ slash # d_name de;
                   newFull = sourcePath @ slash # newName;
                   oldP = fromP @ slash # plainName;
                   newP = toP @ slash # plainName
               in case (if d_type de \<noteq> DT_UNKNOWN then (d_type de = DT_DIR, w) else isDirectory sys oldFull w) of
                    (isDir, w) \<Rightarrow>
                      let ren = \<lparr>oldCName = oldFull, newCName = newFull, oldPName = oldP, newPName = newP,
                                 re_isDirectory = isDir\<rparr>
                      in case (if isDir then descend oldP newP renameList w else (Inr (True, renameList), w)) of
                           (Inl (Error _), w) \<Rightarrow> (Inr (False, renameList), w)
                         | (Inl e, w) \<Rightarrow> (Inl e, w)
                         | (Inr (ok, renameList), w) \<Rightarrow>
                             if \<not> ok then (Inr (False, renameList), w)
                             else genRename_entries sys nio descend fromIV toIV sourcePath fromP toP des
                                    (renameList @ [ren]) w))"

fun genRenameList ::
  "('w, 'k, 'r) fs_env \<Rightarrow> dirnode \<Rightarrow> nat \<Rightarrow> bytes \<Rightarrow> bytes \<Rightarrow> renameel list \<Rightarrow> 'w \<Rightarrow> (exn + bool \<times> renameel list) \<times> 'w" where
  "genRenameList env dn 0 fromP toP renameList w = (Inl Diverged, w)"
| "genRenameList env dn (Suc fuel) fromP toP renameList w =
     (case encodePath (naming dn) fromP 0 of
        Inl e \<Rightarrow> (Inl e, w)
      | Inr (fromCPart, fromIV) \<Rightarrow>
          (case encodePath (naming dn) toP 0 of
             Inl e \<Rightarrow> (Inl e, w)
           | Inr (toCPart, toIV) \<Rightarrow>
               let sourcePath = dn_rootDir dn @ fromCPart in
               if fromIV = toIV then (Inr (True, renameList), w)
               else case fsy_readdir (fe_fsys env) sourcePath w of
                 (Inl _, w) \<Rightarrow> (Inr (False, renameList), w)
               | (Inr des, w) \<Rightarrow>
                   genRename_entries (fe_sys env) (naming dn) (genRenameList env dn fuel) fromIV toIV sourcePath fromP toP
                     des renameList w))"

text \<open>\<open>None\<close> is the null pointer of a list that could not be made.\<close>

definition newRenameOp ::
  "('w, 'k, 'r) fs_env \<Rightarrow> dirnode \<Rightarrow> nat \<Rightarrow> bytes \<Rightarrow> bytes \<Rightarrow> (('w, 'r) dirstate, renameel list option) io" where
  "newRenameOp env dn fuel fromP toP s =
     (case genRenameList env dn fuel fromP toP [] (ds_world s) of
        (Inl e, w) \<Rightarrow> (Inl e, s\<lparr>ds_world := w\<rparr>)
      | (Inr (ok, renameList), w) \<Rightarrow> (Inr (if ok then Some renameList else None), s\<lparr>ds_world := w\<rparr>))"

text \<open>Rename on disk, keeping the times of the file.\<close>

definition keep_times ::
  "'w filesys \<Rightarrow> bytes \<Rightarrow> bytes \<Rightarrow> (('w, 'r) dirstate, 'a) io \<Rightarrow> ('a \<Rightarrow> bool) \<Rightarrow> (('w, 'r) dirstate, 'a) io" where
  "keep_times fsy oldName newName act done =
     io_bind (on_system (fsy_stat fsy oldName)) (\<lambda>st.
     io_bind act (\<lambda>r.
     if done r then
       (case st of Inl _ \<Rightarrow> io_return r | Inr ut \<Rightarrow> io_bind (on_system (fsy_utime fsy newName ut)) (\<lambda>_. io_return r))
     else io_return r))"

text \<open>One round of \<open>RenameOp::apply\<close>: whether the entry was renamed.\<close>

definition rename_entry :: "('w, 'k, 'r) fs_env \<Rightarrow> dirnode \<Rightarrow> renameel \<Rightarrow> (('w, 'r) dirstate, bool) io" where
  "rename_entry env dn el =
     keep_times (fe_fsys env) (oldCName el) (newCName el)
       (io_bind (dir_renameNode env dn (oldPName el) (newPName el) True) (\<lambda>_.
        io_bind (on_system (fsy_rename (fe_fsys env) (oldCName el) (newCName el))) (\<lambda>res.
        if res < 0 then io_bind (dir_renameNode env dn (newPName el) (oldPName el) False) (\<lambda>_. io_return False)
        else io_return True))) id"

text \<open>
  \<open>apply\<close>, from the entry \<open>last\<close> points to: whether all were renamed, and where \<open>last\<close> is then. An exception
  is caught.
\<close>

fun rename_apply :: "('w, 'k, 'r) fs_env \<Rightarrow> dirnode \<Rightarrow> renameel list \<Rightarrow> nat \<Rightarrow> (('w, 'r) dirstate, bool \<times> nat) io" where
  "rename_apply env dn [] pos s = (Inr (True, pos), s)"
| "rename_apply env dn (el # els) pos s =
     (case rename_entry env dn el s of
        (Inl (Error _), s) \<Rightarrow> (Inr (False, pos), s)
      | (Inl e, s) \<Rightarrow> (Inl e, s)
      | (Inr ok, s) \<Rightarrow> if \<not> ok then (Inr (False, pos), s) else rename_apply env dn els (Suc pos) s)"

text \<open>\<open>undo\<close> goes backwards through the entries before \<open>last\<close>; errors are ignored.\<close>

definition undo_entry :: "('w, 'k, 'r) fs_env \<Rightarrow> dirnode \<Rightarrow> renameel \<Rightarrow> (('w, 'r) dirstate, unit) io" where
  "undo_entry env dn el =
     io_bind (on_system (fsy_rename (fe_fsys env) (newCName el) (oldCName el))) (\<lambda>_.
     io_catch (io_bind (dir_renameNode env dn (newPName el) (oldPName el) False) (\<lambda>_. io_return ()))
       (\<lambda>_. io_return ()))"

fun rename_undo :: "('w, 'k, 'r) fs_env \<Rightarrow> dirnode \<Rightarrow> renameel list \<Rightarrow> (('w, 'r) dirstate, unit) io" where
  "rename_undo env dn [] = io_return ()"
| "rename_undo env dn (el # els) = io_bind (undo_entry env dn el) (\<lambda>_. rename_undo env dn els)"

definition undo :: "('w, 'k, 'r) fs_env \<Rightarrow> dirnode \<Rightarrow> renameel list \<Rightarrow> nat \<Rightarrow> (('w, 'r) dirstate, unit) io" where
  "undo env dn renameList pos = rename_undo env dn (rev (take pos renameList))"

text \<open>The recursive part of \<open>rename\<close>: the list and where \<open>last\<close> is, or \<open>None\<close> when it was taken back.\<close>

definition rename_below ::
  "('w, 'k, 'r) fs_env \<Rightarrow> dirnode \<Rightarrow> nat \<Rightarrow> bytes \<Rightarrow> bytes \<Rightarrow> (('w, 'r) dirstate, (renameel list \<times> nat) option) io" where
  "rename_below env dn fuel fromPlaintext toPlaintext =
     io_bind (newRenameOp env dn fuel fromPlaintext toPlaintext) (\<lambda>renameOp.
     case renameOp of None \<Rightarrow> io_return None
     | Some renameList \<Rightarrow>
         io_bind (rename_apply env dn renameList 0) (\<lambda>(ok, pos).
         if \<not> ok then io_bind (undo env dn renameList pos) (\<lambda>_. io_return None)
         else io_return (Some (renameList, pos))))"

definition rename_top ::
  "('w, 'k, 'r) fs_env \<Rightarrow> dirnode \<Rightarrow> bytes \<Rightarrow> bytes \<Rightarrow> bytes \<Rightarrow> bytes \<Rightarrow> (renameel list \<times> nat) option \<Rightarrow> (('w, 'r) dirstate, int) io" where
  "rename_top env dn fromPlaintext toPlaintext fromCName toCName renameOp =
     io_catch
       (keep_times (fe_fsys env) fromCName toCName
          (io_bind (dir_renameNode env dn fromPlaintext toPlaintext True) (\<lambda>_.
           io_bind (on_system (fsy_rename (fe_fsys env) fromCName toCName)) (\<lambda>res.
           if res < 0 then
             io_bind (dir_renameNode env dn toPlaintext fromPlaintext False) (\<lambda>_.
             io_bind (case renameOp of None \<Rightarrow> io_return () | Some (l, pos) \<Rightarrow> undo env dn l pos) (\<lambda>_.
             io_return res))
           else io_return 0))) (\<lambda>res. res = 0))
       (\<lambda>_. io_return (- EIO))"

definition dir_rename ::
  "('w, 'k, 'r) fs_env \<Rightarrow> dirnode \<Rightarrow> nat \<Rightarrow> bytes \<Rightarrow> bytes \<Rightarrow> (('w, 'r) dirstate, int) io" where
  "dir_rename env dn fuel fromPlaintext toPlaintext =
     io_bind (io_of (cipherPath dn fromPlaintext)) (\<lambda>fromCName.
     io_bind (io_of (cipherPath dn toPlaintext)) (\<lambda>toCName.
     io_bind (rAssert (fromCName \<noteq> []) ''!fromCName.empty()'') (\<lambda>_.
     io_bind (rAssert (toCName \<noteq> []) ''!toCName.empty()'') (\<lambda>_.
     io_bind (findOrCreate env dn toPlaintext) (\<lambda>_.
     io_bind (if hasDirectoryNameDependency dn then on_system (isDirectory (fe_sys env) fromCName) else io_return False) (\<lambda>recurse.
     if recurse then
       io_bind (rename_below env dn fuel fromPlaintext toPlaintext) (\<lambda>renameOp.
       case renameOp of None \<Rightarrow> io_return (- EACCES)
       | Some op \<Rightarrow> rename_top env dn fromPlaintext toPlaintext fromCName toCName (Some op))
     else rename_top env dn fromPlaintext toPlaintext fromCName toCName None))))))"

section \<open>Directories and links\<close>

definition dir_mkdir :: "('w, 'k, 'r) fs_env \<Rightarrow> dirnode \<Rightarrow> bytes \<Rightarrow> u32 \<Rightarrow> int \<Rightarrow> int \<Rightarrow> (('w, 'r) dirstate, int) io" where
  "dir_mkdir env dn plaintextPath mode uid gid =
     io_bind (io_of (cipherPath dn plaintextPath)) (\<lambda>cyName.
     io_bind (rAssert (cyName \<noteq> []) ''!cyName.empty()'') (\<lambda>_.
     on_system (as_owner (fe_fsys env) uid gid (fsy_mkdir (fe_fsys env) cyName mode))))"

definition dir_link :: "('w, 'k, 'r) fs_env \<Rightarrow> dirnode \<Rightarrow> bytes \<Rightarrow> bytes \<Rightarrow> (('w, 'r) dirstate, int) io" where
  "dir_link env dn to from =
     io_bind (io_of (cipherPath dn to)) (\<lambda>toCName.
     io_bind (io_of (cipherPath dn from)) (\<lambda>fromCName.
     io_bind (rAssert (toCName \<noteq> []) ''!toCName.empty()'') (\<lambda>_.
     io_bind (rAssert (fromCName \<noteq> []) ''!fromCName.empty()'') (\<lambda>_.
     if externalIVChaining (fs_config (dn_cfg dn)) then io_return (- EPERM)
     else io_bind (on_system (fsy_link (fe_fsys env) toCName fromCName)) (\<lambda>res.
       io_return (if res < 0 then res else 0))))))"

definition dir_unlink :: "('w, 'k, 'r) fs_env \<Rightarrow> dirnode \<Rightarrow> bytes \<Rightarrow> (('w, 'r) dirstate, int) io" where
  "dir_unlink env dn plaintextName =
     io_bind (io_of (cipherPathWithoutRoot dn plaintextName)) (\<lambda>cyName.
     io_bind (io_get (\<lambda>s. ctx_lookupNode plaintextName (ds_ctx s))) (\<lambda>node.
     if dn_hasCtx dn \<and> node \<noteq> None then io_return (- EBUSY)
     else on_system (fsy_unlink (fe_fsys env) (dn_rootDir dn @ cyName))))"

section \<open>Names of open nodes\<close>

text \<open>
  All openers of a path share one node, which carries the plain name and the encoded name of that path.
\<close>

definition node_names :: "dirnode \<Rightarrow> bytes \<Rightarrow> ('w, 'r) filenode \<Rightarrow> bool" where
  "node_names dn path n = (fnode_pname n = path \<and>
     (\<exists>c iv. encodePath (naming dn) path 0 = Inr (c, iv) \<and> fnode_cname n = dn_rootDir dn @ c))"

definition names_ok :: "dirnode \<Rightarrow> ('w, 'r) dirstate \<Rightarrow> bool" where
  "names_ok dn s = (\<forall>path l. opened (ds_ctx s) path = Some l \<longrightarrow>
     (\<exists>k p. l = replicate (Suc k) p \<and> p < ctx_alloc (ds_ctx s) \<and> node_names dn path (ds_nodes s p)))"

lemma names_okE:
  assumes "names_ok dn s" "opened (ds_ctx s) path = Some l"
  obtains k p where "l = replicate (Suc k) p" "hd l = p" "p < ctx_alloc (ds_ctx s)" "node_names dn path (ds_nodes s p)"
  using assms unfolding names_ok_def by force

text \<open>A volume whose names do not seed the vectors of the files, with a context.\<close>

locale plain_names =
  fixes env :: "('w, 'k, 'r) fs_env" and dn :: dirnode
  assumes no_external: "\<not> externalIVChaining (fs_config (dn_cfg dn))" and ctx: "dn_hasCtx dn"
begin

lemma names_ok_frame:
  assumes "names_ok dn s" "openFiles (ds_ctx s') = openFiles (ds_ctx s)" "ctx_alloc (ds_ctx s) \<le> ctx_alloc (ds_ctx s')"
    and "\<And>p. p < ctx_alloc (ds_ctx s) \<Longrightarrow> ds_nodes s' p = ds_nodes s p"
  shows "names_ok dn s'"
proof (unfold names_ok_def, intro allI impI)
  fix path l assume "opened (ds_ctx s') path = Some l"
  then have "opened (ds_ctx s) path = Some l" using assms(2) by simp
  from names_okE [OF assms(1) this] obtain k p where "l = replicate (Suc k) p" "p < ctx_alloc (ds_ctx s)"
    "node_names dn path (ds_nodes s p)" by metis
  then show "\<exists>k p. l = replicate (Suc k) p \<and> p < ctx_alloc (ds_ctx s') \<and> node_names dn path (ds_nodes s' p)"
    using assms(3,4) by (intro exI [of _ k] exI [of _ p]) auto
qed

lemma findOrCreate_open:
  assumes "opened (ds_ctx s) path = Some l"
  shows "findOrCreate env dn path s = (Inr (Some (hd l)), s)"
  using assms ctx by (simp add: findOrCreate_def ctx_lookupNode_def)

lemma findOrCreate_closed:
  assumes "names_ok dn s" "opened (ds_ctx s) path = None" "findOrCreate env dn path s = (r, s')"
  shows "names_ok dn s' \<and> openFiles (ds_ctx s') = openFiles (ds_ctx s) \<and> ds_world s' = ds_world s \<and>
    (r = Inr (Some (ctx_alloc (ds_ctx s))) \<and> ctx_alloc (ds_ctx s) < ctx_alloc (ds_ctx s') \<or> (\<exists>e. r = Inl e))"
proof -
  obtain p c where new: "newNode (ds_ctx s) = (p, c)" by fastforce
  note f = newNode_facts [OF new]
  have "(\<exists>e. r = Inl e) \<and> s' = s \<or> (\<exists>e. r = Inl e) \<and> s' = s\<lparr>ds_ctx := c\<rparr> \<or>
      r = Inr (Some p) \<and> (\<exists>n. s' = s\<lparr>ds_ctx := c, ds_nodes := (ds_nodes s)(p := n)\<rparr>)"
    using assms(2,3) ctx no_external new
    by (auto simp: findOrCreate_def ctx_lookupNode_def Let_def split: sum.splits prod.splits)
  then show ?thesis
    by (elim disjE exE conjE) (use f assms(1) in \<open>auto intro!: names_ok_frame [OF assms(1)]\<close>)
qed

lemma setName_plain:
  "setName env (dn_cfg dn) pn cn iv first n = (Inr True, assign_names env pn cn n)"
  using no_external by (simp add: setName_def io_bind_split io_simps)

end


definition moved :: "bytes \<Rightarrow> bytes \<Rightarrow> (bytes \<Rightarrow> 'a option) \<Rightarrow> bytes \<Rightarrow> 'a option" where
  "moved from to tab = (case tab from of None \<Rightarrow> tab | Some l \<Rightarrow> (tab(from := None))(to := Some l))"

lemma moved_back: "tab to = None \<Longrightarrow> moved to from (moved from to tab) = tab"
  by (auto simp: moved_def fun_eq_iff split: option.splits)

lemma moved_to_free: "tab to = None \<Longrightarrow> from \<noteq> to \<Longrightarrow> moved from to tab from = None"
  by (simp add: moved_def split: option.splits)

lemma opened_rename: "opened (ctx_renameNode from to c) = moved from to (opened c)"
  by (auto simp: ctx_renameNode_def moved_def fun_eq_iff lookup_update' lookup_delete split: option.splits)

lemma ctx_alloc_rename [simp]: "ctx_alloc (ctx_renameNode from to c) = ctx_alloc c"
  by (simp add: ctx_renameNode_def split: option.split)

lemma setFileName_world: "io_world (fio_setFileName (node_fileio env) c (set_io_world w io)) = w"
  by (cases io) (simp_all add: node_fileio_def either_fileio_def cipher_fileio_def mac_fileio_def node_cenv_def node_menv_def
      raw_fileio_def)

context plain_names
begin

lemma on_node_setName:
  "\<exists>n. on_node p (setName env (dn_cfg dn) (Some path) (Some c) iv first) s =
     (Inr True, s\<lparr>ds_nodes := (ds_nodes s)(p := n)\<rparr>) \<and> fnode_pname n = path \<and> fnode_cname n = c"
  by (intro exI [of _ "assign_names env (Some path) (Some c)
        ((ds_nodes s p)\<lparr>fnode_io := set_io_world (ds_world s) (fnode_io (ds_nodes s p))\<rparr>)"])
    (simp add: on_node_def setName_plain Let_def assign_names_def setFileName_world)

lemma renameNode_step:
  assumes ok: "names_ok dn s" and to: "opened (ds_ctx s) to = None" and run: "dir_renameNode env dn from to fwd s = (r, s')"
  shows "names_ok dn s' \<and> ds_world s' = ds_world s \<and>
    ((\<exists>p. r = Inr (Some p)) \<and> opened (ds_ctx s') = moved from to (opened (ds_ctx s)) \<or>
     (\<exists>e. r = Inl e) \<and> opened (ds_ctx s') = opened (ds_ctx s)) \<and>
    (opened (ds_ctx s) from \<noteq> None \<longrightarrow> (\<exists>c iv. encodePath (naming dn) to 0 = Inr (c, iv)) \<longrightarrow> (\<exists>p. r = Inr (Some p)))"
proof -
  obtain r1 s1 where fc: "findOrCreate env dn from s = (r1, s1)" by fastforce
  have s1: "names_ok dn s1" "openFiles (ds_ctx s1) = openFiles (ds_ctx s)" "ds_world s1 = ds_world s"
    "(\<exists>p. r1 = Inr (Some p) \<and> p < ctx_alloc (ds_ctx s1) \<and> (\<forall>l. opened (ds_ctx s) from = Some l \<longrightarrow> p = hd l) \<and>
        (opened (ds_ctx s) from = None \<longrightarrow> p \<ge> ctx_alloc (ds_ctx s))) \<or> (\<exists>e. r1 = Inl e) \<and> opened (ds_ctx s) from = None"
    using findOrCreate_closed [OF ok _ fc] findOrCreate_open [of s "from"] fc ok
    by (cases "opened (ds_ctx s) from"; auto elim: names_okE [OF ok])+
  show ?thesis
  proof (cases r1)
    case (Inl e)
    then show ?thesis using run fc s1 by (auto simp: dir_renameNode_def io_bind_split)
  next
    case (Inr x)
    then obtain p where p: "r1 = Inr (Some p)" "p < ctx_alloc (ds_ctx s1)" "\<And>l. opened (ds_ctx s) from = Some l \<Longrightarrow> p = hd l"
      "opened (ds_ctx s) from = None \<Longrightarrow> p \<ge> ctx_alloc (ds_ctx s)" using s1(4) by auto
    show ?thesis
    proof (cases "encodePath (naming dn) to 0")
      case (Inl e)
      then show ?thesis using run fc p(1) s1 by (auto simp: dir_renameNode_def io_bind_split io_simps)
    next
      case (Inr ci)
      obtain c iv where ci: "encodePath (naming dn) to 0 = Inr (c, iv)" using Inr by (cases ci) auto
      obtain n where n: "on_node p (setName env (dn_cfg dn) (Some to) (Some (dn_rootDir dn @ c)) iv fwd) s1 =
          (Inr True, s1\<lparr>ds_nodes := (ds_nodes s1)(p := n)\<rparr>)" "fnode_pname n = to" "fnode_cname n = dn_rootDir dn @ c"
        using on_node_setName by blast
      have res: "r = Inr (Some p)"
        "s' = s1\<lparr>ds_nodes := (ds_nodes s1)(p := n), ds_ctx := ctx_renameNode from to (ds_ctx s1)\<rparr>"
        using run fc p(1) ci n(1) by (auto simp: dir_renameNode_def io_bind_split io_simps)
      have tab: "opened (ds_ctx s') = moved from to (opened (ds_ctx s))" using s1(2) by (simp add: res(2) opened_rename)
      have nn: "node_names dn to n" using n(2,3) ci by (auto simp: node_names_def)
      have "names_ok dn s'"
      proof (unfold names_ok_def, intro allI impI)
        fix path l assume l: "opened (ds_ctx s') path = Some l"
        show "\<exists>k q. l = replicate (Suc k) q \<and> q < ctx_alloc (ds_ctx s') \<and> node_names dn path (ds_nodes s' q)"
        proof (cases "opened (ds_ctx s) from \<noteq> None \<and> path = to")
          case True
          then obtain l0 where l0: "opened (ds_ctx s) from = Some l0" "l = l0" using l by (auto simp: tab moved_def)
          from names_okE [OF ok l0(1)] obtain k where "l = replicate (Suc k) p" using p(3) [OF l0(1)] l0(2) by metis
          then show ?thesis using True p(2) nn by (intro exI [of _ k] exI [of _ p]) (simp add: res(2))
        next
          case False
          then have old: "opened (ds_ctx s) path = Some l" "opened (ds_ctx s) from \<noteq> None \<Longrightarrow> path \<noteq> from"
            using l by (auto simp: tab moved_def split: option.splits if_splits)
          have "opened (ds_ctx s1) path = Some l" using old(1) s1(2) by simp
          from names_okE [OF s1(1) this] obtain k q where q: "l = replicate (Suc k) q" "q < ctx_alloc (ds_ctx s1)"
            "node_names dn path (ds_nodes s1 q)" by metis
          have "q \<noteq> p"
          proof (cases "opened (ds_ctx s) from")
            case None
            from names_okE [OF ok old(1)] q(1) have "q < ctx_alloc (ds_ctx s)" by (metis list.sel(1) replicate_Suc)
            then show ?thesis using p(4) [OF None] by simp
          next
            case (Some l0)
            then have "opened (ds_ctx s1) from = Some l0" using s1(2) by simp
            from names_okE [OF s1(1) this] have "fnode_pname (ds_nodes s1 p) = from"
              using p(3) [OF Some] by (metis node_names_def)
            then show ?thesis using q(3) old(2) Some by (auto simp: node_names_def)
          qed
          then show ?thesis using q by (intro exI [of _ k] exI [of _ q]) (simp add: res(2))
        qed
      qed
      then show ?thesis using res s1(3) tab by simp
    qed
  qed
qed

end


section \<open>Taking a recursive rename back\<close>

text \<open>
  What is relied on of the system: \<open>tree\<close> is what renaming acts on (names and contents, not times),
  \<open>renamed\<close> is what it does, or \<open>None\<close> when it fails and changes nothing. A rename to a
  name that is \<open>free\<close> can be taken back by the opposite one.
\<close>

locale rename_system = plain_names env dn
  for env :: "('w, 'k, 'r) fs_env" and dn :: dirnode +
  fixes tree :: "'w \<Rightarrow> 't" and renamed :: "bytes \<Rightarrow> bytes \<Rightarrow> 't \<Rightarrow> 't option" and free :: "bytes \<Rightarrow> 't \<Rightarrow> bool"
  assumes rename_law: "fsy_rename (fe_fsys env) a b w = (r, w') \<Longrightarrow>
      (case renamed a b (tree w) of Some t \<Rightarrow> r = 0 \<and> tree w' = t | None \<Rightarrow> r < 0 \<and> tree w' = tree w)"
    and rename_back: "free b t \<Longrightarrow> renamed a b t = Some t' \<Longrightarrow> renamed b a t' = Some t"
    and stat_law: "fsy_stat (fe_fsys env) a w = (q, w') \<Longrightarrow> tree w' = tree w"
    and utime_law: "fsy_utime (fe_fsys env) a ut w = (r, w') \<Longrightarrow> tree w' = tree w"
    and readdir_law: "fsy_readdir (fe_fsys env) a w = (des, w') \<Longrightarrow> tree w' = tree w"
    and lstat_law: "sys_lstat (fe_sys env) a w = (st, w') \<Longrightarrow> tree w' = tree w"
begin

text \<open>No entry is renamed onto a name that exists or a path that is open.\<close>

fun clear_run :: "renameel list \<Rightarrow> 't \<Rightarrow> (bytes \<Rightarrow> nat list option) \<Rightarrow> bool" where
  "clear_run [] t tab = True"
| "clear_run (el # els) t tab = (tab (newPName el) = None \<and>
     (case renamed (oldCName el) (newCName el) t of None \<Rightarrow> True
      | Some t' \<Rightarrow> free (newCName el) t \<and> clear_run els t' (moved (oldPName el) (newPName el) tab)))"

abbreviation "tr s \<equiv> tree (ds_world s)"
abbreviation "tab s \<equiv> opened (ds_ctx s)"

lemma on_system_stat: "\<exists>q w. on_system (fsy_stat (fe_fsys env) a) s = (Inr q, s\<lparr>ds_world := w\<rparr>) \<and> tree w = tr s"
  using stat_law [of a "ds_world s"] by (cases "fsy_stat (fe_fsys env) a (ds_world s)") (auto simp: on_system_def)

lemma on_system_utime: "\<exists>q w. on_system (fsy_utime (fe_fsys env) a ut) s = (Inr q, s\<lparr>ds_world := w\<rparr>) \<and> tree w = tr s"
  using utime_law [of a ut "ds_world s"] by (cases "fsy_utime (fe_fsys env) a ut (ds_world s)") (auto simp: on_system_def)

lemma on_system_rename:
  "\<exists>q w. on_system (fsy_rename (fe_fsys env) a b) s = (Inr q, s\<lparr>ds_world := w\<rparr>) \<and>
     (case renamed a b (tr s) of Some t \<Rightarrow> q = 0 \<and> tree w = t | None \<Rightarrow> q < 0 \<and> tree w = tr s)"
  using rename_law [of a b "ds_world s"] by (auto simp: on_system_def split: prod.split)

lemma names_ok_world [simp]: "names_ok dn (s\<lparr>ds_world := w\<rparr>) = names_ok dn s"
  by (simp add: names_ok_def)

text \<open>Renaming the internal node back.\<close>

lemma undo_names:
  assumes ok: "names_ok dn s" and new: "tab s new = None"
    and u: "names_ok dn u" "tab u = moved old new (tab s)" and run: "dir_renameNode env dn new old fwd u = (r, u')"
  shows "names_ok dn u' \<and> ds_world u' = ds_world u \<and> tab u' = tab s"
proof -
  have "tab u old = None" using u(2) new moved_to_free [of "tab s" new old] by (cases "old = new") (auto simp: moved_def)
  note st = renameNode_step [OF u(1) this run]
  show ?thesis
  proof (cases "\<exists>p. r = Inr (Some p)")
    case True
    then have "tab u' = moved new old (tab u)" using st by auto
    then show ?thesis using st u(2) moved_back [of "tab s" new old] new by simp
  next
    case False
    then have "tab u' = tab u" using st by auto
    moreover have "tab s old = None"
    proof (rule ccontr)
      assume "tab s old \<noteq> None"
      then obtain l where l: "tab s old = Some l" by blast
      then have "tab u new \<noteq> None" using u(2) by (simp add: moved_def)
      moreover have "\<exists>c iv. encodePath (naming dn) old 0 = Inr (c, iv)" using names_okE [OF ok l] by (metis node_names_def)
      ultimately show False using st False by blast
    qed
    ultimately show ?thesis using st u(2) by (simp add: moved_def)
  qed
qed

lemma entry_step:
  assumes ok: "names_ok dn s" and new: "tab s (newPName el) = None" and run: "rename_entry env dn el s = (r, s')"
  shows "names_ok dn s' \<and>
    (r = Inr True \<and> renamed (oldCName el) (newCName el) (tr s) = Some (tr s') \<and> tab s' = moved (oldPName el) (newPName el) (tab s) \<or>
     r \<noteq> Inr True \<and> tr s' = tr s \<and> tab s' = tab s)"
proof -
  obtain q w where st: "on_system (fsy_stat (fe_fsys env) (oldCName el)) s = (Inr q, s\<lparr>ds_world := w\<rparr>)" "tree w = tr s"
    using on_system_stat by blast
  let ?s0 = "s\<lparr>ds_world := w\<rparr>"
  obtain r1 s1 where r1: "dir_renameNode env dn (oldPName el) (newPName el) True ?s0 = (r1, s1)" by fastforce
  have l1: "names_ok dn s1" "ds_world s1 = w"
    "(\<exists>p. r1 = Inr (Some p)) \<and> tab s1 = moved (oldPName el) (newPName el) (tab s) \<or> (\<exists>e. r1 = Inl e) \<and> tab s1 = tab s"
    using renameNode_step [OF _ _ r1] ok new by auto
  show ?thesis
  proof (cases r1)
    case (Inl e)
    then show ?thesis using run st r1 l1 by (auto simp: rename_entry_def keep_times_def io_bind_split)
  next
    case (Inr x)
    then obtain p where p: "r1 = Inr (Some p)" "tab s1 = moved (oldPName el) (newPName el) (tab s)" using l1(3) by auto
    obtain z w2 where rn: "on_system (fsy_rename (fe_fsys env) (oldCName el) (newCName el)) s1 = (Inr z, s1\<lparr>ds_world := w2\<rparr>)"
      "case renamed (oldCName el) (newCName el) (tr s) of Some t \<Rightarrow> z = 0 \<and> tree w2 = t | None \<Rightarrow> z < 0 \<and> tree w2 = tr s"
      using on_system_rename [of "oldCName el" "newCName el" s1] unfolding l1(2) st(2) by blast
    show ?thesis
    proof (cases "renamed (oldCName el) (newCName el) (tr s)")
      case (Some t)
      have "\<exists>w3. s' = s1\<lparr>ds_world := w3\<rparr> \<and> tree w3 = t \<and> r = Inr True"
      proof (cases q)
        case q: (Inr ut)
        obtain y w3 where "on_system (fsy_utime (fe_fsys env) (newCName el) ut) (s1\<lparr>ds_world := w2\<rparr>) = (Inr y, s1\<lparr>ds_world := w3\<rparr>)"
          "tree w3 = tree w2" using on_system_utime [of "newCName el" ut "s1\<lparr>ds_world := w2\<rparr>"] by auto
        then show ?thesis using run st r1 p rn Some q
          by (auto simp: rename_entry_def keep_times_def io_bind_split io_simps)
      qed (use run st r1 p rn Some in \<open>auto simp: rename_entry_def keep_times_def io_bind_split io_simps\<close>)
      then show ?thesis using l1(1) p(2) Some by auto
    next
      case None
      obtain r2 s2 where r2: "dir_renameNode env dn (newPName el) (oldPName el) False (s1\<lparr>ds_world := w2\<rparr>) = (r2, s2)" by fastforce
      have "names_ok dn s2 \<and> ds_world s2 = w2 \<and> tab s2 = tab s"
        using undo_names [OF ok new, of "s1\<lparr>ds_world := w2\<rparr>" "oldPName el" False r2 s2] r2 l1(1) p(2) by simp
      moreover have "s' = s2 \<and> r \<noteq> Inr True"
        using run st r1 p rn None r2 by (cases r2) (auto simp: rename_entry_def keep_times_def io_bind_split io_simps)
      ultimately show ?thesis using rn(2) None by simp
    qed
  qed
qed

lemma undo_step:
  assumes ok: "names_ok dn s" and new: "tab s (newPName el) = None" and t: "renamed (oldCName el) (newCName el) (tr s) = Some t"
    "free (newCName el) (tr s)" and u: "names_ok dn u" "tr u = t" "tab u = moved (oldPName el) (newPName el) (tab s)"
    and run: "undo_entry env dn el u = (r, u')"
  shows "names_ok dn u' \<and> tr u' = tr s \<and> tab u' = tab s"
proof -
  obtain z w where rn: "on_system (fsy_rename (fe_fsys env) (newCName el) (oldCName el)) u = (Inr z, u\<lparr>ds_world := w\<rparr>)"
    "tree w = tr s"
    using on_system_rename [of "newCName el" "oldCName el" u] u(2) rename_back [OF t(2,1)] by auto
  obtain r2 u2 where r2: "dir_renameNode env dn (newPName el) (oldPName el) False (u\<lparr>ds_world := w\<rparr>) = (r2, u2)" by fastforce
  have "names_ok dn u2 \<and> ds_world u2 = w \<and> tab u2 = tab s"
    using undo_names [OF ok new, of "u\<lparr>ds_world := w\<rparr>" "oldPName el" False r2 u2] u r2 by simp
  moreover have "u' = u2"
    using run rn r2 by (auto simp: undo_entry_def io_bind_split io_simps io_catch_def split: sum.splits exn.splits)
  ultimately show ?thesis using rn(2) by simp
qed

lemma rename_undo_append:
  "rename_undo env dn (xs @ ys) = io_bind (rename_undo env dn xs) (\<lambda>_. rename_undo env dn ys)"
  by (induction xs) (simp_all add: io_bind_assoc)

text \<open>What was renamed before a failure, or before the end, is taken back by \<open>undo\<close>.\<close>

definition undoes :: "renameel list \<Rightarrow> ('w, 'r) dirstate \<Rightarrow> ('w, 'r) dirstate \<Rightarrow> bool" where
  "undoes els s1 s = (\<forall>u r u'. names_ok dn u \<and> tr u = tr s1 \<and> tab u = tab s1 \<and> rename_undo env dn (rev els) u = (Inr r, u') \<longrightarrow>
     names_ok dn u' \<and> tr u' = tr s \<and> tab u' = tab s)"

lemma apply_undoes:
  assumes "names_ok dn s" "clear_run els (tr s) (tab s)" "rename_apply env dn els pos s = (Inr (ok, pos'), s1)"
  shows "names_ok dn s1 \<and> (\<exists>n\<le>length els. pos' = pos + n \<and> undoes (take n els) s1 s \<and> (ok \<longrightarrow> n = length els)) \<and>
    (\<forall>path. tab s path = None \<and> path \<notin> newPName ` set els \<longrightarrow> tab s1 path = None)"
  using assms
proof (induction els arbitrary: s pos)
  case Nil
  then show ?case by (auto simp: undoes_def io_simps)
next
  case (Cons el els)
  obtain r s2 where one: "rename_entry env dn el s = (r, s2)" by fastforce
  have new: "tab s (newPName el) = None" using Cons.prems(2) by simp
  note st = entry_step [OF Cons.prems(1) new one]
  show ?case
  proof (cases "r = Inr True")
    case False
    then have "pos' = pos" "ok = False" "s1 = s2" using Cons.prems(3) one by (auto split: sum.splits exn.splits if_splits)
    then show ?thesis using st False by (auto simp: undoes_def io_simps intro!: exI [of _ 0])
  next
    case True
    then have t: "renamed (oldCName el) (newCName el) (tr s) = Some (tr s2)" "tab s2 = moved (oldPName el) (newPName el) (tab s)"
      "names_ok dn s2" using st by auto
    have c: "free (newCName el) (tr s)" "clear_run els (tr s2) (tab s2)" using Cons.prems(2) t by simp_all
    have "rename_apply env dn els (Suc pos) s2 = (Inr (ok, pos'), s1)" using Cons.prems(3) one True by simp
    from Cons.IH [OF t(3) c(2) this] obtain n where n: "names_ok dn s1" "n \<le> length els" "pos' = Suc pos + n"
      "undoes (take n els) s1 s2" "ok \<longrightarrow> n = length els" "\<And>path. tab s2 path = None \<Longrightarrow> path \<notin> newPName ` set els \<Longrightarrow> tab s1 path = None"
      by blast
    have "undoes (take (Suc n) (el # els)) s1 s"
      unfolding undoes_def
    proof (intro allI impI, elim conjE)
      fix u x u' assume u: "names_ok dn u" "tr u = tr s1" "tab u = tab s1"
        and run: "rename_undo env dn (rev (take (Suc n) (el # els))) u = (Inr x, u')"
      from run obtain y u1 where u1: "rename_undo env dn (rev (take n els)) u = (Inr y, u1)" "undo_entry env dn el u1 = (Inr x, u')"
        by (auto simp: rename_undo_append io_bind_split io_simps split: prod.splits sum.splits)
      then have "names_ok dn u1" "tr u1 = tr s2" "tab u1 = tab s2" using n(4) u unfolding undoes_def by blast+
      from undo_step [OF Cons.prems(1) new t(1) c(1) this(1,2) _ u1(2)] this(3) t(2)
      show "names_ok dn u' \<and> tr u' = tr s \<and> tab u' = tab s" by simp
    qed
    moreover have "tab s2 path = None" if "tab s path = None" "path \<noteq> newPName el" for path
      using that by (simp add: t(2) moved_def split: option.split)
    ultimately show ?thesis using n by (intro conjI exI [of _ "Suc n"]) auto
  qed
qed

lemma isDirectory_tree: "isDirectory (fe_sys env) a w = (b, w') \<Longrightarrow> tree w' = tree w"
  using lstat_law [of a w] by (auto simp: isDirectory_def split: prod.splits sum.splits)

text \<open>Making the list changes nothing, and every new name is below the target.\<close>

lemma entries_list:
  assumes "genRename_entries (fe_sys env) nio desc fromIV toIV src fromP toP des l w = (r, w')"
    and "\<And>old new l w r w'. desc old new l w = (r, w') \<Longrightarrow> tree w' = tree w \<and>
      (\<forall>l'. r = Inr (True, l') \<longrightarrow> (\<exists>m. l' = l @ m \<and> (\<forall>el\<in>set m. length new < length (newPName el))))"
  shows "tree w' = tree w \<and>
    (\<forall>l'. r = Inr (True, l') \<longrightarrow> (\<exists>m. l' = l @ m \<and> (\<forall>el\<in>set m. length toP < length (newPName el))))"
  using assms(1)
proof (induction des arbitrary: l w)
  case (Cons de des)
  note run = Cons.prems [unfolded genRename_entries.simps]
  show ?case
  proof (cases "\<exists>n x c y. \<not> is_dots (d_name de) \<and> decodePath nio (d_name de) fromIV = Inr (n, x) \<and> encodePath nio n toIV = Inr (c, y)")
    case False
    then show ?thesis using run Cons.IH
      by (cases "is_dots (d_name de)"; cases "decodePath nio (d_name de) fromIV") (auto split: exn.splits sum.splits)
  next
    case True
    then obtain n x c y where n: "\<not> is_dots (d_name de)" "decodePath nio (d_name de) fromIV = Inr (n, x)" "encodePath nio n toIV = Inr (c, y)"
      by blast
    obtain isDir w1 where w1: "(if d_type de \<noteq> DT_UNKNOWN then (d_type de = DT_DIR, w) else isDirectory (fe_sys env) (src @ slash # d_name de) w) = (isDir, w1)"
      by fastforce
    have t1: "tree w1 = tree w" using w1 isDirectory_tree by (auto split: if_splits)
    let ?new = "toP @ slash # n"
    obtain q w2 where w2: "(if isDir then desc (fromP @ slash # n) ?new l w1 else (Inr (True, l), w1)) = (q, w2)" by fastforce
    have t2: "tree w2 = tree w1" "\<And>l'. q = Inr (True, l') \<Longrightarrow> \<exists>m. l' = l @ m \<and> (\<forall>el\<in>set m. length toP < length (newPName el))"
      using w2 assms(2) [of "fromP @ slash # n" ?new l w1 q w2] by (fastforce split: if_splits)+
    show ?thesis
    proof (cases "\<exists>l'. q = Inr (True, l')")
      case False
      then show ?thesis using run n w1 w2 t1 t2 by (auto simp: Let_def split: sum.splits exn.splits)
    next
      case True
      then obtain m where m: "q = Inr (True, l @ m)" "\<forall>el\<in>set m. length toP < length (newPName el)" using t2(2) by blast
      have "genRename_entries (fe_sys env) nio desc fromIV toIV src fromP toP des ((l @ m) @ [\<lparr>oldCName = src @ slash # d_name de,
          newCName = src @ slash # c, oldPName = fromP @ slash # n, newPName = ?new, re_isDirectory = isDir\<rparr>]) w2 = (r, w')"
        using run n w1 w2 m(1) by (simp add: Let_def)
      from Cons.IH [OF this] t1 t2(1) m(2) show ?thesis by fastforce
    qed
  qed
qed auto

lemma list_tree:
  assumes "genRenameList env dn fuel fromP toP l w = (r, w')"
  shows "tree w' = tree w \<and>
    (\<forall>l'. r = Inr (True, l') \<longrightarrow> (\<exists>m. l' = l @ m \<and> (\<forall>el\<in>set m. length toP < length (newPName el))))"
  using assms
proof (induction fuel arbitrary: fromP toP l w r w')
  case (Suc fuel)
  from Suc.prems show ?case
    using readdir_law entries_list [OF _ Suc.IH]
    by (auto simp: Let_def split: sum.splits prod.splits if_splits)
qed simp

text \<open>The nodes of this volume can be made, and both paths can be encoded.\<close>

lemma renameNode_succeeds:
  assumes ok: "names_ok dn s" and to: "tab s to = None" and run: "dir_renameNode env dn from to fwd s = (r, s')"
    and made: "\<And>pn cn fh w. \<exists>n. FileNode_new env (dn_cfg dn) pn cn fh w = Inr n"
    and enc: "encodePath (naming dn) from 0 = Inr (c, iv)" "encodePath (naming dn) to 0 = Inr (c', iv')"
  shows "\<exists>p. r = Inr (Some p)"
proof (cases "tab s from")
  case (Some l)
  then show ?thesis using renameNode_step [OF ok to run] enc(2) by auto
next
  case None
  obtain p ctx' where new: "newNode (ds_ctx s) = (p, ctx')" by fastforce
  obtain n where n: "FileNode_new env (dn_cfg dn) from (dn_rootDir dn @ c) (fn_fuseFh ctx' p) (ds_world s) = Inr n" using made by blast
  have fc: "findOrCreate env dn from s = (Inr (Some p), s\<lparr>ds_ctx := ctx', ds_nodes := (ds_nodes s)(p := n)\<rparr>)"
    using None ctx no_external new n enc(1) by (simp add: findOrCreate_def ctx_lookupNode_def Let_def)
  show ?thesis
    using run fc enc(2) on_node_setName [of p to "dn_rootDir dn @ c'" iv' fwd "s\<lparr>ds_ctx := ctx', ds_nodes := (ds_nodes s)(p := n)\<rparr>"]
    by (auto simp: dir_renameNode_def io_bind_split io_simps)
qed

lemma rename_top_None: "rename_top env dn from to fromC toC None = rename_top env dn from to fromC toC (Some ([], 0))"
  by (simp add: rename_top_def undo_def cong: if_cong)

lemma undo_no_error: "rename_undo env dn els s = (r, s') \<Longrightarrow> r \<noteq> Inl (Error msg)"
proof (induction els arbitrary: s)
  case (Cons el els)
  then show ?case
    by (auto simp: undo_entry_def io_bind_split io_simps io_catch_def on_system_def split: sum.splits prod.splits exn.splits)
qed (auto simp: io_simps)

lemma rename_top_fails:
  assumes ok: "names_ok dn s0" "names_ok dn s" and takes_back: "undoes els s s0" and to: "tab s to = None"
    and made: "\<And>pn cn fh w. \<exists>n. FileNode_new env (dn_cfg dn) pn cn fh w = Inr n"
    and enc: "encodePath (naming dn) from 0 = Inr (c, iv)" "encodePath (naming dn) to 0 = Inr (c', iv')"
    and run: "rename_top env dn from to fromC toC (Some (els, length els)) s = (Inr res, s')" "res \<noteq> 0"
  shows "names_ok dn s' \<and> tr s' = tr s0 \<and> tab s' = tab s0"
proof -
  obtain q w where st: "on_system (fsy_stat (fe_fsys env) fromC) s = (Inr q, s\<lparr>ds_world := w\<rparr>)" "tree w = tr s"
    using on_system_stat by blast
  obtain r1 s1 where r1: "dir_renameNode env dn from to True (s\<lparr>ds_world := w\<rparr>) = (r1, s1)" by fastforce
  have "\<exists>p. r1 = Inr (Some p)" using renameNode_succeeds [OF _ _ r1 made enc] ok(2) to by simp
  moreover note renameNode_step [OF _ _ r1]
  ultimately obtain p where l1: "r1 = Inr (Some p)" "names_ok dn s1" "ds_world s1 = w" "tab s1 = moved from to (tab s)"
    using ok(2) to by auto
  obtain z w2 where rn: "on_system (fsy_rename (fe_fsys env) fromC toC) s1 = (Inr z, s1\<lparr>ds_world := w2\<rparr>)"
    "case renamed fromC toC (tr s) of Some t \<Rightarrow> z = 0 \<and> tree w2 = t | None \<Rightarrow> z < 0 \<and> tree w2 = tr s"
    using on_system_rename [of fromC toC s1] unfolding l1(3) st(2) by blast
  have neg: "z < 0" "tree w2 = tr s"
  proof -
    have "z \<noteq> 0"
    proof
      assume "z = 0"
      have "\<exists>u. rename_top env dn from to fromC toC (Some (els, length els)) s = (Inr 0, u)"
      proof (cases q)
        case (Inl e)
        then show ?thesis using st r1 l1(1) rn(1) \<open>z = 0\<close>
          by (simp add: rename_top_def keep_times_def io_bind_split io_simps io_catch_def)
      next
        case (Inr ut)
        obtain y w3 where "on_system (fsy_utime (fe_fsys env) toC ut) (s1\<lparr>ds_world := w2\<rparr>) = (Inr y, s1\<lparr>ds_world := w3\<rparr>)"
          using on_system_utime [of toC ut "s1\<lparr>ds_world := w2\<rparr>"] by auto
        then show ?thesis using st r1 l1(1) rn(1) \<open>z = 0\<close> Inr
          by (simp add: rename_top_def keep_times_def io_bind_split io_simps io_catch_def)
      qed
      then show False using run by auto
    qed
    then show "z < 0" "tree w2 = tr s" using rn(2) by (auto split: option.splits)
  qed
  obtain r2 s2 where r2: "dir_renameNode env dn to from False (s1\<lparr>ds_world := w2\<rparr>) = (r2, s2)" by fastforce
  have s2: "names_ok dn s2" "ds_world s2 = w2" "tab s2 = tab s"
    using undo_names [OF ok(2) to, of "s1\<lparr>ds_world := w2\<rparr>" "from" False r2 s2] r2 l1(2,4) by simp_all
  have "tab (s1\<lparr>ds_world := w2\<rparr>) from = None"
    using l1(4) to moved_to_free [of "tab s" to "from"] by (cases "from = to") (auto simp: moved_def)
  then obtain p2 where p2: "r2 = Inr (Some p2)" using renameNode_succeeds [OF _ _ r2 made enc(2,1)] l1(2) by auto
  obtain r3 s3 where r3: "undo env dn els (length els) s2 = (r3, s3)" by fastforce
  have fin: "rename_top env dn from to fromC toC (Some (els, length els)) s =
      (case r3 of Inl (Error _) \<Rightarrow> (Inr (- EIO), s3) | Inl e \<Rightarrow> (Inl e, s3) | Inr _ \<Rightarrow> (Inr z, s3))"
    using st r1 l1(1) rn(1) neg(1) r2 p2 r3
    by (auto simp: rename_top_def keep_times_def io_bind_split io_simps io_catch_def split: sum.splits exn.splits)
  have u: "rename_undo env dn (rev els) s2 = (r3, s3)" using r3 by (simp add: undo_def)
  obtain y where y: "r3 = Inr y" using undo_no_error [OF u] fin run by (cases r3) (auto split: exn.splits)
  then have "names_ok dn s3 \<and> tr s3 = tr s0 \<and> tab s3 = tab s0"
    using takes_back [unfolded undoes_def, rule_format, of s2 y s3] u s2 neg(2) by simp
  then show ?thesis using fin run(1) y by simp
qed

text \<open>The recursive part: when it gives up nothing has changed, and when it is done it can be taken back.\<close>

lemma rename_below_outcome:
  assumes ok: "names_ok dn s" and run: "rename_below env dn fuel from to s = (Inr op, s')"
    and clear: "\<And>w l w'. tree w = tr s \<Longrightarrow> genRenameList env dn fuel from to [] w = (Inr (True, l), w') \<Longrightarrow> clear_run l (tr s) (tab s)"
  shows "case op of None \<Rightarrow> names_ok dn s' \<and> tr s' = tr s \<and> tab s' = tab s
    | Some (l, pos) \<Rightarrow> names_ok dn s' \<and> pos = length l \<and> undoes l s' s \<and> (tab s to = None \<longrightarrow> tab s' to = None)"
proof -
  obtain r w where gl: "genRenameList env dn fuel from to [] (ds_world s) = (r, w)" by fastforce
  note lt = list_tree [OF gl]
  let ?s1 = "s\<lparr>ds_world := w\<rparr>"
  show ?thesis
  proof (cases "\<exists>l. r = Inr (True, l)")
    case False
    then show ?thesis using run gl lt ok by (auto simp: rename_below_def newRenameOp_def io_bind_split io_simps split: sum.splits)
  next
    case True
    then obtain l where l: "r = Inr (True, l)" by blast
    have longer: "to \<notin> newPName ` set l" using lt l by fastforce
    have cl: "clear_run l (tr ?s1) (tab ?s1)" using clear [OF refl] gl l lt by simp
    obtain q s2 where ap: "rename_apply env dn l 0 ?s1 = (q, s2)" by fastforce
    have new: "newRenameOp env dn fuel from to s = (Inr (Some l), ?s1)" using gl l by (simp add: newRenameOp_def)
    obtain ok' pos where q: "q = Inr (ok', pos)" using run new ap by (cases q) (auto simp: rename_below_def io_bind_split)
    note au = apply_undoes [OF _ cl ap [unfolded q]]
    show ?thesis
    proof (cases ok')
      case True
      then have "op = Some (l, pos)" "s' = s2" using run new ap q by (auto simp: rename_below_def io_bind_split io_simps)
      moreover have "names_ok dn s2 \<and> pos = length l \<and> undoes l s2 ?s1" using au ok True by auto
      moreover have "undoes l s2 ?s1 = undoes l s2 s" using lt by (simp add: undoes_def)
      ultimately show ?thesis using au ok longer by simp
    next
      case False
      then have u: "op = None" "\<exists>x. undo env dn l pos s2 = (Inr x, s')"
        using run new ap q by (auto simp: rename_below_def io_bind_split io_simps split: sum.splits prod.splits)
      then obtain x where x: "rename_undo env dn (rev (take pos l)) s2 = (Inr x, s')" by (auto simp: undo_def)
      have "names_ok dn s2" "undoes (take pos l) s2 ?s1" using au ok by auto
      then have "names_ok dn s' \<and> tr s' = tr ?s1 \<and> tab s' = tab ?s1"
        using x unfolding undoes_def by blast
      then show ?thesis using u(1) lt by simp
    qed
  qed
qed

text \<open>When \<open>DirNode::rename\<close> reports an error nothing has changed.\<close>

lemma rename_fails:
  assumes ok: "names_ok dn s" and to: "tab s to = None"
    and made: "\<And>pn cn fh w. \<exists>n. FileNode_new env (dn_cfg dn) pn cn fh w = Inr n"
    and clear: "\<And>w l w'. tree w = tr s \<Longrightarrow> genRenameList env dn fuel from to [] w = (Inr (True, l), w') \<Longrightarrow> clear_run l (tr s) (tab s)"
    and run: "dir_rename env dn fuel from to s = (Inr res, s')" "res \<noteq> 0"
  shows "names_ok dn s' \<and> tr s' = tr s \<and> tab s' = tab s"
proof -
  have "\<exists>x. encodePath (naming dn) from 0 = Inr x"
    using run(1) by (cases "encodePath (naming dn) from 0")
      (simp_all add: dir_rename_def cipherPath_def cipherPathWithoutRoot_def io_bind_split io_simps)
  moreover from this have "\<exists>x. encodePath (naming dn) to 0 = Inr x"
    using run(1) by (cases "encodePath (naming dn) to 0")
      (auto simp: dir_rename_def cipherPath_def cipherPathWithoutRoot_def io_bind_split io_simps)
  ultimately obtain c iv c' iv' where enc: "encodePath (naming dn) from 0 = Inr (c, iv)" "encodePath (naming dn) to 0 = Inr (c', iv')"
    by auto
  let ?from = "dn_rootDir dn @ c" and ?to = "dn_rootDir dn @ c'"
  obtain r1 s1 where fc: "findOrCreate env dn to s = (r1, s1)" by fastforce
  have s1: "names_ok dn s1" "ds_world s1 = ds_world s" "tab s1 = tab s" using findOrCreate_closed [OF ok to fc] by simp_all
  obtain a b where ab: "isDirectory (fe_sys env) ?from (ds_world s1) = (a, b)" by fastforce
  define s2 where "s2 = (if hasDirectoryNameDependency dn then s1\<lparr>ds_world := b\<rparr> else s1)"
  define rec where "rec = (hasDirectoryNameDependency dn \<and> a)"
  have rec: "(if hasDirectoryNameDependency dn then on_system (isDirectory (fe_sys env) ?from) else io_return False) s1
      = (Inr rec, s2)" "names_ok dn s2" "tr s2 = tr s" "tab s2 = tab s"
    using s1 ab isDirectory_tree [OF ab] by (simp_all add: s2_def rec_def on_system_def io_simps)
  have paths: "cipherPath dn from = Inr ?from" "cipherPath dn to = Inr ?to"
    using enc by (simp_all add: cipherPath_def cipherPathWithoutRoot_def)
  have start: "(if rec then io_bind (rename_below env dn fuel from to) (\<lambda>renameOp.
         case renameOp of None \<Rightarrow> io_return (- EACCES)
         | Some op \<Rightarrow> rename_top env dn from to ?from ?to (Some op))
       else rename_top env dn from to ?from ?to (Some ([], 0))) s2 = (Inr res, s')"
    using run(1) fc rec(1) unfolding dir_rename_def paths
    by (cases r1; cases "?from = []"; cases "?to = []") (auto simp: io_bind_split io_simps rename_top_None)
  show ?thesis
  proof (cases rec)
    case False
    have "undoes [] s2 s" using rec by (auto simp: undoes_def io_simps)
    from rename_top_fails [OF ok rec(2) this _ made enc, of ?from ?to res s'] show ?thesis
      using start False rec(4) to run(2) by simp
  next
    case True
    then obtain op s3 where op: "rename_below env dn fuel from to s2 = (Inr op, s3)"
      using start by (cases "rename_below env dn fuel from to s2"; cases "fst (rename_below env dn fuel from to s2)")
        (auto simp: io_bind_split)
    have "case op of None \<Rightarrow> names_ok dn s3 \<and> tr s3 = tr s2 \<and> tab s3 = tab s2
      | Some (l, pos) \<Rightarrow> names_ok dn s3 \<and> pos = length l \<and> undoes l s3 s2 \<and> (tab s2 to = None \<longrightarrow> tab s3 to = None)"
      by (rule rename_below_outcome [OF rec(2) op]) (use clear rec(3,4) in simp)
    moreover have "undoes l s3 s2 = undoes l s3 s" for l using rec by (simp add: undoes_def)
    ultimately show ?thesis
      using start True op rec rename_top_fails [OF ok _ _ _ made enc _ run(2), where s = s3] to
      by (cases op) (auto simp: io_bind_split io_simps)
  qed
qed

end


section \<open>A tree in memory\<close>

text \<open>
  A world of full names, each with whether it is a directory. Renaming moves what is below, and refuses a target
  that exists or lies below the source.
\<close>

definition lies_under :: "bytes \<Rightarrow> bytes \<Rightarrow> bool" where
  "lies_under a n = (n = a \<or> take (Suc (length a)) n = a @ [slash])"

definition rebase :: "bytes \<Rightarrow> bytes \<Rightarrow> bytes \<Rightarrow> bytes" where
  "rebase a b n = (if lies_under a n then b @ drop (length a) n else n)"

definition tree_rename :: "bytes \<Rightarrow> bytes \<Rightarrow> (bytes \<times> bool) list \<Rightarrow> (bytes \<times> bool) list option" where
  "tree_rename a b t =
     (if a \<in> set (map fst t) \<and> list_all (\<lambda>(n, d). \<not> lies_under b n) t \<and> \<not> lies_under a b
      then Some (map (\<lambda>(n, d). (rebase a b n, d)) t) else None)"

lemma under_append: "lies_under a (a @ r) \<longleftrightarrow> r = [] \<or> hd r = slash"
  by (cases r) (auto simp: lies_under_def)

lemma under_split: "lies_under a n \<Longrightarrow> \<exists>r. n = a @ r \<and> (r = [] \<or> hd r = slash)"
proof (unfold lies_under_def, elim disjE)
  assume "take (Suc (length a)) n = a @ [slash]"
  then have "n = (a @ [slash]) @ drop (Suc (length a)) n" by (metis append_take_drop_id)
  then show "\<exists>r. n = a @ r \<and> (r = [] \<or> hd r = slash)" by (intro exI [of _ "slash # drop (Suc (length a)) n"]) simp
qed simp

lemma under_trans: "lies_under a b \<Longrightarrow> lies_under b c \<Longrightarrow> lies_under a c"
  using under_split [of a b] under_split [of b c] by (auto simp: under_append hd_append)

lemma under_prefix: "lies_under a n \<Longrightarrow> n = b @ r \<Longrightarrow> r = [] \<or> hd r = slash \<Longrightarrow> lies_under a b \<or> lies_under b a"
  using under_split [of a n] by (auto simp: append_eq_append_conv2 under_append hd_append split: if_splits)

lemma tree_rename_back:
  assumes "tree_rename a b t = Some t'"
  shows "tree_rename b a t' = Some t"
proof -
  have c: "a \<in> fst ` set t" "\<And>n d. (n, d) \<in> set t \<Longrightarrow> \<not> lies_under b n" "\<not> lies_under a b" "t' = map (\<lambda>(n, d). (rebase a b n, d)) t"
    using assms by (auto simp: tree_rename_def list_all_iff split: if_splits)
  have inv: "rebase b a (rebase a b n) = n" if "\<not> lies_under b n" for n
    using that under_split [of a n] by (auto simp: rebase_def under_append)
  have "\<not> lies_under a (rebase a b n)" if "(n, d) \<in> set t" for n d
  proof (cases "lies_under a n")
    case True
    then obtain r where r: "n = a @ r" "r = [] \<or> hd r = slash" using under_split by blast
    show ?thesis
    proof
      assume "lies_under a (rebase a b n)"
      then have "lies_under a (b @ r)" using True r by (simp add: rebase_def)
      then have "lies_under a b \<or> lies_under b a" using under_prefix [of a "b @ r" b r] r(2) by blast
      then show False using c(1,2,3) by force
    qed
  qed (simp add: rebase_def)
  moreover have "b \<in> fst ` set t'" using c(1) by (force simp: c(4) rebase_def lies_under_def)
  moreover have "\<not> lies_under b a" using c(1,2) by force
  moreover have "map (\<lambda>(n, d). (rebase b a n, d)) t' = t"
    unfolding c(4) map_map using c(2) inv by (intro map_idI) auto
  moreover have "list_all (\<lambda>(n, d). \<not> lies_under a n) t'" using calculation(1) by (auto simp: list_all_iff c(4))
  ultimately show ?thesis by (simp add: tree_rename_def)
qed

definition tree_fsys :: "(bytes \<times> bool) list filesys" where
  "tree_fsys =
     \<lparr>fsy_setfsuid = (\<lambda>i w. (0, w)), fsy_setfsgid = (\<lambda>i w. (0, w)),
      fsy_create = (\<lambda>n m w. (3, (n, False) # w)), fsy_close = (\<lambda>fd w. (0, w)),
      fsy_mkfifo = (\<lambda>n m w. (0, (n, False) # w)), fsy_mknod = (\<lambda>n m d w. (0, (n, False) # w)),
      fsy_fsync = (\<lambda>fd w. (0, w)), fsy_fdatasync = (\<lambda>fd w. (0, w)),
      fsy_stat = (\<lambda>n w. (if n \<in> set (map fst w) then Inr (0, 0) else Inl (- ENOENT), w)),
      fsy_utime = (\<lambda>n ut w. (0, w)),
      fsy_rename = (\<lambda>a b w. case tree_rename a b w of Some w \<Rightarrow> (0, w) | None \<Rightarrow> (- EACCES, w)),
      fsy_mkdir = (\<lambda>n m w. (0, (n, True) # w)), fsy_link = (\<lambda>a b w. (- EPERM, w)),
      fsy_unlink = (\<lambda>n w. (if n \<in> set (map fst w) then 0 else - ENOENT, filter (\<lambda>(m, d). m \<noteq> n) w)),
      fsy_readdir = (\<lambda>n w. (if (n, True) \<in> set w
         then Inr (map (\<lambda>(m, d). \<lparr>d_name = drop (Suc (length n)) m, d_type = (if d then DT_DIR else 8), d_ino = 1\<rparr>)
                (filter (\<lambda>(m, d). lies_under n m \<and> m \<noteq> n \<and> slash \<notin> set (drop (Suc (length n)) m)) w))
         else Inl (- ENOENT), w))\<rparr>"

definition tree_sys :: "(bytes \<times> bool) list sys" where
  "tree_sys =
     \<lparr>sys_open = (\<lambda>path flags w. (3, w)),
      sys_lstat = (\<lambda>path w. (case map_of w path of None \<Rightarrow> Inl (- ENOENT)
         | Some d \<Rightarrow> Inr \<lparr>st_mode = (if d then 0x4000 else 0x8000), st_size = 0, st_ino = 1, st_gid = 0\<rparr>, w)),
      sys_chmod = (\<lambda>path mode w. (0, w)), sys_pread = (\<lambda>fd len off w. (Inr [], w)),
      sys_pwrite = (\<lambda>fd d off w. (int (length d), w)), sys_ftruncate = (\<lambda>fd n w. (0, w)),
      sys_truncate = (\<lambda>path n w. (0, w)), sys_fdatasync = (\<lambda>fd w. w), sys_close = (\<lambda>fd w. w)\<rparr>"

definition tree_env :: "((bytes \<times> bool) list, unit, unit) fs_env" where
  "tree_env = \<lparr>fe_sys = tree_sys, fe_fsys = tree_fsys, fe_cipher = NullCipher NullInterface, fe_key = (),
     fe_sha1 = id, fe_tries = 1, fe_rng = (\<lambda>_. ((), ()))\<rparr>"

text \<open>A coding of names for it: the first byte of an encoded name comes from the vector, and the vector from the names above.\<close>

definition tagged_coder :: "name_coder" where
  "tagged_coder nm iv n = Inr ((case iv of None \<Rightarrow> 65 | Some v \<Rightarrow> 65 + ucast v) # nm, map_option (\<lambda>v. v + ucast (hd nm)) iv)"

definition untagged_coder :: "name_coder" where
  "untagged_coder nm iv n = (if length nm < 2 then Inl (Error ''Filename too small to decode'')
     else Inr (tl nm, map_option (\<lambda>v. v + ucast (hd (tl nm))) iv))"

definition tagged_names :: nameio where
  "tagged_names = NullNameIO\<lparr>nio_maxEncodedNameLen := (\<lambda>n. int n + 1), nio_encodeName := tagged_coder,
     nio_decodeName := untagged_coder, nio_chainedNameIV := True\<rparr>"

definition tree_dn :: dirnode where
  "tree_dn = \<lparr>dn_rootDir = str ''r/'', 
     dn_cfg = \<lparr>fs_config = EncFSConfig_new 0 64, fs_mountPoint = str ''/m/'', fs_noCache = False, fs_forceDecode = False,
       fs_reverseEncryption = False, fs_nameCoding = tagged_names\<rparr>, dn_hasCtx = True\<rparr>"

interpretation memtree: rename_system tree_env tree_dn id tree_rename "\<lambda>_ _. True"
proof
  show "\<not> externalIVChaining (fs_config (dn_cfg tree_dn))" "dn_hasCtx tree_dn" by (simp_all add: tree_dn_def EncFSConfig_new_def)
  show "case tree_rename a b (id w) of Some t \<Rightarrow> r = 0 \<and> id w' = t | None \<Rightarrow> r < 0 \<and> id w' = id w"
    if "fsy_rename (fe_fsys tree_env) a b w = (r, w')" for a b r and w w' :: "(bytes \<times> bool) list"
    using that by (auto simp: tree_env_def tree_fsys_def EACCES_def split: option.splits)
  show "tree_rename b a t' = Some t" if "tree_rename a b t = Some t'" for a b t t' using that by (rule tree_rename_back)
qed (auto simp: tree_env_def tree_fsys_def tree_sys_def)

text \<open>A directory with a file that is open, and a directory with the name the first one is to get.\<close>

definition demo_node :: "((bytes \<times> bool) list, unit) filenode" where
  "demo_node = projr (FileNode_new tree_env (dn_cfg tree_dn) (str ''/d/x'') (str ''r/Ad/'' @ [165, 120]) 1 [])"

definition demo_tree :: "((bytes \<times> bool) list, unit) dirstate" where
  "demo_tree = \<lparr>ds_ctx = putNode (str ''/d/x'') 0 (snd (newNode (EncFS_Context False))),
     ds_nodes = (\<lambda>_. demo_node),
     ds_world = [(str ''r/Ad'', True), (str ''r/Ad/'' @ [165, 120], False), (str ''r/Ae'', True)]\<rparr>"

lemma demo_fails: "fst (dir_rename tree_env tree_dn 5 (str ''/d'') (str ''/e'') demo_tree) = Inr (- EACCES)"
  by code_simp


lemma demo_names_ok: "names_ok tree_dn demo_tree"
proof -
  have n: "node_names tree_dn (str ''/d/x'') demo_node"
  proof -
    have "encodePath tagged_names (str ''/d/x'') 0 = Inr (str ''Ad/'' @ [165, 120], 220)" by code_simp
    moreover have "fnode_pname demo_node = str ''/d/x''" "fnode_cname demo_node = str ''r/Ad/'' @ [165, 120]" by code_simp+
    moreover have "str ''r/Ad/'' = str ''r/'' @ str ''Ad/''" by code_simp
    ultimately show ?thesis by (simp add: node_names_def tree_dn_def)
  qed
  have "opened (ds_ctx demo_tree) path = (if path = str ''/d/x'' then Some [0] else None)" for path
    by (simp add: demo_tree_def putNode_def newNode_def nextFuseFh_def EncFS_Context_def lookup_update')
  moreover have "0 < ctx_alloc (ds_ctx demo_tree)" by code_simp
  moreover have "ds_nodes demo_tree = (\<lambda>_. demo_node)" by (simp add: demo_tree_def)
  ultimately show ?thesis using n by (auto simp: names_ok_def intro!: exI [of _ 0])
qed

lemma demo_nodes_made: "\<exists>n. FileNode_new tree_env (dn_cfg tree_dn) pn cn fh w = Inr n"
  by (simp add: FileNode_new_def CipherFileIO_new_def tree_dn_def EncFSConfig_new_def node_cenv_def tree_env_def NullCipher_def)

lemma demo_list:
  "genRenameList tree_env tree_dn 5 (str ''/d'') (str ''/e'') [] (ds_world demo_tree) =
     (Inr (True, [\<lparr>oldCName = str ''r/Ad/'' @ [165, 120], newCName = str ''r/Ad/'' @ [166, 120],
        oldPName = str ''/d/x'', newPName = str ''/e/x'', re_isDirectory = False\<rparr>]), ds_world demo_tree)"
  by code_simp

section \<open>Properties\<close>

text \<open>
  Claim C10. Renaming is all or nothing. When \<open>DirNode::rename\<close> reports an error, of the recursive
  renaming of what is below a directory or of the directory itself, the names on disk and the table of open files are
  as before, and every open node carries its old names again. Assumed is that no step goes onto a
  name that exists or a path that is open, that a rename to a free name can be taken back, and that
  vectors of files do not come from names.
\<close>

theorem rename_all_or_nothing:
  assumes "rename_system env dn tree renamed free" "names_ok dn s" "opened (ds_ctx s) to = None"
    and "\<And>pn cn fh w. \<exists>n. FileNode_new env (dn_cfg dn) pn cn fh w = Inr n"
    and "\<And>w l w'. tree w = tree (ds_world s) \<Longrightarrow> genRenameList env dn fuel from to [] w = (Inr (True, l), w') \<Longrightarrow>
      rename_system.clear_run renamed free l (tree (ds_world s)) (opened (ds_ctx s))"
    and "dir_rename env dn fuel from to s = (Inr res, s')" "res \<noteq> 0"
  shows "tree (ds_world s') = tree (ds_world s) \<and> opened (ds_ctx s') = opened (ds_ctx s) \<and> names_ok dn s'"
proof -
  have "names_ok dn s' \<and> tree (ds_world s') = tree (ds_world s) \<and> opened (ds_ctx s') = opened (ds_ctx s)"
    by (rule rename_system.rename_fails [OF assms(1-4) _ assms(6,7)]) (rule assms(5))
  then show ?thesis by simp
qed

theorem rename_all_or_nothing_witness:
  "\<exists>s'. dir_rename tree_env tree_dn 5 (str ''/d'') (str ''/e'') demo_tree = (Inr (- EACCES), s') \<and>
     ds_world s' = [(str ''r/Ad'', True), (str ''r/Ad/'' @ [165, 120], False), (str ''r/Ae'', True)] \<and>
     opened (ds_ctx s') (str ''/d/x'') = Some [0]"
proof -
  obtain s' where s': "dir_rename tree_env tree_dn 5 (str ''/d'') (str ''/e'') demo_tree = (Inr (- EACCES), s')"
    using demo_fails by (cases "dir_rename tree_env tree_dn 5 (str ''/d'') (str ''/e'') demo_tree") auto
  have tab: "opened (ds_ctx demo_tree) (str ''/e'') = None" "opened (ds_ctx demo_tree) (str ''/e/x'') = None"
    "opened (ds_ctx demo_tree) (str ''/d/x'') = Some [0]" by code_simp+
  have "- EACCES \<noteq> 0" by (simp add: EACCES_def)
  from rename_all_or_nothing [OF memtree.rename_system_axioms demo_names_ok tab(1) demo_nodes_made _ s' this]
  have "id (ds_world s') = id (ds_world demo_tree) \<and> opened (ds_ctx s') = opened (ds_ctx demo_tree) \<and> names_ok tree_dn s'"
    using tab(2) by (auto simp: demo_list split: option.split)
  then show ?thesis using s' tab(3) by (simp add: demo_tree_def)
qed




end
