(* ===== verification/Fuse_Ops.thy ===== *)
theory Fuse_Ops
  imports Dir_Node
begin

text \<open>
  The handlers of FUSE requests (\<^verbatim>\<open>encfs/encfs.cpp\<close>): each finds the root of the volume, translates
  the path or the handle, calls \<open>DirNode\<close>, \<open>FileNode\<close> or the operating system, and
  turns what happened into the number that goes back to the kernel.

  \<^item> What a handler reads of its surroundings is \<open>fuse_env\<close>: the volume, the options, the caller, the
    operating system; what it changes is the \<open>dirstate\<close> of \<open>Dir_Node\<close>.
  \<^item> A C function that gives -1 and sets \<open>errno\<close> is a pair of both here, because the helpers
    distinguish -1 from a negated error number.
  \<^item> What a handler puts into the caller's buffer is part of its result, \<open>None\<close> when it puts nothing there.
  \<^item> A node that nobody holds after the request is destroyed, which closes its descriptors.
  \<^item> A null \<open>fuse_file_info\<close> and a handle of zero are both 0.
\<close>

section \<open>Environment\<close>

record 'w fusesys =
  fus_rmdir :: "bytes \<Rightarrow> 'w \<Rightarrow> int \<times> 'w"
  fus_readlink :: "bytes \<Rightarrow> int \<Rightarrow> 'w \<Rightarrow> (int + bytes) \<times> 'w"
  fus_symlink :: "bytes \<Rightarrow> bytes \<Rightarrow> 'w \<Rightarrow> int \<times> 'w"
  fus_lchown :: "bytes \<Rightarrow> int \<Rightarrow> int \<Rightarrow> 'w \<Rightarrow> int \<times> 'w"
  fus_utimensat :: "bytes \<Rightarrow> (int \<times> int) \<times> (int \<times> int) \<Rightarrow> 'w \<Rightarrow> int \<times> 'w"
  fus_dup :: "int \<Rightarrow> 'w \<Rightarrow> int \<times> 'w"
  fus_statvfs :: "bytes \<Rightarrow> 'w \<Rightarrow> (int + u64) \<times> 'w"
  fus_lsetxattr :: "bytes \<Rightarrow> bytes \<Rightarrow> bytes \<Rightarrow> int \<Rightarrow> 'w \<Rightarrow> int \<times> 'w"
  fus_lgetxattr :: "bytes \<Rightarrow> bytes \<Rightarrow> nat \<Rightarrow> 'w \<Rightarrow> (int + nat \<times> bytes) \<times> 'w"
  fus_llistxattr :: "bytes \<Rightarrow> nat \<Rightarrow> 'w \<Rightarrow> (int + nat \<times> bytes) \<times> 'w"
  fus_lremovexattr :: "bytes \<Rightarrow> bytes \<Rightarrow> 'w \<Rightarrow> int \<times> 'w"
  fus_errno :: "'w \<Rightarrow> int"

text \<open>\<open>fus_errno\<close> is what \<open>errno\<close> holds when no call of the handler has failed. Of \<open>statvfs\<close> only \<open>f_namemax\<close> is used.\<close>

record ('w, 'k, 'r) fuse_env =
  fu_env :: "('w, 'k, 'r) fs_env"
  fu_dn :: dirnode
  fu_sys :: "'w fusesys"
  fu_initFS :: "efs_context \<Rightarrow> bool"
  fu_readOnly :: bool
  fu_publicFilesystem :: bool
  fu_uid :: int
  fu_gid :: int
  fu_depth :: nat

definition EROFS :: int where "EROFS = 30"

definition S_ISLNK :: "u32 \<Rightarrow> bool" where
  "S_ISLNK m = (m AND 0xF000 = 0xA000)"

definition INT_MAX :: nat where "INT_MAX = 2 ^ 31 - 1"

section \<open>Helpers\<close>

text \<open>A system call: its value and \<open>errno\<close>.\<close>

definition call :: "('w \<Rightarrow> int \<times> 'w) \<Rightarrow> (('w, 'r) dirstate, int \<times> int) io" where
  "call f s = (case f (ds_world s) of (r, w) \<Rightarrow> (Inr (if r < 0 then (-1, - r) else (r, 0)), s\<lparr>ds_world := w\<rparr>))"

text \<open>\<open>getRoot\<close>: 0 when there is a root. Two rounds of its loop are enough.\<close>

definition root_of :: "('w, 'k, 'r) fuse_env \<Rightarrow> bool \<Rightarrow> (('w, 'r) dirstate, int) io" where
  "root_of fe skipUsageCount = io_lift ds_ctx (\<lambda>c s. s\<lparr>ds_ctx := c\<rparr>) (getRoot (fu_initFS fe) skipUsageCount 2)"

text \<open>\<open>op\<close> gives its value, \<open>errno\<close> and what it put into the buffer.\<close>

definition withCipherPath ::
  "('w, 'k, 'r) fuse_env \<Rightarrow> bytes \<Rightarrow> (bytes \<Rightarrow> (('w, 'r) dirstate, int \<times> int \<times> 'a option) io) \<Rightarrow> bool \<Rightarrow>
   (('w, 'r) dirstate, int \<times> 'a option) io" where
  "withCipherPath fe path op passReturnCode =
     io_bind (root_of fe False) (\<lambda>res.
     if res \<noteq> 0 then io_return (res, None)
     else io_catch
       (io_bind (io_of (cipherPath (fu_dn fe) path)) (\<lambda>cyName.
        io_bind (op cyName) (\<lambda>(res, eno, out).
        io_return (if res = -1 then (- eno, out) else if \<not> passReturnCode then (0, out) else (res, out)))))
       (\<lambda>_. io_return (- EIO, None)))"

definition withCipherPath_int ::
  "('w, 'k, 'r) fuse_env \<Rightarrow> bytes \<Rightarrow> (bytes \<Rightarrow> (('w, 'r) dirstate, int \<times> int) io) \<Rightarrow> (('w, 'r) dirstate, int) io" where
  "withCipherPath_int fe path op =
     io_bind (withCipherPath fe path (\<lambda>c. io_bind (op c) (\<lambda>(res, eno). io_return (res, eno, None :: unit option))) False)
       (\<lambda>(res, _). io_return res)"

definition checkCanary :: "nat \<Rightarrow> (('w, 'r) dirstate, unit) io" where
  "checkCanary p =
     io_bind (io_get (\<lambda>s. fn_canary (ds_ctx s) p)) (\<lambda>canary.
     if canary = CANARY_OK then io_return ()
     else if canary = CANARY_RELEASED then io_return ()
     else io_throw (Error ''dead canary''))"

text \<open>
  The last reference to a node goes: the table holds it exactly while its handle is registered.
\<close>

definition drop_node :: "('w, 'k, 'r) fs_env \<Rightarrow> nat \<Rightarrow> ('w, 'r) dirstate \<Rightarrow> ('w, 'r) dirstate" where
  "drop_node env p s =
     (if lookupFuseFh (fn_fuseFh (ds_ctx s) p) (ds_ctx s) = Some p then s
      else s\<lparr>ds_ctx := (ds_ctx s)\<lparr>fn_canary := (fn_canary (ds_ctx s))(p := CANARY_DESTROYED)\<rparr>,
             ds_world := RawFileIO_delete (fe_sys env)
               ((case fnode_io (ds_nodes s p) of Inl c \<Rightarrow> cf_base c | Inr m \<Rightarrow> cf_base (mf_base m))\<lparr>raw_world := ds_world s\<rparr>)\<rparr>)"

definition holding :: "('w, 'k, 'r) fs_env \<Rightarrow> nat \<Rightarrow> (('w, 'r) dirstate, 'a) io \<Rightarrow> (('w, 'r) dirstate, 'a) io" where
  "holding env p m s = (case m s of (r, s) \<Rightarrow> (r, drop_node env p s))"

text \<open>\<open>err\<close> makes a result from an error number.\<close>

definition withFileNode ::
  "('w, 'k, 'r) fuse_env \<Rightarrow> (int \<Rightarrow> 'a) \<Rightarrow> bytes \<Rightarrow> u64 \<Rightarrow> (nat \<Rightarrow> (('w, 'r) dirstate, 'a) io) \<Rightarrow> (('w, 'r) dirstate, 'a) io" where
  "withFileNode fe err path fh op =
     io_bind (root_of fe (length path = 1)) (\<lambda>res.
     if res \<noteq> 0 then io_return (err res)
     else io_catch
       (io_bind (if fh \<noteq> 0
          then io_bind (io_get (\<lambda>s. lookupFuseFh fh (ds_ctx s))) (\<lambda>node.
            if node = None then io_throw (Error ''fh not found in fuseFhMap'') else io_return node)
          else dir_lookupNode (fu_env fe) (fu_dn fe) path) (\<lambda>node.
        case node of None \<Rightarrow> io_throw (Error ''fnode != nullptr'')
        | Some p \<Rightarrow>
            holding (fu_env fe) p
              (io_bind (checkCanary p) (\<lambda>_.
               io_bind (io_get (\<lambda>s. fnode_cname (ds_nodes s p))) (\<lambda>cname.
               if touchesMountpoint (fu_dn fe) cname then io_return (err (- EIO)) else op p)))))
       (\<lambda>_. io_return (err (- EIO))))"

section \<open>Attributes and directories\<close>

definition do_getattr :: "('w, 'k, 'r) fuse_env \<Rightarrow> nat \<Rightarrow> (('w, 'r) dirstate, int + stat) io" where
  "do_getattr fe p =
     io_bind (on_node p (node_getAttr (fu_env fe))) (\<lambda>r.
     case r of Inl e \<Rightarrow> io_return (Inl e)
     | Inr stbuf \<Rightarrow>
         if S_ISLNK (st_mode stbuf) then
           io_bind (root_of fe False) (\<lambda>res.
           if res \<noteq> 0 then io_return (Inl res)
           else
             io_bind (io_get (\<lambda>s. fnode_cname (ds_nodes s p))) (\<lambda>cname.
             io_bind (on_system (fus_readlink (fu_sys fe) cname (st_size stbuf))) (\<lambda>r.
             case r of Inl e \<Rightarrow> io_return (Inl e)
             | Inr buf \<Rightarrow>
                 io_bind (io_of (plainPath (fu_dn fe) (takeWhile (\<lambda>c. c \<noteq> 0) buf))) (\<lambda>link.
                 io_return (Inr (stbuf\<lparr>st_size := int (length link)\<rparr>))))))
         else io_return (Inr stbuf))"

definition encfs_getattr :: "('w, 'k, 'r) fuse_env \<Rightarrow> bytes \<Rightarrow> (('w, 'r) dirstate, int + stat) io" where
  "encfs_getattr fe path = withFileNode fe Inl path 0 (do_getattr fe)"

definition encfs_fgetattr :: "('w, 'k, 'r) fuse_env \<Rightarrow> bytes \<Rightarrow> u64 \<Rightarrow> (('w, 'r) dirstate, int + stat) io" where
  "encfs_fgetattr fe path fh = withFileNode fe Inl path fh (do_getattr fe)"

text \<open>A name with the inode and the mode that go with it. The filler tells whether its buffer is full.\<close>

type_synonym dir_entry = "bytes \<times> u64 \<times> u32"

lemma next_plaintext_shorter:
  "next_plaintext nio iv root des = Inr (n, Some de, des') \<Longrightarrow> length des' < length des"
  by (induction nio iv root des rule: next_plaintext.induct)
    (auto split: if_splits sum.splits exn.splits)

function readdir_loop ::
  "(dir_entry list \<Rightarrow> dir_entry \<Rightarrow> bool) \<Rightarrow> dirtraverse \<Rightarrow> dir_entry list \<Rightarrow> exn + dir_entry list" where
  "readdir_loop filler dt buf =
     (case nextPlaintextName dt of
        Inl e \<Rightarrow> Inl e
      | Inr (name, None, _) \<Rightarrow> Inr buf
      | Inr (name, Some de, dt') \<Rightarrow>
          if name = [] then Inr buf
          else
            let entry = (name, d_ino de, push_bit 12 (ucast (d_type de))) in
            if filler buf entry then Inr buf else readdir_loop filler dt' (buf @ [entry]))"
  by pat_completeness auto
termination
  by (relation "measure (\<lambda>(filler, dt, buf). length (dt_dir dt))")
    (auto simp: nextPlaintextName_def dest!: next_plaintext_shorter split: sum.splits prod.splits)

declare readdir_loop.simps [simp del]

definition encfs_readdir ::
  "('w, 'k, 'r) fuse_env \<Rightarrow> (dir_entry list \<Rightarrow> dir_entry \<Rightarrow> bool) \<Rightarrow> bytes \<Rightarrow> (('w, 'r) dirstate, int \<times> dir_entry list) io" where
  "encfs_readdir fe filler path =
     io_bind (root_of fe False) (\<lambda>res.
     if res \<noteq> 0 then io_return (res, [])
     else io_catch
       (io_bind (openDir (fu_env fe) (fu_dn fe) path) (\<lambda>dt.
        case dt of None \<Rightarrow> io_return (0, [])
        | Some dt \<Rightarrow> io_bind (io_of (readdir_loop filler dt [])) (\<lambda>buf. io_return (0, buf))))
       (\<lambda>_. io_return (- EIO, [])))"

section \<open>Creating and removing\<close>

definition the_node :: "nat option \<Rightarrow> (('w, 'r) dirstate, nat) io" where
  "the_node node = (case node of None \<Rightarrow> io_throw (Fatal ''null pointer'') | Some p \<Rightarrow> io_return p)"

text \<open>
  What \<open>mknod\<close> and \<open>mkdir\<close> do with a first result: for a public file system a missing permission is
  tried again with the group of the parent directory. An exception leaves the first result.
\<close>

definition retry_as_parent ::
  "('w, 'k, 'r) fuse_env \<Rightarrow> (('w, 'r) dirstate, bytes) io \<Rightarrow> (int \<Rightarrow> (('w, 'r) dirstate, int) io) \<Rightarrow> int \<Rightarrow>
   (('w, 'r) dirstate, int) io" where
  "retry_as_parent fe parent act res =
     (if fu_publicFilesystem fe \<and> - res = EACCES then
        io_catch
          (io_bind parent (\<lambda>parent.
           io_bind (dir_lookupNode (fu_env fe) (fu_dn fe) parent) (\<lambda>dnode.
           io_bind (the_node dnode) (\<lambda>q.
           io_bind (on_node q (node_getAttr (fu_env fe))) (\<lambda>st.
           case st of Inl _ \<Rightarrow> io_return res | Inr st \<Rightarrow> act (st_gid st))))))
          (\<lambda>_. io_return res)
      else io_return res)"

definition encfs_mknod :: "('w, 'k, 'r) fuse_env \<Rightarrow> bytes \<Rightarrow> u32 \<Rightarrow> int \<Rightarrow> (('w, 'r) dirstate, int) io" where
  "encfs_mknod fe path mode rdev =
     (if fu_readOnly fe then io_return (- EROFS)
      else
        io_bind (root_of fe False) (\<lambda>res.
        if res \<noteq> 0 then io_return res
        else
          let uid = (if fu_publicFilesystem fe then fu_uid fe else 0);
              gid = (if fu_publicFilesystem fe then fu_gid fe else 0)
          in io_catch
            (io_bind (dir_lookupNode (fu_env fe) (fu_dn fe) path) (\<lambda>fnode.
             io_bind (the_node fnode) (\<lambda>p.
             io_bind (on_node p (node_mknod (fu_env fe) mode rdev uid gid))
               (retry_as_parent fe (io_get (\<lambda>s. plaintextParent (ds_nodes s p)))
                  (\<lambda>gid. on_node p (node_mknod (fu_env fe) mode rdev uid gid))))))
            (\<lambda>_. io_return (- EIO))))"

definition encfs_mkdir :: "('w, 'k, 'r) fuse_env \<Rightarrow> bytes \<Rightarrow> u32 \<Rightarrow> (('w, 'r) dirstate, int) io" where
  "encfs_mkdir fe path mode =
     (if fu_readOnly fe then io_return (- EROFS)
      else
        io_bind (root_of fe False) (\<lambda>res.
        if res \<noteq> 0 then io_return res
        else
          let uid = (if fu_publicFilesystem fe then fu_uid fe else 0);
              gid = (if fu_publicFilesystem fe then fu_gid fe else 0)
          in io_catch
            (io_bind (dir_mkdir (fu_env fe) (fu_dn fe) path mode uid gid)
               (retry_as_parent fe (io_return (parentDirectory path)) (dir_mkdir (fu_env fe) (fu_dn fe) path mode uid)))
            (\<lambda>_. io_return (- EIO))))"

text \<open>A handler that changes the volume through one operation of \<open>DirNode\<close>.\<close>

definition with_root :: "('w, 'k, 'r) fuse_env \<Rightarrow> (('w, 'r) dirstate, int) io \<Rightarrow> (('w, 'r) dirstate, int) io" where
  "with_root fe act =
     (if fu_readOnly fe then io_return (- EROFS)
      else
        io_bind (root_of fe False) (\<lambda>res.
        if res \<noteq> 0 then io_return res else io_catch act (\<lambda>_. io_return (- EIO))))"

definition encfs_unlink :: "('w, 'k, 'r) fuse_env \<Rightarrow> bytes \<Rightarrow> (('w, 'r) dirstate, int) io" where
  "encfs_unlink fe path = with_root fe (dir_unlink (fu_env fe) (fu_dn fe) path)"

definition encfs_link :: "('w, 'k, 'r) fuse_env \<Rightarrow> bytes \<Rightarrow> bytes \<Rightarrow> (('w, 'r) dirstate, int) io" where
  "encfs_link fe to from = with_root fe (dir_link (fu_env fe) (fu_dn fe) to from)"

definition encfs_rename :: "('w, 'k, 'r) fuse_env \<Rightarrow> bytes \<Rightarrow> bytes \<Rightarrow> (('w, 'r) dirstate, int) io" where
  "encfs_rename fe from to = with_root fe (dir_rename (fu_env fe) (fu_dn fe) (fu_depth fe) from to)"

text \<open>The caller's identity around \<open>symlink\<close>; when the user cannot be set the group stays changed.\<close>

definition as_caller :: "('w, 'k, 'r) fuse_env \<Rightarrow> ('w \<Rightarrow> int \<times> 'w) \<Rightarrow> 'w \<Rightarrow> int \<times> 'w" where
  "as_caller fe act w =
     (let fsy = fe_fsys (fu_env fe) in
      if \<not> fu_publicFilesystem fe then act w
      else case fsy_setfsgid fsy (fu_gid fe) w of
        (oldgid, w) \<Rightarrow>
          if oldgid = -1 then (- EPERM, w)
          else (case fsy_setfsuid fsy (fu_uid fe) w of
            (olduid, w) \<Rightarrow>
              if olduid = -1 then (- EPERM, w)
              else (case act w of
                (res, w) \<Rightarrow>
                  let w = (if olduid \<ge> 0 then snd (fsy_setfsuid fsy olduid w) else w);
                      w = (if oldgid \<ge> 0 then snd (fsy_setfsgid fsy oldgid w) else w)
                  in (res, w))))"

definition encfs_symlink :: "('w, 'k, 'r) fuse_env \<Rightarrow> bytes \<Rightarrow> bytes \<Rightarrow> (('w, 'r) dirstate, int) io" where
  "encfs_symlink fe to from =
     with_root fe
       (io_bind (io_of (cipherPath (fu_dn fe) from)) (\<lambda>fromCName.
        io_bind (io_of (relativeCipherPath (fu_dn fe) to)) (\<lambda>toCName.
        io_bind (on_system (as_caller fe (fus_symlink (fu_sys fe) toCName fromCName))) (\<lambda>res.
        io_return (if res < 0 then res else 0)))))"

definition do_rmdir :: "('w, 'k, 'r) fuse_env \<Rightarrow> bytes \<Rightarrow> (('w, 'r) dirstate, int \<times> int) io" where
  "do_rmdir fe cyName = call (fus_rmdir (fu_sys fe) cyName)"

definition encfs_rmdir :: "('w, 'k, 'r) fuse_env \<Rightarrow> bytes \<Rightarrow> (('w, 'r) dirstate, int) io" where
  "encfs_rmdir fe path = (if fu_readOnly fe then io_return (- EROFS) else withCipherPath_int fe path (do_rmdir fe))"

text \<open>
  \<open>_do_readlink\<close>: \<open>readlink\<close> gets the buffer less one byte; the decoded name is cut to it.
\<close>

definition do_readlink ::
  "('w, 'k, 'r) fuse_env \<Rightarrow> nat \<Rightarrow> bytes \<Rightarrow> (('w, 'r) dirstate, int \<times> int \<times> bytes option) io" where
  "do_readlink fe bufsize cyName =
     io_bind (root_of fe False) (\<lambda>res.
     if res \<noteq> 0 then io_return (res, 0, None)
     else
       io_bind (on_system (fus_readlink (fu_sys fe) cyName (int bufsize - 1))) (\<lambda>r.
       case r of Inl e \<Rightarrow> io_return (e, - e, None)
       | Inr buf \<Rightarrow>
           io_bind (io_of (plainPath (fu_dn fe) (takeWhile (\<lambda>c. c \<noteq> 0) buf))) (\<lambda>decodedName.
           if decodedName \<noteq> [] then io_return (0, 0, Some (take (bufsize - 1) decodedName))
           else io_bind (io_get (\<lambda>s. fus_errno (fu_sys fe) (ds_world s))) (\<lambda>eno. io_return (-1, eno, None)))))"

definition encfs_readlink :: "('w, 'k, 'r) fuse_env \<Rightarrow> bytes \<Rightarrow> nat \<Rightarrow> (('w, 'r) dirstate, int \<times> bytes option) io" where
  "encfs_readlink fe path bufsize = withCipherPath fe path (do_readlink fe bufsize) False"

section \<open>Owners, modes and times\<close>

definition do_chmod :: "('w, 'k, 'r) fuse_env \<Rightarrow> u32 \<Rightarrow> bytes \<Rightarrow> (('w, 'r) dirstate, int \<times> int) io" where
  "do_chmod fe mode cyName = call (sys_chmod (fe_sys (fu_env fe)) cyName mode)"

definition encfs_chmod :: "('w, 'k, 'r) fuse_env \<Rightarrow> bytes \<Rightarrow> u32 \<Rightarrow> (('w, 'r) dirstate, int) io" where
  "encfs_chmod fe path mode = (if fu_readOnly fe then io_return (- EROFS) else withCipherPath_int fe path (do_chmod fe mode))"

text \<open>\<open>(res == -1) ? -errno : ok\<close>\<close>

definition errno_result :: "(int \<Rightarrow> int) \<Rightarrow> (('w, 'r) dirstate, int \<times> int) io \<Rightarrow> (('w, 'r) dirstate, int \<times> int) io" where
  "errno_result ok m = io_bind m (\<lambda>(res, eno). io_return (if res = -1 then - eno else ok res, eno))"

definition do_chown :: "('w, 'k, 'r) fuse_env \<Rightarrow> int \<Rightarrow> int \<Rightarrow> bytes \<Rightarrow> (('w, 'r) dirstate, int \<times> int) io" where
  "do_chown fe u g cyName = errno_result (\<lambda>_. 0) (call (fus_lchown (fu_sys fe) cyName u g))"

definition encfs_chown :: "('w, 'k, 'r) fuse_env \<Rightarrow> bytes \<Rightarrow> int \<Rightarrow> int \<Rightarrow> (('w, 'r) dirstate, int) io" where
  "encfs_chown fe path uid gid = (if fu_readOnly fe then io_return (- EROFS) else withCipherPath_int fe path (do_chown fe uid gid))"

definition do_utime :: "('w, 'k, 'r) fuse_env \<Rightarrow> int \<times> int \<Rightarrow> bytes \<Rightarrow> (('w, 'r) dirstate, int \<times> int) io" where
  "do_utime fe buf cyName = errno_result (\<lambda>_. 0) (call (fsy_utime (fe_fsys (fu_env fe)) cyName buf))"

definition encfs_utime :: "('w, 'k, 'r) fuse_env \<Rightarrow> bytes \<Rightarrow> int \<times> int \<Rightarrow> (('w, 'r) dirstate, int) io" where
  "encfs_utime fe path buf = (if fu_readOnly fe then io_return (- EROFS) else withCipherPath_int fe path (do_utime fe buf))"

definition do_utimens :: "('w, 'k, 'r) fuse_env \<Rightarrow> (int \<times> int) \<times> (int \<times> int) \<Rightarrow> bytes \<Rightarrow> (('w, 'r) dirstate, int \<times> int) io" where
  "do_utimens fe ts cyName = errno_result (\<lambda>_. 0) (call (fus_utimensat (fu_sys fe) cyName ts))"

definition encfs_utimens :: "('w, 'k, 'r) fuse_env \<Rightarrow> bytes \<Rightarrow> (int \<times> int) \<times> (int \<times> int) \<Rightarrow> (('w, 'r) dirstate, int) io" where
  "encfs_utimens fe path ts = (if fu_readOnly fe then io_return (- EROFS) else withCipherPath_int fe path (do_utimens fe ts))"

section \<open>Open files\<close>

definition do_truncate :: "('w, 'k, 'r) fuse_env \<Rightarrow> nat \<Rightarrow> nat \<Rightarrow> (('w, 'r) dirstate, int) io" where
  "do_truncate fe sz p = on_node p (node_truncate (fu_env fe) sz)"

definition encfs_truncate :: "('w, 'k, 'r) fuse_env \<Rightarrow> bytes \<Rightarrow> nat \<Rightarrow> (('w, 'r) dirstate, int) io" where
  "encfs_truncate fe path sz =
     (if fu_readOnly fe then io_return (- EROFS) else withFileNode fe id path 0 (do_truncate fe sz))"

definition encfs_ftruncate :: "('w, 'k, 'r) fuse_env \<Rightarrow> bytes \<Rightarrow> nat \<Rightarrow> u64 \<Rightarrow> (('w, 'r) dirstate, int) io" where
  "encfs_ftruncate fe path sz fh =
     (if fu_readOnly fe then io_return (- EROFS) else withFileNode fe id path fh (do_truncate fe sz))"

text \<open>The handle, when the file was opened. A new node that could not be opened has no descriptor to close.\<close>

definition encfs_open :: "('w, 'k, 'r) fuse_env \<Rightarrow> bytes \<Rightarrow> int \<Rightarrow> (('w, 'r) dirstate, int \<times> u64 option) io" where
  "encfs_open fe path flags =
     (if fu_readOnly fe \<and> (flags AND O_WRONLY \<noteq> 0 \<or> flags AND O_RDWR \<noteq> 0) then io_return (- EROFS, None)
      else
        io_bind (root_of fe False) (\<lambda>res.
        if res \<noteq> 0 then io_return (res, None)
        else io_catch
          (io_bind (openNode (fu_env fe) (fu_dn fe) path flags (- EIO)) (\<lambda>(fnode, res).
           case fnode of None \<Rightarrow> io_return (res, None)
           | Some p \<Rightarrow>
               if res \<ge> 0 then
                 io_bind (io_modify (\<lambda>s. s\<lparr>ds_ctx := putNode path p (ds_ctx s)\<rparr>)) (\<lambda>_.
                 io_bind (io_get (\<lambda>s. fn_fuseFh (ds_ctx s) p)) (\<lambda>fh. io_return (0, Some fh)))
               else io_return (res, None)))
          (\<lambda>_. io_return (- EIO, None))))"

definition encfs_create :: "('w, 'k, 'r) fuse_env \<Rightarrow> bytes \<Rightarrow> u32 \<Rightarrow> int \<Rightarrow> (('w, 'r) dirstate, int \<times> u64 option) io" where
  "encfs_create fe path mode flags =
     io_bind (encfs_mknod fe path mode 0) (\<lambda>res.
     if res \<noteq> 0 then io_return (res, None) else encfs_open fe path flags)"

definition do_flush :: "('w, 'k, 'r) fuse_env \<Rightarrow> nat \<Rightarrow> (('w, 'r) dirstate, int) io" where
  "do_flush fe p =
     io_bind (on_node p (node_open (fu_env fe) O_RDONLY)) (\<lambda>res.
     if res \<ge> 0 then
       io_bind (on_system (fus_dup (fu_sys fe) res)) (\<lambda>nfh.
       if nfh < 0 then io_return nfh else on_system (fsy_close (fe_fsys (fu_env fe)) nfh))
     else io_return res)"

definition encfs_flush :: "('w, 'k, 'r) fuse_env \<Rightarrow> bytes \<Rightarrow> u64 \<Rightarrow> (('w, 'r) dirstate, int) io" where
  "encfs_flush fe path fh = withFileNode fe id path fh (do_flush fe)"

definition encfs_release :: "('w, 'k, 'r) fuse_env \<Rightarrow> bytes \<Rightarrow> u64 \<Rightarrow> (('w, 'r) dirstate, int) io" where
  "encfs_release fe path fh =
     io_catch
       (io_bind (io_get (\<lambda>s. lookupFuseFh fh (ds_ctx s))) (\<lambda>fnode.
        io_bind (io_lift ds_ctx (\<lambda>c s. s\<lparr>ds_ctx := c\<rparr>) (eraseNode path fnode)) (\<lambda>_.
        io_bind (io_modify (case fnode of None \<Rightarrow> id | Some p \<Rightarrow> drop_node (fu_env fe) p)) (\<lambda>_. io_return 0))))
       (\<lambda>_. io_return (- EIO))"

definition do_read :: "('w, 'k, 'r) fuse_env \<Rightarrow> nat \<Rightarrow> nat \<Rightarrow> nat \<Rightarrow> (('w, 'r) dirstate, int + bytes) io" where
  "do_read fe sz off p = on_node p (node_read (fu_env fe) off sz)"

definition encfs_read :: "('w, 'k, 'r) fuse_env \<Rightarrow> bytes \<Rightarrow> nat \<Rightarrow> nat \<Rightarrow> u64 \<Rightarrow> (('w, 'r) dirstate, int + bytes) io" where
  "encfs_read fe path sz offset fh = withFileNode fe Inl path fh (do_read fe (min sz INT_MAX) offset)"

definition do_fsync :: "('w, 'k, 'r) fuse_env \<Rightarrow> int \<Rightarrow> nat \<Rightarrow> (('w, 'r) dirstate, int) io" where
  "do_fsync fe dataSync p = on_node p (node_sync (fu_env fe) (dataSync \<noteq> 0))"

definition encfs_fsync :: "('w, 'k, 'r) fuse_env \<Rightarrow> bytes \<Rightarrow> int \<Rightarrow> u64 \<Rightarrow> (('w, 'r) dirstate, int) io" where
  "encfs_fsync fe path dataSync fh =
     (if fu_readOnly fe then io_return (- EROFS) else withFileNode fe id path fh (do_fsync fe dataSync))"

definition do_write :: "('w, 'k, 'r) fuse_env \<Rightarrow> bytes \<Rightarrow> nat \<Rightarrow> nat \<Rightarrow> (('w, 'r) dirstate, int) io" where
  "do_write fe d off p = on_node p (node_write (fu_env fe) off d)"

definition encfs_write :: "('w, 'k, 'r) fuse_env \<Rightarrow> bytes \<Rightarrow> bytes \<Rightarrow> nat \<Rightarrow> u64 \<Rightarrow> (('w, 'r) dirstate, int) io" where
  "encfs_write fe path d offset fh =
     (if fu_readOnly fe then io_return (- EROFS) else withFileNode fe id path fh (do_write fe (take INT_MAX d) offset))"

section \<open>The file system and extended attributes\<close>

text \<open>\<open>unsigned long\<close> arithmetic.\<close>

definition encfs_statfs :: "('w, 'k, 'r) fuse_env \<Rightarrow> (('w, 'r) dirstate, int + u64) io" where
  "encfs_statfs fe =
     io_bind (on_system (fus_statvfs (fu_sys fe) (rootDirectory (fu_dn fe)))) (\<lambda>r.
     io_return (map_sum id (\<lambda>namemax. 6 * (namemax - 2) div 8) r))"

definition do_setxattr ::
  "('w, 'k, 'r) fuse_env \<Rightarrow> bytes \<Rightarrow> bytes \<Rightarrow> int \<Rightarrow> bytes \<Rightarrow> (('w, 'r) dirstate, int \<times> int) io" where
  "do_setxattr fe name v flags cyName = call (fus_lsetxattr (fu_sys fe) cyName name v flags)"

definition encfs_setxattr ::
  "('w, 'k, 'r) fuse_env \<Rightarrow> bytes \<Rightarrow> bytes \<Rightarrow> bytes \<Rightarrow> int \<Rightarrow> (('w, 'r) dirstate, int) io" where
  "encfs_setxattr fe path name v flags =
     (if fu_readOnly fe then io_return (- EROFS) else withCipherPath_int fe path (do_setxattr fe name v flags))"

text \<open>The calls that fill a buffer give the length and the bytes.\<close>

definition do_getxattr ::
  "('w, 'k, 'r) fuse_env \<Rightarrow> bytes \<Rightarrow> nat \<Rightarrow> bytes \<Rightarrow> (('w, 'r) dirstate, int \<times> int \<times> bytes option) io" where
  "do_getxattr fe name sz cyName =
     io_bind (on_system (fus_lgetxattr (fu_sys fe) cyName name sz)) (\<lambda>r.
     case r of Inl e \<Rightarrow> io_return (-1, - e, None) | Inr (n, v) \<Rightarrow> io_return (int n, 0, Some v))"

definition encfs_getxattr ::
  "('w, 'k, 'r) fuse_env \<Rightarrow> bytes \<Rightarrow> bytes \<Rightarrow> nat \<Rightarrow> (('w, 'r) dirstate, int \<times> bytes option) io" where
  "encfs_getxattr fe path name sz = withCipherPath fe path (do_getxattr fe name sz) True"

definition do_listxattr ::
  "('w, 'k, 'r) fuse_env \<Rightarrow> nat \<Rightarrow> bytes \<Rightarrow> (('w, 'r) dirstate, int \<times> int \<times> bytes option) io" where
  "do_listxattr fe sz cyName =
     io_bind (on_system (fus_llistxattr (fu_sys fe) cyName sz)) (\<lambda>r.
     case r of Inl e \<Rightarrow> io_return (e, - e, None) | Inr (n, v) \<Rightarrow> io_return (int n, 0, Some v))"

definition encfs_listxattr ::
  "('w, 'k, 'r) fuse_env \<Rightarrow> bytes \<Rightarrow> nat \<Rightarrow> (('w, 'r) dirstate, int \<times> bytes option) io" where
  "encfs_listxattr fe path sz = withCipherPath fe path (do_listxattr fe sz) True"

definition do_removexattr :: "('w, 'k, 'r) fuse_env \<Rightarrow> bytes \<Rightarrow> bytes \<Rightarrow> (('w, 'r) dirstate, int \<times> int) io" where
  "do_removexattr fe name cyName = errno_result id (call (fus_lremovexattr (fu_sys fe) cyName name))"

definition encfs_removexattr :: "('w, 'k, 'r) fuse_env \<Rightarrow> bytes \<Rightarrow> bytes \<Rightarrow> (('w, 'r) dirstate, int) io" where
  "encfs_removexattr fe path name =
     (if fu_readOnly fe then io_return (- EROFS) else withCipherPath_int fe path (do_removexattr fe name))"


section \<open>Requests\<close>

text \<open>
  The table of handlers that \<^verbatim>\<open>encfs/main.cpp\<close> gives to FUSE, as one function of a request.
\<close>

datatype request =
    Getattr bytes | Fgetattr bytes u64 | Readlink bytes nat | Readdir bytes
  | Mknod bytes u32 int | Mkdir bytes u32 | Unlink bytes | Rmdir bytes | Symlink bytes bytes | Rename bytes bytes
  | Link bytes bytes | Chmod bytes u32 | Chown bytes int int | Truncate bytes nat | Ftruncate bytes nat u64
  | Utime bytes "int \<times> int" | Utimens bytes "(int \<times> int) \<times> (int \<times> int)"
  | Open bytes int | Create bytes u32 int | Reading bytes nat nat u64 | Writing bytes bytes nat u64
  | Statfs | Flush bytes u64 | Release bytes u64 | Fsync bytes int u64
  | Setxattr bytes bytes bytes int | Getxattr bytes bytes nat | Listxattr bytes nat | Removexattr bytes bytes

datatype reply =
    Status int | Attributes "int + stat" | Content "int + bytes" | Buffer "int \<times> bytes option"
  | Entries "int \<times> dir_entry list" | Handle "int \<times> u64 option" | NameMax "int + u64"

definition reply_as :: "('a \<Rightarrow> reply) \<Rightarrow> ('s, 'a) io \<Rightarrow> ('s, reply) io" where
  "reply_as c m = io_bind m (\<lambda>x. io_return (c x))"

fun fuse_serve ::
  "('w, 'k, 'r) fuse_env \<Rightarrow> (dir_entry list \<Rightarrow> dir_entry \<Rightarrow> bool) \<Rightarrow> request \<Rightarrow> (('w, 'r) dirstate, reply) io" where
  "fuse_serve fe filler (Getattr path) = reply_as Attributes (encfs_getattr fe path)"
| "fuse_serve fe filler (Fgetattr path fh) = reply_as Attributes (encfs_fgetattr fe path fh)"
| "fuse_serve fe filler (Readlink path n) = reply_as Buffer (encfs_readlink fe path n)"
| "fuse_serve fe filler (Readdir path) = reply_as Entries (encfs_readdir fe filler path)"
| "fuse_serve fe filler (Mknod path mode rdev) = reply_as Status (encfs_mknod fe path mode rdev)"
| "fuse_serve fe filler (Mkdir path mode) = reply_as Status (encfs_mkdir fe path mode)"
| "fuse_serve fe filler (Unlink path) = reply_as Status (encfs_unlink fe path)"
| "fuse_serve fe filler (Rmdir path) = reply_as Status (encfs_rmdir fe path)"
| "fuse_serve fe filler (Symlink to from) = reply_as Status (encfs_symlink fe to from)"
| "fuse_serve fe filler (Rename from to) = reply_as Status (encfs_rename fe from to)"
| "fuse_serve fe filler (Link to from) = reply_as Status (encfs_link fe to from)"
| "fuse_serve fe filler (Chmod path mode) = reply_as Status (encfs_chmod fe path mode)"
| "fuse_serve fe filler (Chown path uid gid) = reply_as Status (encfs_chown fe path uid gid)"
| "fuse_serve fe filler (Truncate path sz) = reply_as Status (encfs_truncate fe path sz)"
| "fuse_serve fe filler (Ftruncate path sz fh) = reply_as Status (encfs_ftruncate fe path sz fh)"
| "fuse_serve fe filler (Utime path buf) = reply_as Status (encfs_utime fe path buf)"
| "fuse_serve fe filler (Utimens path ts) = reply_as Status (encfs_utimens fe path ts)"
| "fuse_serve fe filler (Open path flags) = reply_as Handle (encfs_open fe path flags)"
| "fuse_serve fe filler (Create path mode flags) = reply_as Handle (encfs_create fe path mode flags)"
| "fuse_serve fe filler (Reading path sz off fh) = reply_as Content (encfs_read fe path sz off fh)"
| "fuse_serve fe filler (Writing path d off fh) = reply_as Status (encfs_write fe path d off fh)"
| "fuse_serve fe filler Statfs = reply_as NameMax (encfs_statfs fe)"
| "fuse_serve fe filler (Flush path fh) = reply_as Status (encfs_flush fe path fh)"
| "fuse_serve fe filler (Release path fh) = reply_as Status (encfs_release fe path fh)"
| "fuse_serve fe filler (Fsync path ds fh) = reply_as Status (encfs_fsync fe path ds fh)"
| "fuse_serve fe filler (Setxattr path name v flags) = reply_as Status (encfs_setxattr fe path name v flags)"
| "fuse_serve fe filler (Getxattr path name n) = reply_as Buffer (encfs_getxattr fe path name n)"
| "fuse_serve fe filler (Listxattr path n) = reply_as Buffer (encfs_listxattr fe path n)"
| "fuse_serve fe filler (Removexattr path name) = reply_as Status (encfs_removexattr fe path name)"

fun fuse_session ::
  "('w, 'k, 'r) fuse_env \<Rightarrow> (dir_entry list \<Rightarrow> dir_entry \<Rightarrow> bool) \<Rightarrow> request list \<Rightarrow> ('w, 'r) dirstate \<Rightarrow>
   (exn + reply) list \<times> ('w, 'r) dirstate" where
  "fuse_session fe filler [] s = ([], s)"
| "fuse_session fe filler (r # rs) s =
     (case fuse_serve fe filler r s of (x, s) \<Rightarrow> case fuse_session fe filler rs s of (xs, s) \<Rightarrow> (x # xs, s))"

text \<open>The requests a read-only volume refuses.\<close>

fun modifying :: "request \<Rightarrow> bool" where
  "modifying (Open path flags) = (flags AND O_WRONLY \<noteq> 0 \<or> flags AND O_RDWR \<noteq> 0)"
| "modifying r = (case r of Getattr _ \<Rightarrow> False | Fgetattr _ _ \<Rightarrow> False | Readlink _ _ \<Rightarrow> False
     | Readdir _ \<Rightarrow> False | Reading _ _ _ _ \<Rightarrow> False | Flush _ _ \<Rightarrow> False | Release _ _ \<Rightarrow> False
     | Getxattr _ _ _ \<Rightarrow> False | Listxattr _ _ \<Rightarrow> False | Statfs \<Rightarrow> False | _ \<Rightarrow> True)"

definition refused :: "request \<Rightarrow> reply" where
  "refused r = (case r of Open _ _ \<Rightarrow> Handle (- EROFS, None) | Create _ _ _ \<Rightarrow> Handle (- EROFS, None) | _ \<Rightarrow> Status (- EROFS))"

lemma read_only_refuses:
  assumes "fu_readOnly fe" "modifying r"
  shows "fuse_serve fe filler r s = (Inr (refused r), s)"
  using assms
  by (cases r) (auto simp: reply_as_def refused_def io_simps EROFS_def encfs_mknod_def encfs_mkdir_def encfs_unlink_def
      encfs_rmdir_def encfs_symlink_def encfs_rename_def encfs_link_def encfs_chmod_def encfs_chown_def encfs_truncate_def
      encfs_ftruncate_def encfs_utime_def encfs_utimens_def encfs_open_def encfs_create_def encfs_write_def
      encfs_fsync_def encfs_setxattr_def encfs_removexattr_def with_root_def)


section \<open>The tree in memory, mounted\<close>

definition tree_fus :: "(bytes \<times> bool) list fusesys" where
  "tree_fus =
     \<lparr>fus_rmdir = (\<lambda>n w. (if (n, True) \<in> set w then 0 else - ENOENT, removeAll (n, True) w)),
      fus_readlink = (\<lambda>n k w. (Inl (- ENOENT), w)), fus_symlink = (\<lambda>a b w. (- EPERM, w)),
      fus_lchown = (\<lambda>n u g w. (- EACCES, w)), fus_utimensat = (\<lambda>n ts w. (0, w)), fus_dup = (\<lambda>fd w. (4, w)),
      fus_statvfs = (\<lambda>n w. (Inr 255, w)), fus_lsetxattr = (\<lambda>n a v f w. (- EPERM, w)),
      fus_lgetxattr = (\<lambda>n a k w. (Inl (- ENOENT), w)), fus_llistxattr = (\<lambda>n k w. (Inr (0, []), w)),
      fus_lremovexattr = (\<lambda>n a w. (- EPERM, w)), fus_errno = (\<lambda>w. 0)\<rparr>"

definition tree_fuse :: "bool \<Rightarrow> ((bytes \<times> bool) list, unit, unit) fuse_env" where
  "tree_fuse readOnly =
     \<lparr>fu_env = tree_env, fu_dn = tree_dn, fu_sys = tree_fus, fu_initFS = (\<lambda>_. True), fu_readOnly = readOnly,
      fu_publicFilesystem = False, fu_uid = 0, fu_gid = 0, fu_depth = 5\<rparr>"

lemma tree_fuse_simps [simp]:
  "fu_env (tree_fuse b) = tree_env" "fu_dn (tree_fuse b) = tree_dn" "fu_sys (tree_fuse b) = tree_fus"
  "fu_readOnly (tree_fuse b) = b"
  by (simp_all add: tree_fuse_def)


section \<open>Answers of the path handlers\<close>

text \<open>A volume that is mounted.\<close>

definition mounted :: "('w, 'r) dirstate \<Rightarrow> bool" where
  "mounted s = (ctx_root (ds_ctx s) \<and> \<not> isUnmounting (ds_ctx s))"

lemma root_of_mounted:
  assumes "mounted s"
  shows "root_of fe b s = (Inr 0, s\<lparr>ds_ctx := (ds_ctx s)\<lparr>usageCount := usageCount (ds_ctx s) + (if b then 0 else 1)\<rparr>\<rparr>)"
  using assms by (cases b) (simp_all add: root_of_def io_lift_def mounted_def numeral_2_eq_2)

lemma mounted_count [simp]:
  "mounted (s\<lparr>ds_ctx := (ds_ctx s)\<lparr>usageCount := n\<rparr>\<rparr>) = mounted s"
  "mounted (s\<lparr>ds_world := w\<rparr>) = mounted s"
  by (simp_all add: mounted_def)

lemma withCipherPath_runs:
  assumes "mounted s" "cipherPath (fu_dn fe) path = Inr c"
    and "op c (s\<lparr>ds_ctx := (ds_ctx s)\<lparr>usageCount := usageCount (ds_ctx s) + 1\<rparr>\<rparr>) = (Inr (res, eno, out), s')"
  shows "withCipherPath fe path op pass s =
    (Inr (if res = -1 then - eno else if pass then res else 0, out), s')"
  using assms root_of_mounted [OF assms(1), of fe False]
  by (auto simp: withCipherPath_def io_bind_split io_simps io_catch_def)

text \<open>The two kinds of functors: -1 with \<open>errno\<close>, and a negated error number, of which only \<open>EPERM\<close> is passed on.\<close>

lemma path_call:
  assumes "mounted s" "cipherPath (fu_dn fe) path = Inr c" "f c (ds_world s) = (r, w')"
  shows "fst (withCipherPath_int fe path (\<lambda>c. call (f c)) s) = Inr (if r < 0 then r else 0)"
proof -
  let ?op = "\<lambda>c. io_bind (call (f c)) (\<lambda>(res, eno). io_return (res, eno, None :: unit option))"
  let ?s = "s\<lparr>ds_ctx := (ds_ctx s)\<lparr>usageCount := usageCount (ds_ctx s) + 1\<rparr>\<rparr>"
  have "?op c ?s = (Inr (if r < 0 then -1 else r, if r < 0 then - r else 0, None), ?s\<lparr>ds_world := w'\<rparr>)"
    using assms(3) by (simp add: io_bind_split call_def io_simps)
  from withCipherPath_runs [of s fe path c ?op, OF assms(1,2) this, of False] show ?thesis
    by (simp add: withCipherPath_int_def io_bind_split io_simps)
qed

lemma path_errno_result:
  assumes "mounted s" "cipherPath (fu_dn fe) path = Inr c" "f c (ds_world s) = (r, w')"
  shows "fst (withCipherPath_int fe path (\<lambda>c. errno_result ok (call (f c))) s) = Inr (if r = - EPERM then r else 0)"
proof -
  let ?op = "\<lambda>c. io_bind (errno_result ok (call (f c))) (\<lambda>(res, eno). io_return (res, eno, None :: unit option))"
  let ?s = "s\<lparr>ds_ctx := (ds_ctx s)\<lparr>usageCount := usageCount (ds_ctx s) + 1\<rparr>\<rparr>"
  have "?op c ?s = (Inr (if r < 0 then r else ok r, if r < 0 then - r else 0, None), ?s\<lparr>ds_world := w'\<rparr>)"
    using assms(3) by (simp add: io_bind_split errno_result_def call_def io_simps)
  from withCipherPath_runs [of s fe path c ?op, OF assms(1,2) this, of False] show ?thesis
    by (auto simp: withCipherPath_int_def io_bind_split io_simps EPERM_def)
qed


text \<open>
  Claim C40. What the kernel learns of a failed call. On a mounted volume \<open>rmdir\<close>, \<open>chmod\<close> and \<open>setxattr\<close>
  report the error of the system call; \<open>chown\<close>, \<open>utime\<close>, \<open>utimens\<close> and \<open>removexattr\<close> report success for every error
  but \<open>EPERM\<close>, and so does \<open>readlink\<close>, which then leaves the buffer as it was.
\<close>

theorem path_errors:
  assumes "mounted s" "\<not> fu_readOnly fe" "cipherPath (fu_dn fe) path = Inr c"
  shows "fst (encfs_rmdir fe path s) = Inr (min 0 (fst (fus_rmdir (fu_sys fe) c (ds_world s)))) \<and>
    fst (encfs_chmod fe path mode s) = Inr (min 0 (fst (sys_chmod (fe_sys (fu_env fe)) c mode (ds_world s)))) \<and>
    fst (encfs_setxattr fe path name v flags s) = Inr (min 0 (fst (fus_lsetxattr (fu_sys fe) c name v flags (ds_world s)))) \<and>
    fst (encfs_chown fe path uid gid s) =
      Inr (if fst (fus_lchown (fu_sys fe) c uid gid (ds_world s)) = - EPERM then - EPERM else 0) \<and>
    fst (encfs_utime fe path ut s) =
      Inr (if fst (fsy_utime (fe_fsys (fu_env fe)) c ut (ds_world s)) = - EPERM then - EPERM else 0) \<and>
    fst (encfs_utimens fe path ts s) =
      Inr (if fst (fus_utimensat (fu_sys fe) c ts (ds_world s)) = - EPERM then - EPERM else 0) \<and>
    fst (encfs_removexattr fe path name s) =
      Inr (if fst (fus_lremovexattr (fu_sys fe) c name (ds_world s)) = - EPERM then - EPERM else 0) \<and>
    (\<forall>e w'. fus_readlink (fu_sys fe) c (int k - 1) (ds_world s) = (Inl e, w') \<longrightarrow>
       fst (encfs_readlink fe path k s) = Inr (if e = - EPERM then - EPERM else 0, None))"
proof -
  note call = path_call [OF assms(1,3), OF prod.collapse [symmetric]]
  note lost = path_errno_result [OF assms(1,3), OF prod.collapse [symmetric]]
  have m: "(if r < 0 then r else 0) = min 0 r" for r :: int by simp
  have "fst (encfs_rmdir fe path s) = Inr (min 0 (fst (fus_rmdir (fu_sys fe) c (ds_world s))))"
    using call [where f = "fus_rmdir (fu_sys fe)"] assms(2) by (simp add: encfs_rmdir_def do_rmdir_def [abs_def] m)
  moreover have "fst (encfs_chmod fe path mode s) = Inr (min 0 (fst (sys_chmod (fe_sys (fu_env fe)) c mode (ds_world s))))"
    using call [where f = "\<lambda>c. sys_chmod (fe_sys (fu_env fe)) c mode"] assms(2) by (simp add: encfs_chmod_def do_chmod_def [abs_def] m)
  moreover have "fst (encfs_setxattr fe path name v flags s) = Inr (min 0 (fst (fus_lsetxattr (fu_sys fe) c name v flags (ds_world s))))"
    using call [where f = "\<lambda>c. fus_lsetxattr (fu_sys fe) c name v flags"] assms(2)
    by (simp add: encfs_setxattr_def do_setxattr_def [abs_def] m)
  moreover have "fst (encfs_chown fe path uid gid s) =
      Inr (if fst (fus_lchown (fu_sys fe) c uid gid (ds_world s)) = - EPERM then - EPERM else 0)"
    using lost [where f = "\<lambda>c. fus_lchown (fu_sys fe) c uid gid" and ok = "\<lambda>_. 0"] assms(2)
    by (simp add: encfs_chown_def do_chown_def [abs_def])
  moreover have "fst (encfs_utime fe path ut s) =
      Inr (if fst (fsy_utime (fe_fsys (fu_env fe)) c ut (ds_world s)) = - EPERM then - EPERM else 0)"
    using lost [where f = "\<lambda>c. fsy_utime (fe_fsys (fu_env fe)) c ut" and ok = "\<lambda>_. 0"] assms(2)
    by (simp add: encfs_utime_def do_utime_def [abs_def])
  moreover have "fst (encfs_utimens fe path ts s) =
      Inr (if fst (fus_utimensat (fu_sys fe) c ts (ds_world s)) = - EPERM then - EPERM else 0)"
    using lost [where f = "\<lambda>c. fus_utimensat (fu_sys fe) c ts" and ok = "\<lambda>_. 0"] assms(2)
    by (simp add: encfs_utimens_def do_utimens_def [abs_def])
  moreover have "fst (encfs_removexattr fe path name s) =
      Inr (if fst (fus_lremovexattr (fu_sys fe) c name (ds_world s)) = - EPERM then - EPERM else 0)"
    using lost [where f = "\<lambda>c. fus_lremovexattr (fu_sys fe) c name" and ok = id] assms(2)
    by (simp add: encfs_removexattr_def do_removexattr_def [abs_def])
  moreover have "fst (encfs_readlink fe path k s) = Inr (if e = - EPERM then - EPERM else 0, None)"
    if "fus_readlink (fu_sys fe) c (int k - 1) (ds_world s) = (Inl e, w')" for e w'
  proof -
    let ?s = "s\<lparr>ds_ctx := (ds_ctx s)\<lparr>usageCount := usageCount (ds_ctx s) + 1\<rparr>\<rparr>"
    let ?t = "?s\<lparr>ds_ctx := (ds_ctx ?s)\<lparr>usageCount := usageCount (ds_ctx ?s) + 1\<rparr>\<rparr>"
    have "do_readlink fe k c ?s = (Inr (e, - e, None), ?t\<lparr>ds_world := w'\<rparr>)"
      using that root_of_mounted [of ?s fe False] assms(1)
      by (simp add: do_readlink_def io_bind_split io_simps on_system_def)
    from withCipherPath_runs [of s fe path c "do_readlink fe k", OF assms(1,3) this, of False] show ?thesis
      by (auto simp: encfs_readlink_def EPERM_def)
  qed
  ultimately show ?thesis by blast
qed

theorem path_errors_witness:
  "fst (fus_lchown tree_fus (str ''r/Ad'') 5 5 (ds_world demo_tree)) = - EACCES \<and>
   fst (encfs_chown (tree_fuse False) (str ''/d'') 5 5 (demo_tree\<lparr>ds_ctx := setRoot True (ds_ctx demo_tree)\<rparr>)) = Inr 0"
proof -
  let ?s = "demo_tree\<lparr>ds_ctx := setRoot True (ds_ctx demo_tree)\<rparr>"
  have m: "mounted ?s" by (simp add: mounted_def demo_tree_def setRoot_def putNode_def newNode_def nextFuseFh_def EncFS_Context_def)
  have ro: "\<not> fu_readOnly (tree_fuse False)" by simp
  have c: "cipherPath (fu_dn (tree_fuse False)) (str ''/d'') = Inr (str ''r/Ad'')" unfolding tree_fuse_simps by code_simp
  have e: "fst (fus_lchown tree_fus (str ''r/Ad'') 5 5 (ds_world demo_tree)) = - EACCES" by (simp add: tree_fus_def)
  from path_errors [OF m ro c, of 0 "[]" "[]" 0 5 5] show ?thesis
    using e by (auto simp: tree_fus_def EACCES_def EPERM_def)
qed


end
