(* ===== verification/Read_Only.thy ===== *)
theory Read_Only
  imports Fuse_Ops
begin

text \<open>
  A volume that is mounted read-only. Requests that would change it are refused by the handlers; this theory
  shows that the others do not change it either, down to the system calls: attributes, listings, reads,
  opening for reading, flushing and releasing leave what is stored as it is, although a read may have to create a
  header and opening may have to change the mode of a file for a moment.

  \<^item> \<open>keeps P m\<close>: the operation \<open>m\<close> preserves the property \<open>P\<close> of its state, also when it raises.
  \<^item> \<open>passive_file\<close>: the contract of a layer that is not open for writing; each layer of the stack gets it from
    the one below.
  \<^item> \<open>quiet_system\<close>: the calls that only look do not change what is stored.
\<close>

section \<open>Preserved properties\<close>

definition keeps :: "('s \<Rightarrow> bool) \<Rightarrow> ('s, 'a) io \<Rightarrow> bool" where
  "keeps P m = (\<forall>s. P s \<longrightarrow> P (snd (m s)))"

named_theorems keeps_rules \<open>preservation by the combinators\<close>

lemma keepsI: "(\<And>s r s'. P s \<Longrightarrow> m s = (r, s') \<Longrightarrow> P s') \<Longrightarrow> keeps P m"
  unfolding keeps_def by (metis prod.collapse)

lemma keepsD: "keeps P m \<Longrightarrow> P s \<Longrightarrow> m s = (r, s') \<Longrightarrow> P s'"
  unfolding keeps_def by (metis snd_conv)

lemma keeps_return [keeps_rules]: "keeps P (io_return x)" and keeps_throw [keeps_rules]: "keeps P (io_throw e)"
  and keeps_get [keeps_rules]: "keeps P (io_get f)" and keeps_of [keeps_rules]: "keeps P (io_of q)"
  and keeps_rAssert [keeps_rules]: "keeps P (rAssert b msg)"
  by (auto simp: keeps_def io_return_def io_throw_def io_get_def io_of_def rAssert_def)

lemma keeps_bind [keeps_rules]: "keeps P m \<Longrightarrow> (\<And>x. keeps P (k x)) \<Longrightarrow> keeps P (io_bind m k)"
  by (auto simp: keeps_def io_bind_def split: prod.split sum.split)

text \<open>What the property says about a value that is read of the state.\<close>

lemma keeps_bind_get:
  assumes "\<And>x. \<exists>s. P s \<and> f s = x \<Longrightarrow> keeps P (k x)"
  shows "keeps P (io_bind (io_get f) k)"
  using assms by (auto simp: keeps_def io_bind_def io_get_def)

lemma keeps_catch [keeps_rules]: "keeps P m \<Longrightarrow> (\<And>x. keeps P (h x)) \<Longrightarrow> keeps P (io_catch m h)"
  by (auto simp: keeps_def io_catch_def split: prod.split sum.split exn.split)

lemma keeps_modify: "(\<And>s. P s \<Longrightarrow> P (f s)) \<Longrightarrow> keeps P (io_modify f)"
  by (simp add: keeps_def io_modify_def)

lemma keeps_if [keeps_rules]: "(b \<Longrightarrow> keeps P m) \<Longrightarrow> (\<not> b \<Longrightarrow> keeps P n) \<Longrightarrow> keeps P (if b then m else n)"
  by simp

lemma keeps_Let [keeps_rules]: "(\<And>x. keeps P (f x)) \<Longrightarrow> keeps P (Let e f)"
  by simp

lemma keeps_option [keeps_rules]:
  "keeps P m \<Longrightarrow> (\<And>x. keeps P (n x)) \<Longrightarrow> keeps P (case q of None \<Rightarrow> m | Some x \<Rightarrow> n x)"
  by (cases q) simp_all

lemma keeps_sum [keeps_rules]:
  "(\<And>x. keeps P (m x)) \<Longrightarrow> (\<And>x. keeps P (n x)) \<Longrightarrow> keeps P (case q of Inl x \<Rightarrow> m x | Inr x \<Rightarrow> n x)"
  by (cases q) simp_all

lemma keeps_prod [keeps_rules]: "(\<And>x y. keeps P (m x y)) \<Longrightarrow> keeps P (case q of (x, y) \<Rightarrow> m x y)"
  by (cases q) simp

lemma keeps_lift:
  assumes "keeps Q m" "\<And>s. P s \<Longrightarrow> Q (g s)" "\<And>s b. P s \<Longrightarrow> Q b \<Longrightarrow> P (p b s)"
  shows "keeps P (io_lift g p m)"
proof (rule keepsI)
  fix s r s' assume P: "P s" and run: "io_lift g p m s = (r, s')"
  obtain b where "m (g s) = (r, b)" "s' = p b s" using run by (auto simp: io_lift_def split: prod.splits)
  then show "P s'" using keepsD [OF assms(1) assms(2) [OF P]] assms(3) [OF P] by simp
qed

section \<open>Layers that are not open for writing\<close>

definition looks :: "int \<Rightarrow> bool" where
  "looks flags = (flags AND O_WRONLY = 0 \<and> flags AND O_RDWR = 0)"

locale passive_file =
  fixes fio :: "'s fileio" and Q :: "'s \<Rightarrow> bool"
  assumes getAttr: "keeps Q (fio_getAttr fio)" and getSize: "keeps Q (fio_getSize fio)"
    and reads: "keeps Q (fio_read fio off len)" and opens: "looks flags \<Longrightarrow> keeps Q (fio_open fio flags)"
    and writable: "Q s \<Longrightarrow> \<not> fio_isWritable fio s"

text \<open>The block layer reads through its two operations.\<close>

lemma keeps_cacheRead:
  assumes "\<And>off n. keeps P (readOneBlock ops off n)"
    and cache: "\<And>s d o'. P s \<Longrightarrow> P (s\<lparr>bf_cache_offset := o', bf_cache_data := d\<rparr>)" "\<And>s d. P s \<Longrightarrow> P (s\<lparr>bf_cache_data := d\<rparr>)"
  shows "keeps P (cacheReadOneBlock ops off len)"
proof (rule keepsI)
  fix s r s' assume P: "P s" and run: "cacheReadOneBlock ops off len s = (r, s')"
  obtain q t where q: "readOneBlock ops off (bf_blockSize s) (clearCache s) = (q, t)" by fastforce
  have "P t" using keepsD [OF assms(1) _ q] cache(2) [OF P] by (simp add: clearCache_def)
  then show "P s'" using run q P cache
    by (auto simp: cacheReadOneBlock_def split: if_splits sum.splits)
qed

lemma keeps_read_loop:
  assumes "\<And>off len. keeps P (cacheReadOneBlock ops off len)"
  shows "keeps P (read_loop ops len blockNum po out)"
proof (induction len arbitrary: blockNum po out rule: less_induct)
  case (less len)
  show ?case
  proof (rule keepsI)
    fix s r s' assume P: "P s" and run: "read_loop ops len blockNum po out s = (r, s')"
    obtain q t where q: "cacheReadOneBlock ops (blockNum * bf_blockSize s) (bf_blockSize s) s = (q, t)" by fastforce
    have t: "P t" by (rule keepsD [OF assms P q])
    note step = run [unfolded read_loop.simps [of ops len]]
    show "P s'"
    proof (cases "\<exists>d. len \<noteq> 0 \<and> q = Inr (Inr d) \<and> po < length d \<and> \<not> length d < bf_blockSize s")
      case True
      then obtain d where d: "len \<noteq> 0" "q = Inr (Inr d)" "po < length d" "\<not> length d < bf_blockSize s" by blast
      let ?n = "min (length d - po) len"
      have "read_loop ops (len - ?n) (Suc blockNum) 0 (out @ take ?n (drop po d)) t = (r, s')"
        using step q d by (simp add: Let_def)
      moreover have "len - ?n < len" using d(1,3) by simp
      ultimately show ?thesis using keepsD [OF less.IH t] by blast
    next
      case False
      then show ?thesis using step q P t by (auto simp: Let_def split: if_splits sum.splits)
    qed
  qed
qed

lemma keeps_block_read:
  assumes "\<And>off n. keeps P (readOneBlock ops off n)"
    and "\<And>s d o'. P s \<Longrightarrow> P (s\<lparr>bf_cache_offset := o', bf_cache_data := d\<rparr>)" "\<And>s d. P s \<Longrightarrow> P (s\<lparr>bf_cache_data := d\<rparr>)"
  shows "keeps P (block_read ops off len)"
proof (rule keepsI)
  note c = keeps_cacheRead [of P ops, OF assms]
  fix s r s' assume P: "P s" and run: "block_read ops off len s = (r, s')"
  show "P s'"
    using run P keepsD [OF c P] keepsD [OF keeps_read_loop [OF c] P]
    by (auto simp: block_read_def Let_def split: if_splits)
qed

text \<open>The encrypting layer: without a header on disk it draws a vector, but does not store it.\<close>

locale passive_cipher = passive_file "ce_base env" Q for env :: "('b, 'k, 'r) cipher_env" and Q
begin

abbreviation held :: "('b, 'r) cipherfileio \<Rightarrow> bool" where
  "held s \<equiv> Q (cf_base s)"

lemma base_keeps: "keeps Q m \<Longrightarrow> keeps held (on_base m)"
  unfolding on_base_def by (rule keeps_lift) auto

lemmas passive_rules = keeps_rules base_keeps getAttr getSize reads

lemma writable_bind:
  "keeps held (k False) \<Longrightarrow> keeps held (io_bind (io_get (\<lambda>s. fio_isWritable (ce_base env) (cf_base s))) k)"
  using writable by (intro keeps_bind_get) auto

lemma draw_keeps: "keeps held (\<lambda>s. case f (cf_rng s) of (r, rng) \<Rightarrow> (r, s\<lparr>cf_rng := rng\<rparr>))"
  by (auto simp: keeps_def split: prod.split)

lemma fileIV_keeps: "keeps held (io_modify (\<lambda>s. s\<lparr>cf_fileIV := iv\<rparr>))"
  by (rule keeps_modify) simp

lemma initHeader_keeps: "keeps held (initHeader env)"
  unfolding initHeader_def
  by (rule writable_bind draw_keeps fileIV_keeps passive_rules | simp)+

lemma getAttr_keeps: "keeps held (cipher_getAttr env)" and getSize_keeps: "keeps held (cipher_getSize env)"
  unfolding cipher_getAttr_def cipher_getSize_def by (rule passive_rules)+

lemma readOneBlock_keeps: "keeps held (cipher_readOneBlock env off len)"
  unfolding cipher_readOneBlock_def by (rule initHeader_keeps passive_rules)+

lemma block_keeps: "keeps held (block_read (cipher_ops env) off len)"
  by (rule keeps_block_read) (simp_all add: cipher_ops_def readOneBlock_keeps)

lemma reverse_keeps: "keeps held (generateReverseHeader env)"
  unfolding generateReverseHeader_def by (rule getAttr_keeps fileIV_keeps passive_rules)+

lemma read_keeps: "keeps held (cipher_read env off len)"
  unfolding cipher_read_def by (rule block_keeps reverse_keeps passive_rules)+

lemma open_keeps: "looks flags \<Longrightarrow> keeps held (cipher_open env flags)"
  unfolding cipher_open_def by (rule opens keeps_modify passive_rules | simp)+

end

sublocale passive_cipher \<subseteq> cipher: passive_file "cipher_fileio env" held
  by unfold_locales (simp_all add: cipher_fileio_def getAttr_keeps getSize_keeps read_keeps open_keeps writable)

locale passive_mac = passive_file "me_base env" Q for env :: "('b, 'k, 'r) mac_env" and Q
begin

abbreviation held :: "('b, 'r) macfileio \<Rightarrow> bool" where
  "held s \<equiv> Q (mf_base s)"

lemma base_keeps: "keeps Q m \<Longrightarrow> keeps held (mac_on_base m)"
  unfolding mac_on_base_def by (rule keeps_lift) auto

lemmas passive_rules = keeps_rules base_keeps getAttr getSize reads opens

lemma getAttr_keeps: "keeps held (mac_getAttr env)" and getSize_keeps: "keeps held (mac_getSize env)"
  unfolding mac_getAttr_def mac_getSize_def by (rule passive_rules)+

lemma readOneBlock_keeps: "keeps held (mac_readOneBlock env off len)"
  unfolding mac_readOneBlock_def by (rule passive_rules)+

lemma read_keeps: "keeps held (block_read (mac_ops env) off len)"
  by (rule keeps_block_read) (simp_all add: mac_ops_def readOneBlock_keeps)

end

sublocale passive_mac \<subseteq> mac: passive_file "mac_fileio env" held
  by unfold_locales (simp_all add: mac_fileio_def getAttr_keeps getSize_keeps read_keeps writable base_keeps opens)

section \<open>A system that stores\<close>

text \<open>
  \<open>stored\<close> is what a state of the system holds of the volume: names, contents, links and attributes, but not the modes of
  files, which opening may change for a moment. Calls that look leave it as it is.
\<close>

locale quiet_system =
  fixes sys :: "'w sys" and fsy :: "'w filesys" and fus :: "'w fusesys" and stored :: "'w \<Rightarrow> 't"
  assumes sys_quiet: "looks flags \<Longrightarrow> stored (snd (sys_open sys path flags w)) = stored w"
      "stored (snd (sys_lstat sys path w)) = stored w" "stored (snd (sys_chmod sys path mode w)) = stored w"
      "stored (snd (sys_pread sys fd len off w)) = stored w" "stored (sys_close sys fd w) = stored w"
    and fsy_quiet: "stored (snd (fsy_readdir fsy path w)) = stored w" "stored (snd (fsy_close fsy fd w)) = stored w"
    and fus_quiet: "stored (snd (fus_readlink fus path n w)) = stored w" "stored (snd (fus_dup fus fd w)) = stored w"
      "stored (snd (fus_statvfs fus path w)) = stored w" "stored (snd (fus_lgetxattr fus path name sz w)) = stored w"
      "stored (snd (fus_llistxattr fus path sz w)) = stored w"
begin

lemma quietD:
  "looks flags \<Longrightarrow> sys_open sys path flags w = (r, w') \<Longrightarrow> stored w' = stored w"
  "sys_lstat sys path w = (r', w') \<Longrightarrow> stored w' = stored w" "sys_chmod sys path mode w = (r, w') \<Longrightarrow> stored w' = stored w"
  "sys_pread sys fd len off w = (r'', w') \<Longrightarrow> stored w' = stored w"
  using sys_quiet by (metis snd_conv)+

lemma workaround_quiet:
  assumes "looks flags" "open_readonly_workaround sys path flags w = (r, w')"
  shows "stored w' = stored w"
proof -
  obtain a w1 where a: "sys_lstat sys path w = (a, w1)" by fastforce
  have 1: "stored w1 = stored w" using quietD(2) [OF a] .
  show ?thesis
  proof (cases a)
    case (Inr st)
    obtain b w2 where b: "sys_chmod sys path (st_mode st OR 0x180) w1 = (b, w2)" by fastforce
    obtain c w3 where c: "sys_open sys path flags w2 = (c, w3)" by fastforce
    obtain d w4 where d: "sys_chmod sys path (st_mode st) w3 = (d, w4)" by fastforce
    show ?thesis using assms(2) a b c d Inr 1 quietD(3) [OF b] quietD(1) [OF assms(1) c] quietD(3) [OF d]
      by (auto simp: open_readonly_workaround_def split: if_splits)
  qed (use assms(2) a 1 in \<open>auto simp: open_readonly_workaround_def\<close>)
qed

definition raw_quiet :: "'t \<Rightarrow> 'w rawfileio \<Rightarrow> bool" where
  "raw_quiet c s = (\<not> raw_canWrite s \<and> stored (raw_world s) = c)"

lemma raw_open_quiet:
  assumes "looks flags"
  shows "keeps (raw_quiet c) (raw_open sys flags)"
proof (rule keepsI)
  fix s r s' assume q: "raw_quiet c s" and run: "raw_open sys flags s = (r, s')"
  define final where "final = (if flags AND O_LARGEFILE \<noteq> 0 then O_RDONLY OR O_LARGEFILE else O_RDONLY)"
  have f: "looks final" by (simp add: final_def looks_def O_RDONLY_def O_LARGEFILE_def O_WRONLY_def O_RDWR_def)
  have nw: "flags AND O_RDWR = 0" "flags AND O_WRONLY = 0" using assms by (simp_all add: looks_def)
  obtain fd w1 where o: "sys_open sys (raw_name s) final (raw_world s) = (fd, w1)" by fastforce
  obtain fd' w2 where o2: "open_readonly_workaround sys (raw_name s) final w1 = (fd', w2)" by fastforce
  have "stored w1 = stored (raw_world s)" "stored w2 = stored w1" using quietD(1) [OF f o] workaround_quiet [OF f o2] .
  then show "raw_quiet c s'"
    using run o o2 q nw by (auto simp: raw_open_def raw_quiet_def Let_def simp flip: final_def split: if_splits)
qed

end

sublocale quiet_system \<subseteq> raw: passive_file "raw_fileio sys" "raw_quiet c" for c
proof
  show "keeps (raw_quiet c) (fio_getAttr (raw_fileio sys))" "keeps (raw_quiet c) (fio_getSize (raw_fileio sys))"
    "keeps (raw_quiet c) (fio_read (raw_fileio sys) off len)" for off len
    by (auto simp: keeps_def raw_quiet_def raw_fileio_def raw_getAttr_def raw_getSize_def raw_read_def quietD
        split: prod.split sum.split)
  show "looks flags \<Longrightarrow> keeps (raw_quiet c) (fio_open (raw_fileio sys) flags)" for flags
    using raw_open_quiet by (simp add: raw_fileio_def)
  show "raw_quiet c s \<Longrightarrow> \<not> fio_isWritable (raw_fileio sys) s" for s by (simp add: raw_quiet_def raw_fileio_def)
qed

section \<open>Nodes\<close>

lemma either_keeps:
  assumes "keeps QA f" "keeps QB g"
  shows "keeps (case_sum QA QB) (either_io f g)"
proof (rule keepsI)
  fix s r s' assume "case_sum QA QB s" "either_io f g s = (r, s')"
  then show "case_sum QA QB s'" using assms by (cases s) (auto dest: keepsD split: prod.splits)
qed

lemma either_passive:
  assumes a: "passive_file a QA" and b: "passive_file b QB"
  shows "passive_file (either_fileio a b) (case_sum QA QB)"
proof
  note both = either_keeps [OF passive_file.getAttr [OF a] passive_file.getAttr [OF b]]
    either_keeps [OF passive_file.getSize [OF a] passive_file.getSize [OF b]]
    either_keeps [OF passive_file.reads [OF a] passive_file.reads [OF b]]
    either_keeps [OF passive_file.opens [OF a] passive_file.opens [OF b]]
  show "keeps (case_sum QA QB) (fio_getAttr (either_fileio a b))" "keeps (case_sum QA QB) (fio_getSize (either_fileio a b))"
    "keeps (case_sum QA QB) (fio_read (either_fileio a b) off len)" for off len
    using both by (simp_all add: either_fileio_def)
  show "looks flags \<Longrightarrow> keeps (case_sum QA QB) (fio_open (either_fileio a b) flags)" for flags
    using both(4) by (simp add: either_fileio_def)
  show "case_sum QA QB s \<Longrightarrow> \<not> fio_isWritable (either_fileio a b) s" for s
    using passive_file.writable [OF a] passive_file.writable [OF b] by (cases s) (simp_all add: either_fileio_def)
qed

fun raw_part :: "('w, 'r) node_io \<Rightarrow> 'w rawfileio" where
  "raw_part (Inl s) = cf_base s"
| "raw_part (Inr s) = cf_base (mf_base s)"

fun external_part :: "('w, 'r) node_io \<Rightarrow> u64" where
  "external_part (Inl s) = cf_externalIV s"
| "external_part (Inr s) = cf_externalIV (mf_base s)"

lemma raw_part_world [simp]:
  "raw_world (raw_part io) = io_world io" "raw_canWrite (raw_part (set_io_world w io)) = raw_canWrite (raw_part io)"
  "external_part (set_io_world w io) = external_part io"
  by (cases io; simp)+

text \<open>A new node is not open, and has no external vector.\<close>

lemma new_node_closed:
  assumes "FileNode_new env cfg pn cn fh w = Inr n"
  shows "\<not> raw_canWrite (raw_part (fnode_io n)) \<and> external_part (fnode_io n) = 0"
  using assms by (auto simp: FileNode_new_def CipherFileIO_new_def MACFileIO_new_def RawFileIO_new_def Let_def
      split: sum.splits if_splits)

locale quiet_volume = quiet_system "fe_sys (fu_env fe)" "fe_fsys (fu_env fe)" "fu_sys fe" stored
  for fe :: "('w, 'k, 'r) fuse_env" and stored :: "'w \<Rightarrow> 't"
begin

abbreviation "env \<equiv> fu_env fe"
abbreviation "dn \<equiv> fu_dn fe"

definition io_quiet :: "'t \<Rightarrow> ('w, 'r) node_io \<Rightarrow> bool" where
  "io_quiet c = case_sum (\<lambda>s. raw_quiet c (cf_base s)) (\<lambda>s. raw_quiet c (cf_base (mf_base s)))"

lemma io_quiet_iff: "io_quiet c io \<longleftrightarrow> \<not> raw_canWrite (raw_part io) \<and> stored (io_world io) = c"
  by (cases io) (auto simp: io_quiet_def raw_quiet_def)

end

sublocale quiet_volume \<subseteq> encrypted: passive_cipher "node_cenv env" "raw_quiet c" for c
  by (simp add: passive_cipher_def node_cenv_def raw.passive_file_axioms)

sublocale quiet_volume \<subseteq> authenticated: passive_mac "node_menv env" "\<lambda>s. raw_quiet c (cf_base s)" for c
  by (simp add: passive_mac_def node_menv_def encrypted.cipher.passive_file_axioms)

sublocale quiet_volume \<subseteq> nodes: passive_file "node_fileio env" "io_quiet c" for c
  unfolding node_fileio_def io_quiet_def
  by (rule either_passive [OF encrypted.cipher.passive_file_axioms authenticated.mac.passive_file_axioms])

context quiet_volume
begin

text \<open>An operation of the stack, as an operation of the node.\<close>

lemma on_io_quiet:
  assumes "keeps (io_quiet c) m"
  shows "keeps (\<lambda>n. io_quiet c (fnode_io n)) (on_io m)"
  unfolding on_io_def by (rule keeps_lift [OF assms]) auto

text \<open>No node is open for writing, and what is stored is \<open>c\<close>.\<close>

definition vol_quiet :: "'t \<Rightarrow> ('w, 'r) dirstate \<Rightarrow> bool" where
  "vol_quiet c s = (stored (ds_world s) = c \<and> (\<forall>p. \<not> raw_canWrite (raw_part (fnode_io (ds_nodes s p)))))"

lemma on_node_quiet:
  assumes "keeps (\<lambda>n. io_quiet c (fnode_io n)) m"
  shows "keeps (vol_quiet c) (on_node p m)"
proof (rule keepsI)
  fix s r s' assume v: "vol_quiet c s" and run: "on_node p m s = (r, s')"
  define n where "n = (ds_nodes s p)\<lparr>fnode_io := set_io_world (ds_world s) (fnode_io (ds_nodes s p))\<rparr>"
  obtain n' where n': "m n = (r, n')" using run by (auto simp: on_node_def Let_def n_def split: prod.splits)
  have "io_quiet c (fnode_io n)" using v by (simp add: n_def io_quiet_iff vol_quiet_def)
  from keepsD [OF assms this n'] show "vol_quiet c s'" using run v n'
    by (auto simp: on_node_def Let_def io_quiet_iff vol_quiet_def simp flip: n_def split: if_splits)
qed

lemma on_system_quiet: "(\<And>w. stored (snd (f w)) = stored w) \<Longrightarrow> keeps (vol_quiet c) (on_system f)"
  by (auto simp: keeps_def on_system_def vol_quiet_def split: prod.split) (metis snd_conv)

lemma context_quiet: "keeps (vol_quiet c) (io_lift ds_ctx (\<lambda>x s. s\<lparr>ds_ctx := x\<rparr>) m)"
  by (auto simp: keeps_def io_lift_def vol_quiet_def split: prod.split)

end


section \<open>Finding a node\<close>

lemma on_base_external: "keeps (\<lambda>s. cf_externalIV s = x) (on_base m)"
  unfolding on_base_def by (rule keeps_lift [of "\<lambda>_. True"]) (auto simp: keeps_def)

lemma mac_on_base_external:
  "keeps (\<lambda>s. cf_externalIV s = x) m \<Longrightarrow> keeps (\<lambda>s. cf_externalIV (mf_base s) = x) (mac_on_base m)"
  unfolding mac_on_base_def by (erule keeps_lift) auto

lemma cipher_getAttr_external: "keeps (\<lambda>s. cf_externalIV s = x) (cipher_getAttr e)"
  unfolding cipher_getAttr_def by (rule on_base_external keeps_rules)+

lemma getAttr_external: "keeps (\<lambda>io. external_part io = x) (fio_getAttr (node_fileio env))"
proof -
  have m: "keeps (\<lambda>s. cf_externalIV (mf_base s) = x) (mac_getAttr (node_menv env))"
    unfolding mac_getAttr_def node_menv_def mac_env.simps cipher_fileio_def fileio.simps by (rule mac_on_base_external cipher_getAttr_external keeps_rules)+
  have e: "(\<lambda>io. external_part io = x) = case_sum (\<lambda>s. cf_externalIV s = x) (\<lambda>s. cf_externalIV (mf_base s) = x)"
    by (rule ext, rename_tac io, case_tac io) simp_all
  show ?thesis using either_keeps [OF cipher_getAttr_external [of x "node_cenv env"] m] unfolding e [symmetric]
    by (simp add: node_fileio_def either_fileio_def cipher_fileio_def mac_fileio_def)
qed

text \<open>The first external vector is only remembered.\<close>

lemma first_setIV:
  assumes "external_part io = 0" "fio_setIV (node_fileio env) iv io = (r, io')"
  shows "raw_part io' = raw_part io"
  using assms by (cases io) (auto simp: node_fileio_def either_fileio_def cipher_fileio_def mac_fileio_def cipher_setIV_def
      mac_on_base_def io_lift_def io_bind_split io_simps on_base_def node_cenv_def node_menv_def raw_fileio_def FileIO_setIV_def
      split: prod.splits)

context quiet_volume
begin

lemma setName_fresh:
  assumes "io_quiet c (fnode_io n)" "external_part (fnode_io n) = 0" "setName env cfg None None iv True n = (r, n')"
  shows "io_quiet c (fnode_io n')"
proof (cases "externalIVChaining (fs_config cfg)")
  case True
  obtain a io1 where a: "fio_getAttr (node_fileio env) (fnode_io n) = (a, io1)" by fastforce
  have 1: "io_quiet c io1" "external_part io1 = 0"
    using keepsD [OF nodes.getAttr assms(1) a] keepsD [OF getAttr_external assms(2) a] .
  obtain b io2 where b: "fio_setIV (node_fileio env) iv io1 = (b, io2)" by fastforce
  have "raw_part io2 = raw_part io1" by (rule first_setIV [OF 1(2) b])
  then have "io_quiet c io2" using 1(1) by (metis io_quiet_iff raw_part_world(1))
  then show ?thesis using assms(3) True a b 1(1)
    by (auto simp: setName_def node_setIV_def io_bind_split io_simps on_io_def io_lift_def assign_names_def
        split: sum.splits if_splits)
qed (use assms in \<open>auto simp: setName_def io_bind_split io_simps assign_names_def\<close>)

lemma findOrCreate_quiet: "keeps (vol_quiet c) (findOrCreate env dn path)"
proof (rule keepsI)
  fix s r s' assume v: "vol_quiet c s" and run: "findOrCreate env dn path s = (r, s')"
  show "vol_quiet c s'"
  proof (cases "dn_hasCtx dn \<and> ctx_lookupNode path (ds_ctx s) = None \<and> (\<exists>q iv p ctx n. encodePath (naming dn) path 0 = Inr (q, iv) \<and>
      newNode (ds_ctx s) = (p, ctx) \<and> FileNode_new env (dn_cfg dn) path (dn_rootDir dn @ q) (fn_fuseFh ctx p) (ds_world s) = Inr n)")
    case False
    then show ?thesis using run v
      by (auto simp: findOrCreate_def Let_def vol_quiet_def split: if_splits option.splits sum.splits prod.splits)
  next
    case True
    then obtain q iv p ctx n where n: "encodePath (naming dn) path 0 = Inr (q, iv)" "newNode (ds_ctx s) = (p, ctx)"
      "FileNode_new env (dn_cfg dn) path (dn_rootDir dn @ q) (fn_fuseFh ctx p) (ds_world s) = Inr n" by blast
    note new = new_node_closed [OF n(3)]
    let ?s = "s\<lparr>ds_ctx := ctx, ds_nodes := (ds_nodes s)(p := n)\<rparr>"
    have q: "vol_quiet c ?s" using v new by (auto simp: vol_quiet_def)
    show ?thesis
    proof (cases "externalIVChaining (fs_config (dn_cfg dn))")
      case False
      then show ?thesis using run True n q by (simp add: findOrCreate_def Let_def)
    next
      case chain: True
      define m where "m = n\<lparr>fnode_io := set_io_world (ds_world s) (fnode_io n)\<rparr>"
      obtain a n' where a: "setName env (dn_cfg dn) None None iv True m = (a, n')" by fastforce
      have "io_quiet c (fnode_io n')"
        using v new by (intro setName_fresh [OF _ _ a]) (auto simp: m_def io_quiet_iff vol_quiet_def)
      moreover have "s' = ?s\<lparr>ds_nodes := (ds_nodes ?s)(p := n'), ds_world := io_world (fnode_io n')\<rparr>"
        using run True n chain a
        by (auto simp: findOrCreate_def Let_def on_node_def io_bind_split io_simps simp flip: m_def split: sum.splits)
      ultimately show ?thesis using v by (auto simp: vol_quiet_def io_quiet_iff)
    qed
  qed
qed

end


section \<open>Handlers\<close>

context quiet_volume
begin

lemma root_quiet: "keeps (vol_quiet c) (root_of fe b)"
  unfolding root_of_def by (rule context_quiet)

lemma drop_quiet:
  assumes "vol_quiet c s"
  shows "vol_quiet c (drop_node env p s)"
proof -
  have "stored (RawFileIO_delete (fe_sys env) raw) = stored (raw_world raw)" for raw
    by (simp add: RawFileIO_delete_def Let_def sys_quiet)
  then show ?thesis using assms by (auto simp: drop_node_def vol_quiet_def)
qed

lemma holding_quiet: "keeps (vol_quiet c) m \<Longrightarrow> keeps (vol_quiet c) (holding env p m)"
  by (auto simp: keeps_def holding_def drop_quiet split: prod.split)

lemma canary_quiet: "keeps (vol_quiet c) (checkCanary p)"
  unfolding checkCanary_def by (rule keeps_rules)+

lemma withFileNode_quiet:
  assumes "\<And>p. keeps (vol_quiet c) (op p)"
  shows "keeps (vol_quiet c) (withFileNode fe err path fh op)"
  unfolding withFileNode_def dir_lookupNode_def
  by (rule root_quiet findOrCreate_quiet holding_quiet canary_quiet assms keeps_rules)+

lemma withCipherPath_quiet:
  assumes "\<And>x. keeps (vol_quiet c) (op x)"
  shows "keeps (vol_quiet c) (withCipherPath fe path op pass)"
  unfolding withCipherPath_def by (rule root_quiet assms keeps_rules)+

lemma system_quiet:
  "keeps (vol_quiet c) (on_system (fsy_readdir (fe_fsys env) path))" "keeps (vol_quiet c) (on_system (fsy_close (fe_fsys env) fd))"
  "keeps (vol_quiet c) (on_system (fus_readlink (fu_sys fe) path k))" "keeps (vol_quiet c) (on_system (fus_dup (fu_sys fe) fd))"
  "keeps (vol_quiet c) (on_system (fus_statvfs (fu_sys fe) path))" "keeps (vol_quiet c) (on_system (fus_lgetxattr (fu_sys fe) path name k'))"
  "keeps (vol_quiet c) (on_system (fus_llistxattr (fu_sys fe) path k'))"
  by (rule on_system_quiet, simp add: fsy_quiet fus_quiet)+

lemma node_quiet:
  "keeps (vol_quiet c) (on_node p (node_getAttr env))" "keeps (vol_quiet c) (on_node p (node_read env off len))"
  "looks flags \<Longrightarrow> keeps (vol_quiet c) (on_node p (node_open env flags))"
  unfolding node_getAttr_def node_read_def node_open_def
  by (rule on_node_quiet, rule on_io_quiet, rule nodes.getAttr nodes.reads nodes.opens, assumption?)+

lemma looks_rdonly: "looks O_RDONLY"
  by (simp add: looks_def O_RDONLY_def)

lemmas quiet_rules = root_quiet findOrCreate_quiet system_quiet node_quiet looks_rdonly keeps_rules

lemma getattr_quiet: "keeps (vol_quiet c) (do_getattr fe p)"
  unfolding do_getattr_def by (rule quiet_rules)+

lemma readlink_quiet: "keeps (vol_quiet c) (do_readlink fe k x)"
  unfolding do_readlink_def by (rule quiet_rules)+

lemma readdir_quiet: "keeps (vol_quiet c) (encfs_readdir fe filler path)"
  unfolding encfs_readdir_def openDir_def by (rule quiet_rules)+

lemma open_quiet:
  assumes "looks flags"
  shows "keeps (vol_quiet c) (encfs_open fe path flags)"
proof -
  have p: "keeps (vol_quiet c) (io_modify (\<lambda>s. s\<lparr>ds_ctx := putNode path q (ds_ctx s)\<rparr>))" for q
    by (rule keeps_modify) (simp add: vol_quiet_def)
  show ?thesis unfolding encfs_open_def openNode_def by (rule p assms quiet_rules)+
qed

lemma release_quiet: "keeps (vol_quiet c) (encfs_release fe path fh)"
proof -
  have d: "keeps (vol_quiet c) (io_modify (case q of None \<Rightarrow> id | Some p \<Rightarrow> drop_node env p))" for q
    by (rule keeps_modify) (auto simp: drop_quiet split: option.split)
  show ?thesis unfolding encfs_release_def by (rule d context_quiet keeps_rules)+
qed

lemma serve_quiet:
  assumes "fu_readOnly fe"
  shows "keeps (vol_quiet c) (fuse_serve fe filler r)"
proof (cases "modifying r")
  case True
  then show ?thesis using read_only_refuses [OF assms] by (auto simp: keeps_def)
next
  case False
  have "keeps (vol_quiet c) (do_flush fe p)" "keeps (vol_quiet c) (do_getxattr fe name k x)"
    "keeps (vol_quiet c) (do_listxattr fe k x)" "keeps (vol_quiet c) (encfs_statfs fe)" for p name k x
    unfolding do_flush_def do_getxattr_def do_listxattr_def encfs_statfs_def by (rule quiet_rules)+
  note ops = this getattr_quiet readlink_quiet readdir_quiet open_quiet release_quiet node_quiet(2)
  show ?thesis using False
    by (cases r) (auto simp: reply_as_def encfs_getattr_def encfs_fgetattr_def encfs_readlink_def encfs_read_def do_read_def
        encfs_flush_def encfs_getxattr_def encfs_listxattr_def looks_def
        intro!: keeps_bind keeps_return withFileNode_quiet withCipherPath_quiet ops)
qed

lemma session_quiet:
  assumes "fu_readOnly fe" "vol_quiet c s" "fuse_session fe filler rs s = (xs, s')"
  shows "vol_quiet c s' \<and> length xs = length rs \<and> (\<forall>i<length rs. modifying (rs ! i) \<longrightarrow> xs ! i = Inr (refused (rs ! i)))"
  using assms(2,3)
proof (induction rs arbitrary: s xs)
  case (Cons r rs)
  obtain x s1 xs1 where x: "fuse_serve fe filler r s = (x, s1)" "fuse_session fe filler rs s1 = (xs1, s')" "xs = x # xs1"
    using Cons.prems(2) by (auto split: prod.splits)
  have "vol_quiet c s1" by (rule keepsD [OF serve_quiet [OF assms(1)] Cons.prems(1) x(1)])
  from Cons.IH [OF this x(2)] show ?case
    using x(1,3) read_only_refuses [OF assms(1), of r filler s] by (auto simp: nth_Cons split: nat.split)
qed simp

end


section \<open>The property\<close>

interpretation tree: quiet_volume "tree_fuse b" id for b
  by unfold_locales (auto simp: tree_env_def tree_sys_def tree_fsys_def tree_fus_def looks_def)

lemma demo_closed: "\<not> raw_canWrite (raw_part (fnode_io (ds_nodes demo_tree p)))"
  by (simp add: demo_tree_def) code_simp




end
