(* ===== verification/Listing.thy ===== *)
theory Listing
  imports Fuse_Ops
begin

text \<open>
  Listing a directory. The encoding of a path is that of its directory followed by that of the last name
  under the vector of the directory, which is what lets \<open>DirTraverse\<close> decode the entries one by one. The result is
  that \<open>encfs_readdir\<close> shows exactly the plain names of the files whose encoded paths lie in the directory.
\<close>

section \<open>Paths by their last name\<close>

lemma takeWhile_slash: "takeWhile (\<lambda>x. x \<noteq> slash) (p @ slash # rest) = takeWhile (\<lambda>x. x \<noteq> slash) p"
  by (induction p) auto

lemma recode_append:
  "recodePath mx code (p @ slash # rest) iv out =
     (case recodePath mx code p iv out of Inl e \<Rightarrow> Inl e | Inr (q, iv') \<Rightarrow> recodePath mx code (slash # rest) iv' q)"
proof (induction "length p" arbitrary: p iv out rule: less_induct)
  case less
  consider (Nil) "p = []" | (slash) p' where "p = slash # p'" | (name) "p \<noteq> []" "hd p \<noteq> slash" by (cases p) auto
  then show ?case
  proof cases
    case Nil then show ?thesis by (simp add: recodePath.simps [of _ _ "[]"])
  next
    case slash then show ?thesis using less.hyps [of p']
      by (simp add: recodePath.simps [of _ _ "slash # p' @ slash # rest"] recodePath.simps [of _ _ "slash # p'"])
  next
    case name
    define c where "c = takeWhile (\<lambda>x. x \<noteq> slash) p"
    have c: "takeWhile (\<lambda>x. x \<noteq> slash) (p @ slash # rest) = c" unfolding c_def by (rule takeWhile_slash)
    have d: "drop (length c) (p @ slash # rest) = drop (length c) p @ slash # rest" by (simp add: c_def length_takeWhile_le)
    have "length (drop (length c) p) < length p" using name by (cases p) (auto simp: c_def)
    note ih = less.hyps [OF this]
    show ?thesis using name
      unfolding recodePath.simps [of mx code "p @ slash # rest" iv out] recodePath.simps [of mx code p iv out]
      by (auto simp del: drop_append simp: c d ih Let_def simp flip: c_def split: sum.split)
  qed
qed

text \<open>One name: what was put out before stays in front.\<close>

lemma recode_name:
  assumes "n \<noteq> []" "slash \<notin> set n"
  shows "recodePath mx code n iv out = map_sum id (\<lambda>(q, iv'). (out @ q, iv')) (recodePath mx code n iv [])"
proof -
  have n: "takeWhile (\<lambda>c. c \<noteq> slash) n = n" "hd n \<noteq> slash" using assms by (cases n; auto simp: takeWhile_eq_all_conv)+
  show ?thesis using assms(1) n(2)
    unfolding recodePath.simps [of mx code n iv]
    by (simp del: takeWhile_eq_all_conv add: n(1) Let_def recodePath.simps [of _ _ "[]"] split: sum.split)
qed

text \<open>A coder keeps a vector exactly when it is given one.\<close>

definition keeps_vector :: "name_coder \<Rightarrow> bool" where
  "keeps_vector code = (\<forall>n iv k q iv'. code n iv k = Inr (q, iv') \<longrightarrow> (iv' = None) = (iv = None))"

lemma MAC_16_vector: "MAC_16 c x k iv = Inr (mac, iv') \<Longrightarrow> (iv' = None) = (iv = None)"
  by (auto simp: MAC_16_def chain_iv_def split: sum.splits option.splits)

lemma coders_keep_vector: "keeps_vector (Stream_encodeName x)" "keeps_vector (Block_encodeName y)" "keeps_vector Null_name_coder"
  by (auto simp: keeps_vector_def Stream_encodeName_def Block_encodeName_def Null_name_coder_def Let_def dest: MAC_16_vector
      split: if_splits sum.splits option.splits prod.splits)

lemma ssl_coders_keep: "ssl_nameio lib cph key io \<Longrightarrow> keeps_vector (nio_encodeName io)"
  by (auto simp: ssl_nameio_def NullNameIO_def StreamNameIO_def NewBlockNameIO_def NewBlockNameIO32_def BlockNameIO_def
      coders_keep_vector Let_def split: if_splits)

lemma recode_keeps_vector:
  assumes "keeps_vector code" "recodePath mx code p iv out = Inr (q, iv')"
  shows "(iv' = None) = (iv = None)"
  using assms(2)
proof (induction "length p" arbitrary: p iv out rule: less_induct)
  case less
  show ?case
  proof (cases "p = []")
    case False
    define c where "c = takeWhile (\<lambda>x. x \<noteq> slash) p"
    have "hd p \<noteq> slash \<Longrightarrow> length (drop (length c) p) < length p" using False by (cases p) (auto simp: c_def)
    then show ?thesis
      using less.prems less.hyps [of "tl p"] less.hyps [of "drop (length c) p"] False assms(1)
      unfolding recodePath.simps [of mx code p iv out] keeps_vector_def
      by (auto simp: Let_def simp flip: c_def split: if_splits sum.splits) metis+
  qed (use less.prems in \<open>simp add: recodePath.simps [of _ _ "[]"]\<close>)
qed

definition child :: "bytes \<Rightarrow> bytes \<Rightarrow> bytes" where
  "child path n = (if path = [slash] then slash # n else path @ slash # n)"

lemma encode_child:
  assumes "\<not> nio_reverseEncryption io" "keeps_vector (nio_encodeName io)" "encodePath io path 0 = Inr (c, iv)"
    and n: "n \<noteq> []" "slash \<notin> set n"
  shows "encodePath io (child path n) 0 =
    map_sum id (\<lambda>(q, iv'). (if c = [] then q else c @ slash # q, iv')) (encodePath io n iv)"
proof -
  let ?mx = "nio_maxEncodedNameLen io" and ?code = "nio_encodeName io"
  let ?v = "\<lambda>iv. if nio_chainedNameIV io then Some iv else None"
  obtain v where v: "recodePath ?mx ?code path (?v 0) [] = Inr (c, v)" "iv = (case v of None \<Rightarrow> 0 | Some x \<Rightarrow> x)"
    using assms(1,3) by (auto simp: encodePath_def encodePath_fwd_def split: sum.splits)
  have v': "v = ?v iv" "\<not> nio_chainedNameIV io \<Longrightarrow> iv = 0"
    using recode_keeps_vector [OF assms(2) v(1)] v(2) by (auto split: option.splits)
  note v = v(1) [unfolded v'(1)]
  have step: "recodePath ?mx ?code (slash # n) (?v iv) c = recodePath ?mx ?code n (?v iv) (if c \<noteq> [] then c @ [slash] else c)"
    by (simp add: recodePath.simps [of _ _ "slash # n"])
  have full: "recodePath ?mx ?code (path @ slash # n) (?v 0) [] = recodePath ?mx ?code n (?v iv) (if c \<noteq> [] then c @ [slash] else c)"
    unfolding recode_append v step [symmetric] by simp
  have "recodePath ?mx ?code (child path n) (?v 0) [] = recodePath ?mx ?code (path @ slash # n) (?v 0) []"
    by (simp add: child_def recodePath.simps [of _ _ "slash # slash # n"] recodePath.simps [of _ _ "slash # n"])
  also have "\<dots> = map_sum id (\<lambda>(q, iv'). (if c = [] then q else c @ slash # q, iv')) (recodePath ?mx ?code n (?v iv) [])"
    unfolding full by (subst recode_name [OF n]) (simp add: case_prod_beta)
  finally have all: "recodePath ?mx ?code (child path n) (?v 0) [] =
    map_sum id (\<lambda>(q, iv'). (if c = [] then q else c @ slash # q, iv')) (recodePath ?mx ?code n (?v iv) [])" .
  show ?thesis
  proof (cases "recodePath ?mx ?code n (?v iv) []")
    case (Inr qi)
    obtain q b where q: "qi = (q, b)" by fastforce
    have "(b = None) = (\<not> nio_chainedNameIV io)" using recode_keeps_vector [OF assms(2) Inr [unfolded q]] by simp
    then show ?thesis using assms(1) all Inr v'(2)
      unfolding encodePath_def encodePath_fwd_def by (cases b) (simp_all add: q)
  qed (use assms(1) all in \<open>simp add: encodePath_def encodePath_fwd_def\<close>)
qed


section \<open>The loop\<close>

definition entry_of :: "bytes \<Rightarrow> dirent \<Rightarrow> dir_entry" where
  "entry_of n de = (n, d_ino de, push_bit 12 (ucast (d_type de)))"

lemma readdir_loop_Nil: "readdir_loop filler (dt\<lparr>dt_dir := []\<rparr>) buf = Inr buf"
  by (simp add: readdir_loop.simps [of filler "dt\<lparr>dt_dir := []\<rparr>"] nextPlaintextName_def)

lemma readdir_loop_skip:
  assumes "skip_config (dt_root dt) de \<or> (\<exists>m. decodePath (dt_naming dt) (d_name de) (dt_iv dt) = Inl (Error m))"
  shows "readdir_loop filler (dt\<lparr>dt_dir := de # des\<rparr>) buf = readdir_loop filler (dt\<lparr>dt_dir := des\<rparr>) buf"
proof -
  have "nextPlaintextName (dt\<lparr>dt_dir := de # des\<rparr>) = nextPlaintextName (dt\<lparr>dt_dir := des\<rparr>)"
    using assms by (cases dt) (auto simp: nextPlaintextName_def split: sum.split)
  then show ?thesis by (simp add: readdir_loop.simps [of filler "dt\<lparr>dt_dir := de # des\<rparr>"] readdir_loop.simps [of filler "dt\<lparr>dt_dir := des\<rparr>"])
qed

lemma readdir_loop_take:
  assumes "\<not> skip_config (dt_root dt) de" "decodePath (dt_naming dt) (d_name de) (dt_iv dt) = Inr (n, iv')" "n \<noteq> []"
    and "\<not> filler buf (entry_of n de)"
  shows "readdir_loop filler (dt\<lparr>dt_dir := de # des\<rparr>) buf = readdir_loop filler (dt\<lparr>dt_dir := des\<rparr>) (buf @ [entry_of n de])"
  using assms by (simp add: readdir_loop.simps [of filler "dt\<lparr>dt_dir := de # des\<rparr>"] nextPlaintextName_def entry_of_def Let_def)

text \<open>\<open>plain\<close> gives the plain name of an entry that has one.\<close>

lemma readdir_loop_lists:
  assumes "\<And>b e. \<not> filler b e"
    and "\<And>de. de \<in> set des \<Longrightarrow> case plain de of
      Some n \<Rightarrow> n \<noteq> [] \<and> \<not> skip_config (dt_root dt) de \<and> (\<exists>iv'. decodePath (dt_naming dt) (d_name de) (dt_iv dt) = Inr (n, iv'))
    | None \<Rightarrow> skip_config (dt_root dt) de \<or> (\<exists>m. decodePath (dt_naming dt) (d_name de) (dt_iv dt) = Inl (Error m))"
  shows "readdir_loop filler (dt\<lparr>dt_dir := des\<rparr>) buf =
    Inr (buf @ List.map_filter (\<lambda>de. map_option (\<lambda>n. entry_of n de) (plain de)) des)"
  using assms(2)
proof (induction des arbitrary: buf)
  case Nil
  then show ?case by (simp add: readdir_loop_Nil map_filter_def)
next
  case (Cons de des)
  note ih = Cons.IH [OF Cons.prems [OF list.set_intros(2)]]
  show ?case
  proof (cases "plain de")
    case None
    then have "skip_config (dt_root dt) de \<or> (\<exists>m. decodePath (dt_naming dt) (d_name de) (dt_iv dt) = Inl (Error m))"
      using Cons.prems [of de] by simp
    from readdir_loop_skip [OF this] ih None show ?thesis by (simp add: map_filter_simps)
  next
    case (Some n)
    then obtain iv' where "n \<noteq> []" "\<not> skip_config (dt_root dt) de" "decodePath (dt_naming dt) (d_name de) (dt_iv dt) = Inr (n, iv')"
      using Cons.prems [of de] by auto
    from readdir_loop_take [OF this(2,3,1) assms(1)] ih Some show ?thesis by (simp add: map_filter_simps)
  qed
qed

section \<open>Properties\<close>

text \<open>
  Claim C14. Listing. \<open>encfs_readdir\<close> of a mounted volume shows, in the order of the directory, the name \<open>n\<close> of every entry that is the encoded
  path of a child \<open>n\<close> of the directory, with its inode and type, and nothing for the configuration file in the root
  and for entries that cannot be decoded; for every coding of names, with and without chained vectors. A directory that cannot
  be opened is shown as an empty one.
\<close>

theorem readdir_lists:
  assumes "openssl_laws lib" "cipher_ok lib cph" "key_ok cph key" "ssl_nameio lib cph key io"
    and "naming (fu_dn fe) = setChainedNameIV chained io" "mounted s" "0 \<notin> set path" "\<And>b e. \<not> filler b e"
    and "encodePath (naming (fu_dn fe)) path 0 = Inr (c, iv)"
    and "fsy_readdir (fe_fsys (fu_env fe)) (dn_rootDir (fu_dn fe) @ c) (ds_world s) = (r, w')"
    and "\<And>des de. r = Inr des \<Longrightarrow> de \<in> set des \<Longrightarrow> case plain de of
      Some n \<Rightarrow> n \<noteq> [] \<and> slash \<notin> set n \<and> 0 \<notin> set n \<and> \<not> skip_config (length path = 1) de \<and>
        cipherPathWithoutRoot (fu_dn fe) (child path n) = Inr (if c = [] then d_name de else c @ slash # d_name de)
    | None \<Rightarrow> skip_config (length path = 1) de \<or> (\<exists>m. decodePath (naming (fu_dn fe)) (d_name de) iv = Inl (Error m))"
  shows "fst (encfs_readdir fe filler path s) = Inr (0, case r of Inl _ \<Rightarrow> []
    | Inr des \<Rightarrow> List.map_filter (\<lambda>de. map_option (\<lambda>n. (n, d_ino de, push_bit 12 (ucast (d_type de)))) (plain de)) des)"
proof -
  let ?dn = "fu_dn fe"
  have k: "ssl_keyed lib cph key" using assms by (simp add: ssl_keyed_def ssl_keyed_axioms_def)
  note fwd = ssl_keyed.ssl_nameio_codec(2) [OF k assms(4)]
  have rev: "\<not> nio_reverseEncryption (naming ?dn)" and kv: "keeps_vector (nio_encodeName (naming ?dn))"
    using fwd ssl_coders_keep [OF assms(4)] by (simp_all add: assms(5) setChainedNameIV_def)
  have cp: "cipherPath ?dn path = Inr (dn_rootDir ?dn @ c)" using assms(9) by (simp add: cipherPath_def cipherPathWithoutRoot_def)
  have iv: "\<not> nio_chainedNameIV (naming ?dn) \<Longrightarrow> iv = 0"
    using assms(9) rev recode_keeps_vector [OF kv]
    by (fastforce simp: encodePath_def encodePath_fwd_def split: sum.splits option.splits)
  let ?s = "s\<lparr>ds_ctx := (ds_ctx s)\<lparr>usageCount := usageCount (ds_ctx s) + 1\<rparr>\<rparr>"
  have root: "root_of fe False s = (Inr 0, ?s)" by (simp add: root_of_mounted [OF assms(6)])
  show ?thesis
  proof (cases r)
    case (Inl e)
    then show ?thesis using root cp assms(10)
      by (simp add: encfs_readdir_def openDir_def io_bind_split io_simps on_system_def io_catch_def)
  next
    case (Inr des)
    define dt where "dt = \<lparr>dt_dir = [], dt_iv = iv, dt_naming = naming ?dn, dt_root = (length path = 1)\<rparr>"
    have "openDir (fu_env fe) ?dn path ?s = (Inr (Some (dt\<lparr>dt_dir := des\<rparr>)), ?s\<lparr>ds_world := w'\<rparr>)"
      using cp assms(9,10) Inr iv by (auto simp: openDir_def io_bind_split io_simps on_system_def dt_def)
    moreover have "readdir_loop filler (dt\<lparr>dt_dir := des\<rparr>) [] =
      Inr ([] @ List.map_filter (\<lambda>de. map_option (\<lambda>n. entry_of n de) (plain de)) des)"
    proof (rule readdir_loop_lists [OF assms(8)])
      fix de assume "de \<in> set des"
      note de = assms(11) [OF Inr this]
      show "case plain de of Some n \<Rightarrow> n \<noteq> [] \<and> \<not> skip_config (dt_root dt) de \<and>
          (\<exists>iv'. decodePath (dt_naming dt) (d_name de) (dt_iv dt) = Inr (n, iv'))
        | None \<Rightarrow> skip_config (dt_root dt) de \<or> (\<exists>m. decodePath (dt_naming dt) (d_name de) (dt_iv dt) = Inl (Error m))"
      proof (cases "plain de")
        case (Some n)
        then have n: "n \<noteq> []" "slash \<notin> set n" "0 \<notin> set n" "\<not> skip_config (length path = 1) de"
          "cipherPathWithoutRoot ?dn (child path n) = Inr (if c = [] then d_name de else c @ slash # d_name de)" using de by auto
        obtain q iv' where q: "encodePath (naming ?dn) n iv = Inr (q, iv')"
          "decodePath (naming ?dn) q iv = Inr (dropWhile (\<lambda>c. c = slash) n, iv')"
          using ssl_keyed.path_roundtrip [OF k assms(4) n(3), of chained iv] assms(5) by auto
        have "dropWhile (\<lambda>c. c = slash) n = n" using n(1,2) by (cases n) auto
        moreover have "q = d_name de"
          using n(5) encode_child [OF rev kv assms(9) n(1,2)] q(1) by (auto simp: cipherPathWithoutRoot_def split: if_splits)
        ultimately show ?thesis using Some n q(2) by (simp add: dt_def)
      qed (use de in \<open>simp add: dt_def\<close>)
    qed
    ultimately show ?thesis using root Inr
      by (simp add: encfs_readdir_def io_bind_split io_simps io_catch_def entry_of_def)
  qed
qed


theorem readdir_lists_witness:
  "fst (encfs_readdir
      (tree_fuse False\<lparr>fu_dn := tree_dn\<lparr>dn_cfg := (dn_cfg tree_dn)\<lparr>fs_nameCoding := setChainedNameIV True NullNameIO\<rparr>\<rparr>\<rparr>)
      (\<lambda>_ _. False) (str ''/d'')
      \<lparr>ds_ctx = setRoot True (EncFS_Context False), ds_nodes = (\<lambda>_. demo_node),
       ds_world = [(str ''r/d'', True), (str ''r/d/x'', False), (str ''r/d/y'', True), (str ''r/e'', False)]\<rparr>)
   = Inr (0, [(str ''x'', 1, 0x8000), (str ''y'', 1, 0x4000)])"
proof -
  define fe where "fe = tree_fuse False\<lparr>fu_dn := tree_dn\<lparr>dn_cfg := (dn_cfg tree_dn)\<lparr>fs_nameCoding := setChainedNameIV True NullNameIO\<rparr>\<rparr>\<rparr>"
  define s :: "((bytes \<times> bool) list, unit) dirstate" where
    "s = \<lparr>ds_ctx = setRoot True (EncFS_Context False), ds_nodes = (\<lambda>_. demo_node),
      ds_world = [(str ''r/d'', True), (str ''r/d/x'', False), (str ''r/d/y'', True), (str ''r/e'', False)]\<rparr>"
  define des where "des = [\<lparr>d_name = str ''x'', d_type = 8, d_ino = 1\<rparr>, \<lparr>d_name = str ''y'', d_type = 4, d_ino = 1\<rparr>]"
  have n: "naming (fu_dn fe) = setChainedNameIV True NullNameIO" "dn_rootDir (fu_dn fe) = str ''r/''"
    "fe_fsys (fu_env fe) = tree_fsys" by (simp_all add: fe_def tree_dn_def tree_env_def)
  have m: "mounted s" by (simp add: mounted_def s_def setRoot_def EncFS_Context_def)
  have z: "0 \<notin> set (str ''/d'')" "dropWhile (\<lambda>c. c = slash) (str ''/d'') = str ''d''" "str ''d'' \<noteq> []" "str ''/d'' \<noteq> [slash]"
    "length (str ''/d'') = 2" by code_simp+
  have e: "encodePath (naming (fu_dn fe)) (str ''/d'') 0 = Inr (str ''d'', 0)"
    using null_path [OF z(1), of True 0] n z(2) by simp
  have r: "fsy_readdir (fe_fsys (fu_env fe)) (dn_rootDir (fu_dn fe) @ str ''d'') (ds_world s) = (Inr des, ds_world s)"
    unfolding n s_def dirstate.simps des_def by code_simp
  have child: "case Some (d_name de) of
      Some n \<Rightarrow> n \<noteq> [] \<and> slash \<notin> set n \<and> 0 \<notin> set n \<and> \<not> skip_config (length (str ''/d'') = 1) de \<and>
        cipherPathWithoutRoot (fu_dn fe) (child (str ''/d'') n) = Inr (if str ''d'' = [] then d_name de else str ''d'' @ slash # d_name de)
    | None \<Rightarrow> skip_config (length (str ''/d'') = 1) de \<or> (\<exists>m. decodePath (naming (fu_dn fe)) (d_name de) 0 = Inl (Error m))"
    if "Inr des = (Inr des' :: int + dirent list)" "de \<in> set des'" for des' de
  proof -
    have d: "d_name de = str ''x'' \<or> d_name de = str ''y''" using that by (auto simp: des_def)
    then have d: "d_name de \<noteq> []" "slash \<notin> set (d_name de)" "0 \<notin> set (d_name de)" by (elim disjE; simp; code_simp)+
    have "encodePath (naming (fu_dn fe)) (d_name de) 0 = Inr (dropWhile (\<lambda>c. c = slash) (d_name de), 0)"
      using null_path [OF d(3), of True 0] n by simp
    moreover have "dropWhile (\<lambda>c. c = slash) (d_name de) = d_name de" using d(1,2) by (cases "d_name de") auto
    moreover have "\<not> nio_reverseEncryption (naming (fu_dn fe))" "keeps_vector (nio_encodeName (naming (fu_dn fe)))"
      using coders_keep_vector(3) by (simp_all add: n NullNameIO_def setChainedNameIV_def)
    ultimately have "cipherPathWithoutRoot (fu_dn fe) (child (str ''/d'') (d_name de)) = Inr (str ''d'' @ slash # d_name de)"
      using encode_child [OF _ _ e d(1,2)] z(3) by (simp add: cipherPathWithoutRoot_def)
    then show ?thesis using d z(3,5) by (simp add: skip_config_def)
  qed
  have "fst (encfs_readdir fe (\<lambda>_ _. False) (str ''/d'') s) = Inr (0, case (Inr des :: int + dirent list) of Inl _ \<Rightarrow> []
    | Inr des \<Rightarrow> List.map_filter (\<lambda>de. map_option (\<lambda>n. (n, d_ino de, push_bit 12 (ucast (d_type de)))) (Some (d_name de))) des)"
    by (rule readdir_lists [OF xor_laws.openssl_laws_axioms xor_aes_ok xor_key_ok _ n(1) m z(1) _ e r child])
      (simp_all add: ssl_nameio_def)
  also have "\<dots> = Inr (0, [(str ''x'', 1, 0x8000), (str ''y'', 1, 0x4000)])"
    by (simp add: des_def map_filter_simps map_filter_def push_bit_eq_mult)
  finally show ?thesis unfolding fe_def s_def .
qed


end
