(* ===== verification/Xml_Config.thy ===== *)
theory Xml_Config
  imports Volume_Config Base64
begin

text \<open>
  The XML configuration of version 6: the reader of values in \<^verbatim>\<open>encfs/XmlReader.cpp\<close> and
  \<open>readV6Config\<close>, \<open>addEl\<close> and \<open>writeV6Config\<close> of \<^verbatim>\<open>encfs/FileUtils.cpp\<close>.

  The documents are those of tinyxml2, which prints and parses them: a parsed or a built document is a list of
  nodes, and printing and parsing are arguments where the two directions are put together. An output argument
  of a \<open>read\<close> function is its last argument and the second component of its result, because some of the
  functions assign it although they report a failure.
\<close>

section \<open>Documents\<close>

datatype xml =
  Element bytes "(bytes \<times> bytes) list" "xml list"
| CharData bytes
| Declaration
| Unknown bytes

definition is_el :: "bytes \<Rightarrow> xml \<Rightarrow> bool" where
  "is_el nm x = (case x of Element n _ _ \<Rightarrow> n = nm | _ \<Rightarrow> False)"

definition FirstChildElement :: "bytes \<Rightarrow> xml list \<Rightarrow> xml option" where
  "FirstChildElement nm cs = find (is_el nm) cs"

fun safeValueForNode :: "xml \<Rightarrow> bytes" where
  "safeValueForNode (Element _ _ (CharData t # _)) = t"
| "safeValueForNode _ = []"

text \<open>\<open>XmlValue\<close> is a bare text; its derived class \<open>XmlNode\<close> is an element of the document.\<close>

datatype xml_value = XmlValue bytes | XmlNode xml

definition xv_text :: "xml_value \<Rightarrow> bytes" where
  "xv_text v = (case v of XmlValue t \<Rightarrow> t | XmlNode e \<Rightarrow> safeValueForNode e)"

fun xv_find :: "xml_value \<Rightarrow> bytes \<Rightarrow> xml_value option" where
  "xv_find (XmlNode (Element _ attrs cs)) nm =
     (if nm \<noteq> [] \<and> hd nm = 64 then map_option XmlValue (map_of attrs (tl nm))
      else map_option XmlNode (FirstChildElement nm cs))"
| "xv_find _ nm = None"

section \<open>Numbers as text\<close>

definition isspace :: "byte \<Rightarrow> bool" where
  "isspace b = (b = 32 \<or> 9 \<le> b \<and> b \<le> 13)"

definition isdigit :: "byte \<Rightarrow> bool" where
  "isdigit b = (48 \<le> b \<and> b \<le> 57)"

definition c_str :: "bytes \<Rightarrow> bytes" where
  "c_str s = takeWhile (\<lambda>b. b \<noteq> 0) s"

text \<open>
  \<open>strtol\<close> in base ten: the number, clamped to the range of \<open>long\<close>, and what is left of the string,
  which is all of it when there is no digit.
\<close>

definition digits_value :: "bytes \<Rightarrow> nat" where
  "digits_value ds = foldl (\<lambda>n d. n * 10 + (unat d - 48)) 0 ds"

definition strtol :: "bytes \<Rightarrow> int \<times> bytes" where
  "strtol s =
     (let t = dropWhile isspace s;
          neg = (t \<noteq> [] \<and> hd t = 45);
          u = (if t \<noteq> [] \<and> (hd t = 45 \<or> hd t = 43) then tl t else t);
          ds = takeWhile isdigit u;
          n = int (digits_value ds)
      in if ds = [] then (0, s)
         else (max (- (2 ^ 63)) (min (2 ^ 63 - 1) (if neg then - n else n)), dropWhile isdigit u))"

text \<open>\<open>SetText\<close> of a number prints it as \<open>%d\<close> does.\<close>

fun dec_nat :: "nat \<Rightarrow> bytes" where
  "dec_nat n = (if n < 10 then [of_nat (48 + n)] else dec_nat (n div 10) @ [of_nat (48 + n mod 10)])"

declare dec_nat.simps [simp del]

definition dec_int :: "int \<Rightarrow> bytes" where
  "dec_int i = (if i < 0 then 45 # dec_nat (nat (- i)) else dec_nat (nat i))"

section \<open>Reading values\<close>

definition read_string :: "xml_value \<Rightarrow> bytes \<Rightarrow> bytes \<Rightarrow> bool \<times> bytes" where
  "read_string v path out = (case xv_find v path of None \<Rightarrow> (False, out) | Some w \<Rightarrow> (True, xv_text w))"

definition read_int :: "xml_value \<Rightarrow> bytes \<Rightarrow> int \<Rightarrow> bool \<times> int" where
  "read_int v path out =
     (case xv_find v path of None \<Rightarrow> (False, out)
      | Some w \<Rightarrow>
         (case strtol (c_str (xv_text w)) of (lout, e) \<Rightarrow>
            if e \<noteq> [] then (False, out)
            else if lout < - (2 ^ 31) \<or> lout > 2 ^ 31 - 1 then (False, out)
            else (True, lout)))"

definition read_long :: "xml_value \<Rightarrow> bytes \<Rightarrow> int \<Rightarrow> bool \<times> int" where
  "read_long v path out =
     (case xv_find v path of None \<Rightarrow> (False, out)
      | Some w \<Rightarrow> (case strtol (c_str (xv_text w)) of (lout, e) \<Rightarrow> (e = [], lout)))"

definition read_bool :: "xml_value \<Rightarrow> bytes \<Rightarrow> bool \<Rightarrow> bool \<times> bool" where
  "read_bool v path out =
     (case xv_find v path of None \<Rightarrow> (False, out)
      | Some w \<Rightarrow> (case strtol (c_str (xv_text w)) of (lout, e) \<Rightarrow> (e = [], lout \<noteq> 0)))"

definition read_interface :: "xml_value \<Rightarrow> bytes \<Rightarrow> interface \<Rightarrow> bool \<times> interface" where
  "read_interface v path out =
     (case xv_find v path of None \<Rightarrow> (False, out)
      | Some node \<Rightarrow>
         (case read_string node (str ''name'') (if_name out) of (ok, x) \<Rightarrow>
          let out = out\<lparr>if_name := x\<rparr> in
          if \<not> ok then (False, out) else
         (case read_int node (str ''major'') (if_current out) of (ok, x) \<Rightarrow>
          let out = out\<lparr>if_current := x\<rparr> in
          if \<not> ok then (False, out) else
         (case read_int node (str ''minor'') (if_revision out) of (ok, x) \<Rightarrow>
          (ok, out\<lparr>if_revision := x\<rparr>)))))"

text \<open>
  \<open>readB64\<close>: \<open>data\<close> is the buffer of \<open>len\<close> bytes. What a decoding that fails half-way leaves in the
  buffer is not told apart from what was there before: the readers below get an arbitrary buffer.
\<close>

definition readB64 :: "xml_value \<Rightarrow> bytes \<Rightarrow> int \<Rightarrow> bytes \<Rightarrow> bool \<times> bytes" where
  "readB64 v path len data =
     (case xv_find v path of None \<Rightarrow> (False, data)
      | Some w \<Rightarrow>
         (let s = filter (\<lambda>b. \<not> isspace b) (xv_text w);
              s = rev (dropWhile (\<lambda>b. b = 61) (rev s))
          in if int (B64ToB256Bytes (length s)) \<noteq> len then (False, data)
             else (case B64StandardDecode s of
                     None \<Rightarrow> (False, data)
                   | Some out \<Rightarrow> (True, out @ drop (length out) data))))"

text \<open>
  \<open>XmlReader::load\<close> and \<open>operator[]\<close>: the file's content, if it can be read, is handed to the parser; an
  element that is missing at the top is an empty value, in which nothing is found.
\<close>

definition XmlReader_load :: "(bytes \<Rightarrow> 'x option) \<Rightarrow> ('x \<Rightarrow> xml list option) \<Rightarrow> bytes \<Rightarrow> xml list option" where
  "XmlReader_load content parse fileName = Option.bind (content fileName) parse"

definition XmlReader_at :: "xml list \<Rightarrow> bytes \<Rightarrow> xml_value" where
  "XmlReader_at doc nm = (case FirstChildElement nm doc of None \<Rightarrow> XmlValue [] | Some e \<Rightarrow> XmlNode e)"

section \<open>Reading a volume description\<close>

text \<open>\<open>config->read(path, &cfg->field)\<close>: read a field of the configuration in place.\<close>

definition rd_field ::
  "('a \<Rightarrow> bool \<times> 'a) \<Rightarrow> (EncFSConfig \<Rightarrow> 'a) \<Rightarrow> ('a \<Rightarrow> EncFSConfig \<Rightarrow> EncFSConfig) \<Rightarrow> (EncFSConfig, bool) io" where
  "rd_field rdr getf setf = (\<lambda>c. case rdr (getf c) of (ok, x) \<Rightarrow> (Inr ok, setf x c))"

text \<open>\<open>new unsigned char[n]\<close> with a negative size raises an exception nobody catches.\<close>

definition new_buffer :: "(int \<Rightarrow> bytes) \<Rightarrow> int \<Rightarrow> (EncFSConfig, bytes) io" where
  "new_buffer junk n = (if n < 0 then io_throw (Fatal ''bad_array_new_length'') else io_return (junk n))"

text \<open>The test of the version; what it does not accept it only logs.\<close>

definition v6_subVersion :: "int \<Rightarrow> int \<Rightarrow> int" where
  "v6_subVersion version old =
     (if version = 20 \<or> version \<ge> 20100713 then version
      else if version = 26800 then 20080816
      else if version = 26797 then 20080813
      else if version < V5SubVersion then old
      else version)"

text \<open>
  \<open>uninit\<close> is what the variables \<open>encodedSize\<close> and \<open>saltLen\<close>, which have no initial value, hold when
  their elements are missing, and \<open>junk\<close> the content of a new buffer of a given size.
\<close>

definition readV6_body ::
  "(string \<Rightarrow> int) \<Rightarrow> (int \<Rightarrow> bytes) \<Rightarrow> xml_value \<Rightarrow> (EncFSConfig, bool) io" where
  "readV6_body uninit junk config =
     io_bind (rd_field (read_string config (str ''creator'')) creator (\<lambda>x. creator_update (\<lambda>_. x))) (\<lambda>_.
     io_bind (rd_field (read_interface config (str ''cipherAlg'')) cipherIface (\<lambda>x. cipherIface_update (\<lambda>_. x))) (\<lambda>_.
     io_bind (rd_field (read_interface config (str ''nameAlg'')) nameIface (\<lambda>x. nameIface_update (\<lambda>_. x))) (\<lambda>_.
     io_bind (rd_field (read_int config (str ''keySize'')) keySize (\<lambda>x. keySize_update (\<lambda>_. x))) (\<lambda>_.
     io_bind (rd_field (read_int config (str ''blockSize'')) blockSize (\<lambda>x. blockSize_update (\<lambda>_. x))) (\<lambda>_.
     io_bind (rd_field (read_bool config (str ''plainData'')) plainData (\<lambda>x. plainData_update (\<lambda>_. x))) (\<lambda>_.
     io_bind (rd_field (read_bool config (str ''uniqueIV'')) uniqueIV (\<lambda>x. uniqueIV_update (\<lambda>_. x))) (\<lambda>_.
     io_bind (rd_field (read_bool config (str ''chainedNameIV'')) chainedNameIV (\<lambda>x. chainedNameIV_update (\<lambda>_. x))) (\<lambda>_.
     io_bind (rd_field (read_bool config (str ''externalIVChaining'')) externalIVChaining (\<lambda>x. externalIVChaining_update (\<lambda>_. x))) (\<lambda>_.
     io_bind (rd_field (read_int config (str ''blockMACBytes'')) blockMACBytes (\<lambda>x. blockMACBytes_update (\<lambda>_. x))) (\<lambda>_.
     io_bind (rd_field (read_int config (str ''blockMACRandBytes'')) blockMACRandBytes (\<lambda>x. blockMACRandBytes_update (\<lambda>_. x))) (\<lambda>_.
     io_bind (rd_field (read_bool config (str ''allowHoles'')) allowHoles (\<lambda>x. allowHoles_update (\<lambda>_. x))) (\<lambda>_.
     let encodedSize = snd (read_int config (str ''encodedKeySize'') (uninit ''encodedSize'')) in
     io_bind (new_buffer junk encodedSize) (\<lambda>key.
     io_bind (io_modify (keyData_update (\<lambda>_. snd (readB64 config (str ''encodedKeyData'') encodedSize key)))) (\<lambda>_.
     io_bind (io_get subVersion) (\<lambda>sv.
     io_bind (if sv \<ge> 20080816 then
         (let saltLen = snd (read_int config (str ''saltLen'') (uninit ''saltLen'')) in
          io_bind (new_buffer junk saltLen) (\<lambda>salt.
          io_bind (io_modify (salt_update (\<lambda>_. snd (readB64 config (str ''saltData'') saltLen salt)))) (\<lambda>_.
          io_bind (rd_field (read_int config (str ''kdfIterations'')) kdfIterations (\<lambda>x. kdfIterations_update (\<lambda>_. x))) (\<lambda>_.
          io_bind (rd_field (read_long config (str ''desiredKDFDuration'')) desiredKDFDuration (\<lambda>x. desiredKDFDuration_update (\<lambda>_. x))) (\<lambda>_.
          io_return ())))))
       else io_modify (\<lambda>c. c\<lparr>kdfIterations := 16, desiredKDFDuration := 500\<rparr>)) (\<lambda>_.
     io_return True))))))))))))))))"

definition readV6Config ::
  "(string \<Rightarrow> int) \<Rightarrow> (int \<Rightarrow> bytes) \<Rightarrow> (bytes \<Rightarrow> 'x option) \<Rightarrow> ('x \<Rightarrow> xml list option) \<Rightarrow> bytes \<Rightarrow>
   (EncFSConfig, bool) io" where
  "readV6Config uninit junk content parse configFile =
     (case XmlReader_load content parse configFile of
        None \<Rightarrow> io_return False
      | Some rdr \<Rightarrow>
         (let serialization = XmlReader_at rdr (str ''boost_serialization'');
              config = (case xv_find serialization (str ''cfg'') of
                          None \<Rightarrow> xv_find serialization (str ''config'') | c \<Rightarrow> c)
          in case config of
               None \<Rightarrow> io_return False
             | Some config \<Rightarrow>
                 (let (ok, version) = read_int config (str ''version'') (uninit ''version'');
                      (ok, version) = (if ok then (ok, version) else read_int config (str ''@version'') version)
                  in if \<not> ok then io_return False
                     else io_bind (io_modify (\<lambda>c. c\<lparr>subVersion := v6_subVersion version (subVersion c)\<rparr>)) (\<lambda>_.
                          readV6_body uninit junk config))))"

section \<open>Writing a volume description\<close>

definition el_text :: "string \<Rightarrow> bytes \<Rightarrow> xml" where
  "el_text nm t = Element (str nm) [] [CharData t]"

text \<open>The instances of \<open>addEl\<close>: a string, a number, an interface and a vector of bytes.\<close>

definition addEl_string :: "string \<Rightarrow> bytes \<Rightarrow> xml" where
  "addEl_string nm value = el_text nm (c_str value)"

definition addEl_int :: "string \<Rightarrow> int \<Rightarrow> xml" where
  "addEl_int nm value = el_text nm (dec_int value)"

definition addEl_interface :: "string \<Rightarrow> (bytes \<times> bytes) list \<Rightarrow> interface \<Rightarrow> xml" where
  "addEl_interface nm attrs iface = Element (str nm) attrs
     [el_text ''name'' (c_str (if_name iface)), el_text ''major'' (dec_int (if_current iface)),
      el_text ''minor'' (dec_int (if_revision iface))]"

definition addEl_bytes :: "string \<Rightarrow> bytes \<Rightarrow> xml" where
  "addEl_bytes nm d = addEl_string nm ([10] @ B64StandardEncode d @ [10])"

definition to_int32 :: "int \<Rightarrow> int" where
  "to_int32 i = sint (word_of_int i :: u32)"

definition v6_cfg :: "EncFSConfig \<Rightarrow> xml" where
  "v6_cfg c =
     Element (str ''cfg'')
      [(str ''class_id'', str ''0''), (str ''tracking_level'', str ''0''), (str ''version'', str ''20'')]
      [addEl_int ''version'' V6SubVersion,
       addEl_string ''creator'' (creator c),
       addEl_interface ''cipherAlg''
         [(str ''class_id'', str ''1''), (str ''tracking_level'', str ''0''), (str ''version'', str ''0'')] (cipherIface c),
       addEl_interface ''nameAlg'' [] (nameIface c),
       addEl_int ''keySize'' (keySize c),
       addEl_int ''blockSize'' (blockSize c),
       addEl_int ''plainData'' (of_bool (plainData c)),
       addEl_int ''uniqueIV'' (of_bool (uniqueIV c)),
       addEl_int ''chainedNameIV'' (of_bool (chainedNameIV c)),
       addEl_int ''externalIVChaining'' (of_bool (externalIVChaining c)),
       addEl_int ''blockMACBytes'' (blockMACBytes c),
       addEl_int ''blockMACRandBytes'' (blockMACRandBytes c),
       addEl_int ''allowHoles'' (of_bool (allowHoles c)),
       addEl_int ''encodedKeySize'' (to_int32 (int (length (keyData c)))),
       addEl_bytes ''encodedKeyData'' (keyData c),
       addEl_int ''saltLen'' (to_int32 (int (length (salt c)))),
       addEl_bytes ''saltData'' (salt c),
       addEl_int ''kdfIterations'' (kdfIterations c),
       addEl_int ''desiredKDFDuration'' (to_int32 (desiredKDFDuration c))]"

definition v6_document :: "EncFSConfig \<Rightarrow> xml list" where
  "v6_document c =
     [Declaration, Unknown (str ''DOCTYPE boost_serialization''),
      Element (str ''boost_serialization'')
        [(str ''signature'', str ''serialization::archive''), (str ''version'', str ''7'')] [v6_cfg c]]"

text \<open>\<open>SaveFile\<close> prints the document to the file and says whether that succeeded.\<close>

definition writeV6Config :: "(bytes \<Rightarrow> xml list \<Rightarrow> ('s, bool) io) \<Rightarrow> bytes \<Rightarrow> EncFSConfig \<Rightarrow> ('s, bool) io" where
  "writeV6Config SaveFile configFile cfg = SaveFile configFile (v6_document cfg)"

section \<open>Lemmas\<close>

subsection \<open>Base 64 as \<open>readB64\<close> reads it\<close>

definition b64_plain :: "byte \<Rightarrow> bool" where
  "b64_plain b = (b \<noteq> 0 \<and> b \<noteq> 61 \<and> \<not> isspace b)"

lemma std_chars_plain: "list_all (\<lambda>k. b64_plain (enc_char (of_nat k))) [0..<64]"
  by code_simp

lemma enc_char_plain: "fits 6 v \<Longrightarrow> b64_plain (enc_char v)"
  using fits_less [of 6 v] std_chars_plain unfolding list_all_iff by (auto dest: bspec [of _ _ "unat v"])

lemma b64std_loop_stops: "b64std_loop (xs @ 61 # vs) buf out = b64std_loop xs buf out"
proof (induction xs arbitrary: buf out)
  case Nil
  show ?case by (simp add: b64std_equals del: b64std_loop.simps(2))
qed (simp add: Let_def)

lemma decode_unpadded: "B64StandardDecode (body @ replicate p 61) = B64StandardDecode body"
  by (cases p) (simp_all add: B64StandardDecode_finish b64std_loop_stops)

lemma encode_body:
  "\<exists>body p. B64StandardEncode xs = body @ replicate p 61 \<and> list_all b64_plain body \<and>
     B64ToB256Bytes (length body) = length xs"
proof (induction xs rule: B64StandardEncode.induct)
  case (1 a b c rest)
  then obtain body p where "B64StandardEncode rest = body @ replicate p 61" "list_all b64_plain body"
      "B64ToB256Bytes (length body) = length rest" by blast
  then show ?case unfolding B64StandardEncode_sextets
    by (intro exI [of _ "_ # _ # _ # _ # body"] exI [of _ p])
      (auto simp: enc_char_plain fits_sextet B64ToB256Bytes_def)
next
  case (2 a b)
  show ?case unfolding B64StandardEncode_sextets
    by (intro exI [of _ "[_, _, _]"] exI [of _ 1]) (auto simp: enc_char_plain fits_sextet B64ToB256Bytes_def)
next
  case (3 a)
  show ?case unfolding B64StandardEncode_sextets
    by (intro exI [of _ "[_, _]"] exI [of _ 2]) (auto simp: enc_char_plain fits_sextet B64ToB256Bytes_def numeral_2_eq_2)
next
  case 4
  show ?case by (intro exI [of _ "[]"] exI [of _ 0]) (simp add: B64ToB256Bytes_def)
qed

lemma filter_plain: "list_all b64_plain xs \<Longrightarrow> filter (\<lambda>b. \<not> isspace b) xs = xs"
  by (induction xs) (auto simp: b64_plain_def)

lemma strip_padding:
  assumes "list_all b64_plain body"
  shows "rev (dropWhile (\<lambda>b. b = 61) (rev (body @ replicate p 61))) = body"
proof -
  have "dropWhile (\<lambda>b. b = 61) (replicate p 61 @ rev body) = dropWhile (\<lambda>b. b = 61) (rev body)"
    by (simp add: dropWhile_append)
  also have "\<dots> = rev body" unfolding dropWhile_eq_self_iff
    using assms by (auto simp: list_all_iff b64_plain_def hd_rev)
  finally show ?thesis by simp
qed

lemma encoded_text:
  defines "t xs \<equiv> [10] @ B64StandardEncode xs @ [10]"
  shows "filter (\<lambda>b. \<not> isspace b) (t xs) = B64StandardEncode xs" "c_str (t xs) = t xs"
proof -
  obtain body p where b: "B64StandardEncode xs = body @ replicate p 61" "list_all b64_plain body"
    using encode_body [of xs] by blast
  show "filter (\<lambda>b. \<not> isspace b) (t xs) = B64StandardEncode xs"
    unfolding t_def b(1) using filter_plain [OF b(2)] by (simp add: isspace_def)
  show "c_str (t xs) = t xs"
    unfolding c_str_def t_def b(1) takeWhile_eq_all_conv using b(2) by (auto simp: list_all_iff b64_plain_def)
qed

lemma read_encoded:
  assumes "xv_find v path = Some w" "filter (\<lambda>b. \<not> isspace b) (xv_text w) = B64StandardEncode xs"
    and "length data = length xs"
  shows "readB64 v path (int (length xs)) data = (True, xs)"
proof -
  obtain body p where b: "B64StandardEncode xs = body @ replicate p 61" "list_all b64_plain body"
      "B64ToB256Bytes (length body) = length xs"
    using encode_body [of xs] by blast
  have "B64StandardDecode body = Some xs"
    using b64std_loop_encode [of xs "[]"] decode_unpadded [of body p]
    by (simp add: b(1) B64StandardDecode_finish)
  then show ?thesis using assms b strip_padding [OF b(2), of p] unfolding readB64_def Let_def by simp
qed

subsection \<open>Numbers\<close>

lemma digit_byte:
  assumes "d < 10"
  shows "isdigit (of_nat (48 + d)) \<and> unat (of_nat (48 + d) :: byte) = 48 + d"
proof -
  have "unat (of_nat (48 + d) :: byte) = 48 + d" unfolding unat_of_nat using assms by simp
  then show ?thesis using assms by (simp add: isdigit_def word_le_nat_alt del: of_nat_add)
qed

lemma digits_value_snoc: "digits_value (ds @ [d]) = digits_value ds * 10 + (unat d - 48)"
  by (simp add: digits_value_def)

lemma dec_nat_facts: "list_all isdigit (dec_nat n) \<and> dec_nat n \<noteq> [] \<and> digits_value (dec_nat n) = n"
proof (induction n rule: dec_nat.induct)
  case (1 n)
  have d: "unat (of_nat (48 + n mod 10) :: byte) = 48 + n mod 10" "isdigit (of_nat (48 + n mod 10))"
    using digit_byte [of "n mod 10"] by simp_all
  show ?case
  proof (cases "n < 10")
    case True
    then show ?thesis using digit_byte [of n] by (simp add: dec_nat.simps [of n] digits_value_def)
  next
    case False
    then have "digits_value (dec_nat n) = n div 10 * 10 + n mod 10"
      using 1 d(1) by (simp add: dec_nat.simps [of n] digits_value_snoc del: div_mult_mod_eq of_nat_add)
    then show ?thesis using False 1 d(2) by (simp add: dec_nat.simps [of n])
  qed
qed

lemma isdigit_plain: "isdigit b \<Longrightarrow> \<not> isspace b \<and> b \<noteq> 45 \<and> b \<noteq> 43 \<and> b \<noteq> 0"
  by (auto simp: isdigit_def isspace_def word_le_nat_alt)

lemma strtol_digits:
  assumes "list_all isdigit ds" "ds \<noteq> []"
  shows "strtol ds = (min (2 ^ 63 - 1) (int (digits_value ds)), [])"
    and "strtol (45 # ds) = (max (- (2 ^ 63)) (- int (digits_value ds)), [])"
proof -
  have f: "dropWhile isspace ds = ds" "takeWhile isdigit ds = ds" "dropWhile isdigit ds = []"
    using assms isdigit_plain by (auto simp: list_all_iff dropWhile_eq_self_iff)
  moreover have "hd ds \<noteq> 45" "hd ds \<noteq> 43" using assms isdigit_plain by (auto simp: list_all_iff)
  ultimately show "strtol ds = (min (2 ^ 63 - 1) (int (digits_value ds)), [])" 
    using assms(2) by (simp del: takeWhile_eq_all_conv dropWhile_eq_Nil_conv add: strtol_def Let_def max_def min_def)
  have "\<not> isspace 45" by (simp add: isspace_def word_le_nat_alt)
  then show "strtol (45 # ds) = (max (- (2 ^ 63)) (- int (digits_value ds)), [])"
    using f assms(2) by (simp del: takeWhile_eq_all_conv dropWhile_eq_Nil_conv add: strtol_def Let_def min_def)
qed

lemma strtol_dec:
  assumes "- (2 ^ 31) \<le> i" "i < 2 ^ 31"
  shows "strtol (c_str (dec_int i)) = (i, [])"
proof -
  note n = dec_nat_facts [of "nat i"] dec_nat_facts [of "nat (- i)"]
  have "c_str (dec_int i) = dec_int i"
    using n isdigit_plain by (auto simp: c_str_def dec_int_def list_all_iff)
  then show ?thesis
    using assms n strtol_digits [of "dec_nat (nat i)"] strtol_digits [of "dec_nat (nat (- i))"]
    by (auto simp: dec_int_def)
qed

lemma dec_int_visible: "\<not> list_all isspace (dec_int i)"
  using dec_nat_facts [of "nat i"] dec_nat_facts [of "nat (- i)"] isdigit_plain
  by (auto simp: dec_int_def list_all_iff isspace_def word_le_nat_alt neq_Nil_conv)


subsection \<open>Elements that were printed and parsed\<close>

text \<open>
  What tinyxml2 gives back for a document it printed: the document without the text nodes that are blank. This
  holds for text with neither NUL nor carriage return in it, which \<open>v6_ok\<close> asks for.
\<close>

definition nonblank :: "xml \<Rightarrow> bool" where
  "nonblank x = (case x of CharData t \<Rightarrow> \<not> list_all isspace t | _ \<Rightarrow> True)"

fun drop_blank :: "xml \<Rightarrow> xml" where
  "drop_blank (Element n attrs cs) = Element n attrs (filter nonblank (map drop_blank cs))"
| "drop_blank x = x"

definition xml_keeps :: "(xml list \<Rightarrow> 'x) \<Rightarrow> ('x \<Rightarrow> xml list option) \<Rightarrow> xml list \<Rightarrow> bool" where
  "xml_keeps print parse doc = (parse (print doc) = Some (map drop_blank doc))"

definition text_ok :: "bytes \<Rightarrow> bool" where
  "text_ok t = (0 \<notin> set t \<and> 13 \<notin> set t \<and> (list_all isspace t \<longrightarrow> t = []))"

definition int32_ok :: "int \<Rightarrow> bool" where
  "int32_ok i = (- (2 ^ 31) \<le> i \<and> i < 2 ^ 31)"

definition v6_ok :: "EncFSConfig \<Rightarrow> bool" where
  "v6_ok c = (text_ok (creator c) \<and> text_ok (if_name (cipherIface c)) \<and> text_ok (if_name (nameIface c)) \<and>
     int32_ok (if_current (cipherIface c)) \<and> int32_ok (if_revision (cipherIface c)) \<and>
     int32_ok (if_current (nameIface c)) \<and> int32_ok (if_revision (nameIface c)) \<and>
     int32_ok (keySize c) \<and> int32_ok (blockSize c) \<and> int32_ok (blockMACBytes c) \<and> int32_ok (blockMACRandBytes c) \<and>
     int32_ok (kdfIterations c) \<and> int32_ok (desiredKDFDuration c) \<and>
     int32_ok (int (length (keyData c))) \<and> int32_ok (int (length (salt c))))"

lemma to_int32_id: "int32_ok i \<Longrightarrow> to_int32 i = i"
  by (simp add: int32_ok_def to_int32_def sint_sbintrunc' signed_take_bit_int_eq_self)

lemma find_el:
  assumes "nm \<noteq> []" "hd nm \<noteq> CHR ''@''"
  shows "xv_find (XmlNode (Element n attrs cs)) (str nm) = map_option XmlNode (find (is_el (str nm)) cs)"
proof -
  have "str [hd nm] \<noteq> str ''@''" using assms(2) by (simp only: str_inject) simp
  then have "hd (str nm) \<noteq> 64" using assms(1) by (cases nm) (simp_all add: str_def)
  then show ?thesis by (simp add: FirstChildElement_def)
qed

declare xv_find.simps [simp del]

named_theorems el_simps \<open>finding and reading elements of a written configuration\<close>

lemma kept_element [el_simps]:
  "nonblank (drop_blank (addEl_int nm i))" "nonblank (drop_blank (addEl_string nm t))"
  "nonblank (drop_blank (addEl_interface nm attrs a))" "nonblank (drop_blank (addEl_bytes nm d))"
  "nonblank (drop_blank (el_text nm t))"
  by (simp_all add: nonblank_def addEl_int_def addEl_string_def addEl_interface_def addEl_bytes_def el_text_def)

lemma kept_name [el_simps]:
  "is_el (str nm) (drop_blank (addEl_int nm' i)) \<longleftrightarrow> nm' = nm" "is_el (str nm) (drop_blank (addEl_string nm' t)) \<longleftrightarrow> nm' = nm"
  "is_el (str nm) (drop_blank (addEl_interface nm' attrs a)) \<longleftrightarrow> nm' = nm" "is_el (str nm) (drop_blank (addEl_bytes nm' d)) \<longleftrightarrow> nm' = nm"
  "is_el (str nm) (drop_blank (el_text nm' t)) \<longleftrightarrow> nm' = nm"
  by (simp_all add: is_el_def addEl_int_def addEl_string_def addEl_interface_def addEl_bytes_def el_text_def)

lemma text_of_el: "xv_text (XmlNode (drop_blank (el_text nm t))) = (if list_all isspace t then [] else t)"
  by (simp add: xv_text_def el_text_def nonblank_def)

lemma c_str_ok: "text_ok t \<Longrightarrow> c_str t = t"
  by (auto simp: text_ok_def c_str_def)

lemma read_el_int:
  assumes "xv_find v p = Some (XmlNode (drop_blank (addEl_int nm i)))" "int32_ok i"
  shows "read_int v p out = (True, i)" "read_long v p out = (True, i)"
  using assms strtol_dec [of i]
  by (simp_all add: read_int_def read_long_def addEl_int_def text_of_el dec_int_visible int32_ok_def)

lemma read_el_bool:
  "xv_find v p = Some (XmlNode (drop_blank (addEl_int nm (of_bool b)))) \<Longrightarrow> read_bool v p out = (True, b)"
  using strtol_dec [of "of_bool b"] by (simp add: read_bool_def addEl_int_def text_of_el dec_int_visible)

lemma read_el_string:
  "xv_find v p = Some (XmlNode (drop_blank (addEl_string nm t))) \<Longrightarrow> text_ok t \<Longrightarrow> read_string v p out = (True, t)"
  using c_str_ok [of t] by (auto simp: read_string_def addEl_string_def text_of_el text_ok_def)

lemma read_el_interface:
  assumes "xv_find v p = Some (XmlNode (drop_blank (addEl_interface nm attrs a)))"
    and "text_ok (if_name a)" "int32_ok (if_current a)" "int32_ok (if_revision a)"
  shows "read_interface v p out = (True, a\<lparr>if_age := if_age out\<rparr>)"
proof -
  let ?n = "XmlNode (drop_blank (addEl_interface nm attrs a))"
  have "read_string ?n (str ''name'') x = (True, if_name a)" for x
    by (rule read_el_string [of _ _ "''name''"])
      (use assms in \<open>simp_all add: addEl_interface_def find_el el_simps addEl_string_def\<close>)
  moreover have "read_int ?n (str ''major'') x = (True, if_current a)" for x
    by (rule read_el_int(1) [of _ _ "''major''"])
      (use assms in \<open>simp_all add: addEl_interface_def find_el el_simps addEl_int_def\<close>)
  moreover have "read_int ?n (str ''minor'') x = (True, if_revision a)" for x
    by (rule read_el_int(1) [of _ _ "''minor''"])
      (use assms in \<open>simp_all add: addEl_interface_def find_el el_simps addEl_int_def\<close>)
  ultimately show ?thesis using assms(1) by (simp add: read_interface_def Let_def)
qed

lemma read_el_bytes:
  assumes "xv_find v p = Some (XmlNode (drop_blank (addEl_bytes nm d)))" "length data = length d"
  shows "readB64 v p (int (length d)) data = (True, d)"
proof (rule read_encoded [OF assms(1) _ assms(2)])
  let ?t = "[10] @ B64StandardEncode d @ [10]"
  have "xv_text (XmlNode (drop_blank (addEl_bytes nm d))) = (if list_all isspace ?t then [] else ?t)"
    unfolding addEl_bytes_def addEl_string_def encoded_text(2) by (rule text_of_el)
  moreover have "list_all isspace ?t \<Longrightarrow> B64StandardEncode d = []"
    using encoded_text(1) [of d] by (auto simp: list_all_iff filter_empty_conv)
  ultimately show "filter (\<lambda>b. \<not> isspace b) (xv_text (XmlNode (drop_blank (addEl_bytes nm d)))) = B64StandardEncode d"
    using encoded_text(1) [of d] by auto
qed


lemma rd_fieldI: "rdr (getf c) = (ok, x) \<Longrightarrow> rd_field rdr getf setf c = (Inr ok, setf x c)"
  by (simp add: rd_field_def)

text \<open>The body of the reader, on an element in which every field is found.\<close>

lemma readV6_body_fields:
  assumes "subVersion c0 \<ge> 20080816" "\<forall>n. length (junk n) = nat n"
    and "\<And>x. read_string v (str ''creator'') x = (True, creator c)"
    and "\<And>x. read_interface v (str ''cipherAlg'') x = (True, (cipherIface c)\<lparr>if_age := if_age x\<rparr>)"
    and "\<And>x. read_interface v (str ''nameAlg'') x = (True, (nameIface c)\<lparr>if_age := if_age x\<rparr>)"
    and "\<And>x. read_int v (str ''keySize'') x = (True, keySize c)" "\<And>x. read_int v (str ''blockSize'') x = (True, blockSize c)"
    and "\<And>x. read_bool v (str ''plainData'') x = (True, plainData c)" "\<And>x. read_bool v (str ''uniqueIV'') x = (True, uniqueIV c)"
    and "\<And>x. read_bool v (str ''chainedNameIV'') x = (True, chainedNameIV c)"
    and "\<And>x. read_bool v (str ''externalIVChaining'') x = (True, externalIVChaining c)"
    and "\<And>x. read_int v (str ''blockMACBytes'') x = (True, blockMACBytes c)"
    and "\<And>x. read_int v (str ''blockMACRandBytes'') x = (True, blockMACRandBytes c)"
    and "\<And>x. read_bool v (str ''allowHoles'') x = (True, allowHoles c)"
    and "\<And>x. read_int v (str ''encodedKeySize'') x = (True, int (length (keyData c)))"
    and "\<And>x. length x = length (keyData c) \<Longrightarrow>
      readB64 v (str ''encodedKeyData'') (int (length (keyData c))) x = (True, keyData c)"
    and "\<And>x. read_int v (str ''saltLen'') x = (True, int (length (salt c)))"
    and "\<And>x. length x = length (salt c) \<Longrightarrow> readB64 v (str ''saltData'') (int (length (salt c))) x = (True, salt c)"
    and "\<And>x. read_int v (str ''kdfIterations'') x = (True, kdfIterations c)"
    and "\<And>x. read_long v (str ''desiredKDFDuration'') x = (True, desiredKDFDuration c)"
  shows "readV6_body uninit junk v c0 =
    (Inr True, c\<lparr>cfgType := cfgType c0, subVersion := subVersion c0,
       cipherIface := (cipherIface c)\<lparr>if_age := if_age (cipherIface c0)\<rparr>,
       nameIface := (nameIface c)\<lparr>if_age := if_age (nameIface c0)\<rparr>\<rparr>)"
  unfolding readV6_body_def
  by (simp add: assms rd_fieldI io_bind_split io_simps new_buffer_def Let_def)

text \<open>Where the fields are found in the element that was written.\<close>

definition v6_node :: "EncFSConfig \<Rightarrow> xml_value" where
  "v6_node c = XmlNode (drop_blank (v6_cfg c))"

lemma v6_found:
  "xv_find (v6_node c) (str ''creator'') = Some (XmlNode (drop_blank (addEl_string ''creator'' (creator c))))"
  "xv_find (v6_node c) (str ''cipherAlg'') = Some (XmlNode (drop_blank (addEl_interface ''cipherAlg'' [(str ''class_id'', str ''1''), (str ''tracking_level'', str ''0''), (str ''version'', str ''0'')] (cipherIface c))))"
  "xv_find (v6_node c) (str ''nameAlg'') = Some (XmlNode (drop_blank (addEl_interface ''nameAlg'' [] (nameIface c))))"
  "xv_find (v6_node c) (str ''keySize'') = Some (XmlNode (drop_blank (addEl_int ''keySize'' (keySize c))))"
  "xv_find (v6_node c) (str ''blockSize'') = Some (XmlNode (drop_blank (addEl_int ''blockSize'' (blockSize c))))"
  "xv_find (v6_node c) (str ''plainData'') = Some (XmlNode (drop_blank (addEl_int ''plainData'' (of_bool (plainData c)))))"
  "xv_find (v6_node c) (str ''uniqueIV'') = Some (XmlNode (drop_blank (addEl_int ''uniqueIV'' (of_bool (uniqueIV c)))))"
  "xv_find (v6_node c) (str ''chainedNameIV'') = Some (XmlNode (drop_blank (addEl_int ''chainedNameIV'' (of_bool (chainedNameIV c)))))"
  "xv_find (v6_node c) (str ''externalIVChaining'') = Some (XmlNode (drop_blank (addEl_int ''externalIVChaining'' (of_bool (externalIVChaining c)))))"
  "xv_find (v6_node c) (str ''blockMACBytes'') = Some (XmlNode (drop_blank (addEl_int ''blockMACBytes'' (blockMACBytes c))))"
  "xv_find (v6_node c) (str ''blockMACRandBytes'') = Some (XmlNode (drop_blank (addEl_int ''blockMACRandBytes'' (blockMACRandBytes c))))"
  "xv_find (v6_node c) (str ''allowHoles'') = Some (XmlNode (drop_blank (addEl_int ''allowHoles'' (of_bool (allowHoles c)))))"
  "xv_find (v6_node c) (str ''encodedKeySize'') = Some (XmlNode (drop_blank (addEl_int ''encodedKeySize'' (to_int32 (int (length (keyData c)))))))"
  "xv_find (v6_node c) (str ''encodedKeyData'') = Some (XmlNode (drop_blank (addEl_bytes ''encodedKeyData'' (keyData c))))"
  "xv_find (v6_node c) (str ''saltLen'') = Some (XmlNode (drop_blank (addEl_int ''saltLen'' (to_int32 (int (length (salt c)))))))"
  "xv_find (v6_node c) (str ''saltData'') = Some (XmlNode (drop_blank (addEl_bytes ''saltData'' (salt c))))"
  "xv_find (v6_node c) (str ''kdfIterations'') = Some (XmlNode (drop_blank (addEl_int ''kdfIterations'' (kdfIterations c))))"
  "xv_find (v6_node c) (str ''desiredKDFDuration'') = Some (XmlNode (drop_blank (addEl_int ''desiredKDFDuration'' (to_int32 (desiredKDFDuration c)))))"
  "xv_find (v6_node c) (str ''version'') = Some (XmlNode (drop_blank (addEl_int ''version'' (V6SubVersion))))"
  by (simp_all add: v6_node_def v6_cfg_def find_el el_simps)


lemmas v6_ints = v6_found(4,5,10,11,13,15,17,19) [THEN read_el_int(1)] v6_found(18) [THEN read_el_int(2)]

lemmas v6_bools = v6_found(6,7,8,9,12) [THEN read_el_bool]

lemma readV6_body_written:
  assumes "v6_ok c" "subVersion c0 \<ge> 20080816" "\<forall>n. length (junk n) = nat n"
  shows "readV6_body uninit junk (v6_node c) c0 =
    (Inr True, c\<lparr>cfgType := cfgType c0, subVersion := subVersion c0,
       cipherIface := (cipherIface c)\<lparr>if_age := if_age (cipherIface c0)\<rparr>,
       nameIface := (nameIface c)\<lparr>if_age := if_age (nameIface c0)\<rparr>\<rparr>)"
  by (rule readV6_body_fields)
    (use assms in \<open>simp_all add: v6_ok_def to_int32_id v6_ints v6_bools v6_found(1) [THEN read_el_string]
       v6_found(2,3) [THEN read_el_interface] v6_found(14,16) [THEN read_el_bytes]\<close>)

text \<open>Files by their paths, and a \<open>SaveFile\<close> that succeeds.\<close>

definition SaveFile_ok :: "(xml list \<Rightarrow> 'x) \<Rightarrow> bytes \<Rightarrow> xml list \<Rightarrow> (bytes \<Rightarrow> 'x option, bool) io" where
  "SaveFile_ok print path doc disk = (Inr True, disk(path \<mapsto> print doc))"

lemma readV6_written:
  assumes "xml_keeps print parse (v6_document c)" "v6_ok c" "\<forall>n. length (junk n) = nat n"
    and "content path = Some (print (v6_document c))"
  shows "readV6Config uninit junk content parse path c0 =
    (Inr True, c\<lparr>cfgType := cfgType c0, subVersion := 20100713,
       cipherIface := (cipherIface c)\<lparr>if_age := if_age (cipherIface c0)\<rparr>,
       nameIface := (nameIface c)\<lparr>if_age := if_age (nameIface c0)\<rparr>\<rparr>)"
proof -
  have doc: "XmlReader_at (map drop_blank (v6_document c)) (str ''boost_serialization'') =
      XmlNode (Element (str ''boost_serialization'')
        [(str ''signature'', str ''serialization::archive''), (str ''version'', str ''7'')] [drop_blank (v6_cfg c)])"
    by (simp add: v6_document_def XmlReader_at_def FirstChildElement_def is_el_def v6_cfg_def nonblank_def)
  have cfg: "xv_find (XmlNode (Element n attrs [drop_blank (v6_cfg c)])) (str ''cfg'') = Some (v6_node c)" for n attrs
    by (simp add: find_el is_el_def v6_cfg_def v6_node_def)
  have ver: "read_int (v6_node c) (str ''version'') x = (True, 20100713)" for x
    using v6_ints(8) [of c x] by (simp add: int32_ok_def V6SubVersion_def)
  have "readV6Config uninit junk content parse path c0 =
      readV6_body uninit junk (v6_node c) (c0\<lparr>subVersion := 20100713\<rparr>)"
    using assms(1,4)
    by (simp add: readV6Config_def XmlReader_load_def xml_keeps_def doc cfg ver io_bind_split io_simps v6_subVersion_def)
  then show ?thesis
    using readV6_body_written [OF assms(2) _ assms(3), of "c0\<lparr>subVersion := 20100713\<rparr>" uninit] by simp
qed

text \<open>The path of the current format, which is the first of the table.\<close>

definition v6_path :: "(bytes \<Rightarrow> bytes option) \<Rightarrow> bytes \<Rightarrow> bytes \<Rightarrow> bytes" where
  "v6_path getenv rootDir cmdConfig = (if cmdConfig \<noteq> [] then cmdConfig
     else case getenv (str ''ENCFS6_CONFIG'') of Some f \<Rightarrow> f | None \<Rightarrow> rootDir @ str ''.encfs6.xml'')"

lemma readConfig_v6:
  assumes "fileExists (v6_path getenv rootDir cmdConfig)"
  shows "readConfig load fileExists getenv rootDir cmdConfig c =
    readConfig_load load (hd ConfigFileMapping) (v6_path getenv rootDir cmdConfig) c"
proof (cases "cmdConfig = []")
  case True
  then show ?thesis using assms
    by (cases "getenv (str ''ENCFS6_CONFIG'')") (simp_all add: readConfig_def ConfigFileMapping_def v6_path_def)
qed (use assms in \<open>simp add: readConfig_def ConfigFileMapping_def v6_path_def\<close>)

lemma saveConfig_v6:
  "saveConfig save getenv Config_V6 rootDir cmdConfig =
     io_catch (save FormatV6 (v6_path getenv rootDir cmdConfig)) (\<lambda>_. io_return False)"
  by (simp add: saveConfig_def ConfigFileMapping_def v6_path_def split: option.split)

lemma readConfig_written:
  assumes "xml_keeps print parse (v6_document c)" "v6_ok c" "\<forall>n. length (junk n) = nat n"
    and "disk (v6_path getenv rootDir cmdConfig) = Some (print (v6_document c))"
    and "\<And>path info. load FormatV6 path info = readV6Config uninit junk disk parse path"
  shows "readConfig load (\<lambda>path. disk path \<noteq> None) getenv rootDir cmdConfig c0 =
    (Inr Config_V6, c\<lparr>cfgType := Config_V6, subVersion := 20100713,
       cipherIface := (cipherIface c)\<lparr>if_age := if_age (cipherIface c0)\<rparr>,
       nameIface := (nameIface c)\<lparr>if_age := if_age (nameIface c0)\<rparr>\<rparr>)"
proof -
  have "disk (v6_path getenv rootDir cmdConfig) \<noteq> None" using assms(4) by simp
  from readConfig_v6 [of "\<lambda>path. disk path \<noteq> None", OF this, of load c0] show ?thesis
    using readV6_written [where content = disk, OF assms(1-4), of uninit c0] assms(5)
    by (simp add: readConfig_load_def ConfigFileMapping_def io_bind_split io_catch_def io_simps)
qed

section \<open>What the callers rely on\<close>

text \<open>
  Claim C18. A volume description survives the version 6 configuration file, wherever \<open>saveConfig\<close> puts it:
  when the library gives back the document that was written, without blank text, \<open>readConfig\<close> finds the file
  under the same command line and environment and reads every field back, whatever the uninitialised
  variables and buffers hold. Three things are not stored: the type of the configuration, which is set from the
  file's place in the table, the sub-version, which becomes that of the writing program, and the \<open>age\<close> of
  the two interfaces, which stays what it was.
\<close>

theorem v6_config_roundtrip:
  assumes "xml_keeps print parse (v6_document c)" "v6_ok c" "\<forall>n. length (junk n) = nat n"
  shows "\<exists>disk'. saveConfig (\<lambda>f path. writeV6Config (SaveFile_ok print) path c) getenv Config_V6 rootDir cmdConfig disk =
      (Inr True, disk') \<and>
    readConfig (\<lambda>f path info. readV6Config uninit junk disk' parse path) (\<lambda>path. disk' path \<noteq> None) getenv rootDir cmdConfig c0 =
      (Inr Config_V6, c\<lparr>cfgType := Config_V6, subVersion := 20100713,
         cipherIface := (cipherIface c)\<lparr>if_age := if_age (cipherIface c0)\<rparr>,
         nameIface := (nameIface c)\<lparr>if_age := if_age (nameIface c0)\<rparr>\<rparr>)"
proof -
  define disk' where "disk' = disk(v6_path getenv rootDir cmdConfig \<mapsto> print (v6_document c))"
  have "saveConfig (\<lambda>f path. writeV6Config (SaveFile_ok print) path c) getenv Config_V6 rootDir cmdConfig disk =
      (Inr True, disk')"
    by (simp add: saveConfig_v6 disk'_def writeV6Config_def SaveFile_ok_def io_catch_def)
  moreover have "disk' (v6_path getenv rootDir cmdConfig) = Some (print (v6_document c))" by (simp add: disk'_def)
  note readConfig_written [where disk = disk', OF assms this, of "\<lambda>f path info. readV6Config uninit junk disk' parse path" uninit c0]
  ultimately show ?thesis by blast
qed

theorem v6_config_roundtrip_witness:
  "let c = (EncFSConfig_new 192 1024)\<lparr>creator := str ''EncFS 1.9.5'', cipherIface := Interface (str ''ssl/aes'') 3 0 0,
         nameIface := Interface (str ''nameio/block'') 4 0 0, keyData := [1, 2, 3, 4], salt := [250, 0],
         kdfIterations := 190000, uniqueIV := True, chainedNameIV := True\<rparr> in
   \<exists>disk'. saveConfig (\<lambda>f path. writeV6Config (SaveFile_ok (\<lambda>d. d)) path c) (\<lambda>_. None) Config_V6 (str ''/v/'') [] (\<lambda>_. None) =
      (Inr True, disk') \<and>
    readConfig (\<lambda>f path info. readV6Config (\<lambda>_. - 7) (\<lambda>n. replicate (nat n) 85) disk' (\<lambda>d. Some (map drop_blank d)) path)
      (\<lambda>path. disk' path \<noteq> None) (\<lambda>_. None) (str ''/v/'') [] (EncFSConfig_new 0 0) =
      (Inr Config_V6, c\<lparr>cfgType := Config_V6, subVersion := 20100713\<rparr>)"
proof -
  let ?c = "(EncFSConfig_new 192 1024)\<lparr>creator := str ''EncFS 1.9.5'', cipherIface := Interface (str ''ssl/aes'') 3 0 0,
         nameIface := Interface (str ''nameio/block'') 4 0 0, keyData := [1, 2, 3, 4], salt := [250, 0],
         kdfIterations := 190000, uniqueIV := True, chainedNameIV := True\<rparr>"
  have ok: "v6_ok ?c"
    by (simp add: v6_ok_def EncFSConfig_new_def Interface_def int32_ok_def text_ok_def str_def isspace_def word_le_nat_alt)
  have "xml_keeps (\<lambda>d. d) (\<lambda>d. Some (map drop_blank d)) (v6_document ?c)" by (simp add: xml_keeps_def)
  from v6_config_roundtrip [OF this ok, of "\<lambda>n. replicate (nat n) 85" "\<lambda>_. None" "str ''/v/''" "[]" "\<lambda>_. None"
      "\<lambda>_. - 7" "EncFSConfig_new 0 0"]
  show ?thesis unfolding Let_def by (simp add: EncFSConfig_new_def Interface_def Interface_default_def)
qed

end
