(* ===== verification/Volume_Setup.thy ===== *)
theory Volume_Setup
  imports Xml_Config Dir_Node
begin

text \<open>
  Creating and opening a volume (\<^verbatim>\<open>encfs/FileUtils.cpp\<close>): the questions that are put to the user, the
  password and the key made from it, \<open>createV6Config\<close> and \<open>initFS\<close>.

  \<^item> What the functions change is \<open>mount_state\<close>: what is still to be read from the standard input and from the
    terminal, the random numbers, the files, and the options, of which \<open>readOnly\<close> is assigned.
  \<^item> What they do not change is \<open>mount_env\<close>: the registered ciphers, the XML library, the environment and
    the password program. The output to the user is left out.
  \<^item> A file is a value of the type \<open>'x\<close>; \<open>se_print\<close> and \<open>se_parse\<close> are those of tinyxml2 and
    \<open>se_bytes\<close> and \<open>se_of_bytes\<close> relate it to bytes, as which the binary formats are stored. \<open>se_saves\<close>
    tells whether a file can be written.
  \<^item> A loop that repeats its question at the end of the input never ends and is \<open>Diverged\<close>.
\<close>

section \<open>Options and state\<close>

datatype config_mode = Config_Prompt | Config_Standard | Config_Paranoia

record efs_opts =
  opt_rootDir :: bytes
  opt_mountPoint :: bytes
  opt_unmountPoint :: bytes
  opt_createIfNotFound :: bool
  opt_idleTracking :: bool
  opt_mountOnDemand :: bool
  opt_delayMount :: bool
  opt_unmount :: bool
  opt_checkKey :: bool
  opt_forceDecode :: bool
  opt_passwordProgram :: bytes
  opt_useStdin :: bool
  opt_annotate :: bool
  opt_ownerCreate :: bool
  opt_reverseEncryption :: bool
  opt_noCache :: bool
  opt_readOnly :: bool
  opt_insecure :: bool
  opt_requireMac :: bool
  opt_configMode :: config_mode
  opt_config :: bytes

definition EncFS_Opts :: efs_opts where
  "EncFS_Opts =
     \<lparr>opt_rootDir = [], opt_mountPoint = [], opt_unmountPoint = [], opt_createIfNotFound = True,
      opt_idleTracking = False, opt_mountOnDemand = False, opt_delayMount = False, opt_unmount = False,
      opt_checkKey = True, opt_forceDecode = False, opt_passwordProgram = [], opt_useStdin = False,
      opt_annotate = False, opt_ownerCreate = False, opt_reverseEncryption = False, opt_noCache = False,
      opt_readOnly = False, opt_insecure = False, opt_requireMac = False, opt_configMode = Config_Prompt,
      opt_config = []\<rparr>"

text \<open>
  A cipher with the operations that make keys. \<open>None\<close> for a derivation means that it does not return.
\<close>

record ('k, 'r) keyed =
  kc_cipher :: "('k, 'r) cipher"
  kc_newKey :: "bytes \<Rightarrow> int \<Rightarrow> int \<Rightarrow> bytes \<Rightarrow> ('k option \<times> int) option"
  kc_newKey_old :: "bytes \<Rightarrow> 'k option"
  kc_newRandomKey :: "'r \<Rightarrow> 'k option \<times> 'r"

text \<open>
  \<open>se_null\<close> is the cipher under the name \<open>nullCipher\<close>. \<open>se_saves\<close> says whether a file can be opened for writing,
  \<open>se_written\<close> what \<open>write\<close> returns for the bytes of a binary configuration; a document that tinyxml2 prints to
  an open file is in it. \<open>se_passProg\<close> runs a program for a root directory and
  gives the pieces of its output, \<open>None\<close> when it cannot be started. The last two are what variables and
  buffers without an initial value hold.
\<close>

record ('k, 'r, 'x) mount_env =
  se_ciphers :: "(exn + ('k, 'r) keyed) cipher_map"
  se_null :: "('k, 'r) cipher"
  se_version :: bytes
  se_print :: "xml list \<Rightarrow> 'x"
  se_parse :: "'x \<Rightarrow> xml list option"
  se_bytes :: "'x \<Rightarrow> bytes"
  se_of_bytes :: "bytes \<Rightarrow> 'x"
  se_saves :: "bytes \<Rightarrow> bool"
  se_written :: "bytes \<Rightarrow> bytes \<Rightarrow> int"
  se_getenv :: "bytes \<Rightarrow> bytes option"
  se_passProg :: "bytes \<Rightarrow> bytes \<Rightarrow> bytes list option"
  se_uninit :: "string \<Rightarrow> int"
  se_junk :: "int \<Rightarrow> bytes"

text \<open>On the terminal, \<open>None\<close> is a failing read.\<close>

record ('r, 'x) mount_state =
  su_stdin :: bytes
  su_tty :: "byte option list"
  su_rng :: 'r
  su_disk :: "bytes \<Rightarrow> 'x option"
  su_opts :: efs_opts

definition getCipher :: "('k, 'r, 'x) mount_env \<Rightarrow> EncFSConfig \<Rightarrow> (exn + ('k, 'r) keyed) option" where
  "getCipher env c = Cipher_New (cipherIface c) (keySize c) (se_ciphers env)"

section \<open>Questions\<close>

text \<open>\<open>fgets\<close> with a buffer of \<open>n\<close> bytes, and what \<open>strtol\<close> makes of the answer as an \<open>int\<close>.\<close>

definition fgets :: "nat \<Rightarrow> bytes \<Rightarrow> bytes option \<times> bytes" where
  "fgets n inp =
     (if inp = [] then (None, [])
      else let l = take (n - 1) (takeWhile (\<lambda>b. b \<noteq> 10) inp @ take 1 (dropWhile (\<lambda>b. b \<noteq> 10) inp))
           in (Some l, drop (length l) inp))"

definition answer_number :: "bytes option \<Rightarrow> int" where
  "answer_number res = (case res of None \<Rightarrow> 0 | Some l \<Rightarrow> to_int32 (fst (strtol (c_str l))))"

lemma fgets_shorter: "inp \<noteq> [] \<Longrightarrow> 1 < n \<Longrightarrow> length (snd (fgets n inp)) < length inp"
  by (cases inp) (auto simp: fgets_def Let_def)

lemma fgets_less: "(res, inp') = fgets 10 inp \<Longrightarrow> inp \<noteq> [] \<Longrightarrow> length inp' < length inp"
  using fgets_shorter [of inp 10] by (cases "fgets 10 inp") auto

text \<open>The loop of \<open>selectCipherAlgorithm\<close> and \<open>selectNameCoding\<close>: the index of the choice.\<close>

function select_number :: "nat \<Rightarrow> bytes \<Rightarrow> (exn + nat) \<times> bytes" where
  "select_number sz inp =
     (if inp = [] then (Inl Diverged, [])
      else case fgets 10 inp of (res, inp) \<Rightarrow>
        let k = answer_number res in
        if k < 1 \<or> k > int sz then select_number sz inp else (Inr (nat k - 1), inp))"
  by pat_completeness auto
termination by (relation "measure (length \<circ> snd)") (auto intro: fgets_less)

declare select_number.simps [simp del]

text \<open>\<open>boolDefault\<close> reads lines until one is \<open>y\<close>, \<open>n\<close> or empty, or there is no more.\<close>

function boolDefault :: "bool \<Rightarrow> bytes \<Rightarrow> bool \<times> bytes" where
  "boolDefault defaultValue inp =
     (if inp = [] then (defaultValue, [])
      else let response = takeWhile (\<lambda>b. b \<noteq> 10) inp; inp' = drop (Suc (length response)) inp in
        if response = [] then (defaultValue, inp')
        else if response = str ''y'' then (True, inp')
        else if response = str ''n'' then (False, inp')
        else boolDefault defaultValue inp')"
  by pat_completeness auto
termination by (relation "measure (length \<circ> snd)") auto

declare boolDefault.simps [simp del]

text \<open>Put a question, that is, run a reader on the standard input.\<close>

definition ask :: "(bytes \<Rightarrow> 'a \<times> bytes) \<Rightarrow> (('r, 'x) mount_state, 'a) io" where
  "ask f s = (case f (su_stdin s) of (r, inp) \<Rightarrow> (Inr r, s\<lparr>su_stdin := inp\<rparr>))"

definition ask_exn :: "(bytes \<Rightarrow> (exn + 'a) \<times> bytes) \<Rightarrow> (('r, 'x) mount_state, 'a) io" where
  "ask_exn f s = (case f (su_stdin s) of (r, inp) \<Rightarrow> (r, s\<lparr>su_stdin := inp\<rparr>))"

definition selectCipherAlgorithm :: "('k, 'r, 'x) mount_env \<Rightarrow> (('r, 'x) mount_state, cipher_algorithm) io" where
  "selectCipherAlgorithm env =
     (let algorithms = GetAlgorithmList False (se_ciphers env) in
      io_bind (ask_exn (select_number (length algorithms))) (\<lambda>k. io_return (algorithms ! k)))"

text \<open>The list of name codings is the same for every cipher and key.\<close>

definition name_algorithms :: "(bytes \<times> bytes \<times> interface) list" where
  "name_algorithms = NameIO_GetAlgorithmList False (name_registrations (NullCipher NullInterface :: (unit, unit) cipher) () [])"

definition selectNameCoding :: "(('r, 'x) mount_state, interface) io" where
  "selectNameCoding =
     (let algorithms = name_algorithms in
      io_bind (ask_exn (select_number (length algorithms))) (\<lambda>k. io_return (snd (snd (algorithms ! k)))))"

definition io_closest :: "range \<Rightarrow> int \<Rightarrow> ('s, int) io" where
  "io_closest r v = (case closest r v of None \<Rightarrow> io_throw Diverged | Some w \<Rightarrow> io_return w)"

definition selectKeySize :: "cipher_algorithm \<Rightarrow> (('r, 'x) mount_state, int) io" where
  "selectKeySize alg =
     (let r = alg_keyLength alg in
      if minVal r = maxVal r then io_return (minVal r)
      else io_bind (ask (fgets 10)) (\<lambda>res. io_closest r (answer_number res)))"

definition DefaultBlockSize :: int where "DefaultBlockSize = 1024"

definition selectBlockSize :: "cipher_algorithm \<Rightarrow> (('r, 'x) mount_state, int) io" where
  "selectBlockSize alg =
     (let r = alg_blockSize alg in
      if minVal r = maxVal r then io_return (minVal r)
      else io_bind (ask (fgets 10)) (\<lambda>res.
        io_closest r (if res \<noteq> None \<and> answer_number res \<ge> minVal r then answer_number res else DefaultBlockSize)))"

definition selectPlainData :: "bool \<Rightarrow> (('r, 'x) mount_state, bool) io" where
  "selectPlainData insecure = (if insecure then ask (boolDefault False) else io_return False)"

text \<open>The two numbers that \<open>selectBlockMAC\<close> assigns.\<close>

definition selectBlockMAC :: "bool \<Rightarrow> (('r, 'x) mount_state, int \<times> int) io" where
  "selectBlockMAC forceMac =
     io_bind (if \<not> forceMac then ask (boolDefault False) else io_return True) (\<lambda>addMAC.
     io_bind (ask (fgets 10)) (\<lambda>res.
     let randSize = answer_number res;
         randSize = (if randSize < 0 then 0 else randSize);
         randSize = (if randSize > 8 then 8 else randSize)
     in io_return (if addMAC then 8 else 0, randSize)))"

definition selectUniqueIV :: "bool \<Rightarrow> (('r, 'x) mount_state, bool) io" where
  "selectUniqueIV default_answer = ask (boolDefault default_answer)"

definition selectChainedIV :: "(('r, 'x) mount_state, bool) io" where
  "selectChainedIV = ask (boolDefault True)"

definition selectExternalChainedIV :: "(('r, 'x) mount_state, bool) io" where
  "selectExternalChainedIV = ask (boolDefault False)"

definition selectZeroBlockPassThrough :: "(('r, 'x) mount_state, bool) io" where
  "selectZeroBlockPassThrough = ask (boolDefault True)"

section \<open>Passwords\<close>

definition MaxPassBuf :: nat where "MaxPassBuf = 512"

text \<open>
  \<open>readpassphrase\<close> without flags, on a terminal that delivers the bytes one by one; signals are left
  out. A failing read gives a null pointer, the end of the input does not.
\<close>

definition readpassphrase :: "nat \<Rightarrow> (('r, 'x) mount_state, bytes option) io" where
  "readpassphrase bufsiz s =
     (let line = takeWhile (\<lambda>c. c \<noteq> None \<and> c \<noteq> Some 10 \<and> c \<noteq> Some 13) (su_tty s);
          rest = drop (length line) (su_tty s);
          buf = c_str (map the (take (bufsiz - 1) line))
      in (Inr (if rest \<noteq> [] \<and> hd rest = None then None else Some buf), s\<lparr>su_tty := tl rest\<rparr>))"

text \<open>\<open>makeKey\<close>: the key and the configuration with its salt and iterations; it uses random numbers only.\<close>

definition makeKey ::
  "('k, 'r, 'x) mount_env \<Rightarrow> bytes \<Rightarrow> EncFSConfig \<Rightarrow> 'r \<Rightarrow> (exn + 'k option \<times> EncFSConfig) \<times> 'r" where
  "makeKey env password c rng =
     (case getCipher env c of
        Some (Inl e) \<Rightarrow> (Inl e, rng)
      | cph \<Rightarrow>
         if password = [] then (Inl (Fatal ''zero-length passwords are not allowed''), rng)
         else
           let c = (if salt c = [] \<and> kdfIterations c = 0 \<and> cfgType c = Config_V6 then c\<lparr>salt := replicate 20 0\<rparr> else c)
           in case cph of
                Some (Inr cph) \<Rightarrow>
                  if salt c \<noteq> [] then
                    (case (if kdfIterations c = 0 then c_randomize (kc_cipher cph) (length (salt c)) rng else (Some (salt c), rng)) of
                       (None, rng) \<Rightarrow> (Inr (None, c), rng)
                     | (Some sl, rng) \<Rightarrow>
                         (case kc_newKey cph password (kdfIterations c) (desiredKDFDuration c) sl of
                            None \<Rightarrow> (Inl Diverged, rng)
                          | Some (key, n) \<Rightarrow> (Inr (key, c\<lparr>salt := sl, kdfIterations := n\<rparr>), rng)))
                  else
                    (case kc_newKey_old cph password of None \<Rightarrow> (Inl Diverged, rng) | Some key \<Rightarrow> (Inr (Some key, c), rng))
              | _ \<Rightarrow> (Inl (Fatal ''null cipher''), rng))"

definition key_from :: "('k, 'r, 'x) mount_env \<Rightarrow> bytes \<Rightarrow> EncFSConfig \<Rightarrow> (('r, 'x) mount_state, 'k option \<times> EncFSConfig) io" where
  "key_from env password c s = (case makeKey env password c (su_rng s) of (r, rng) \<Rightarrow> (r, s\<lparr>su_rng := rng\<rparr>))"

text \<open>The length of the password is that of the C string in the buffer.\<close>

definition chop_newline :: "bytes \<Rightarrow> bytes" where
  "chop_newline p = (if p \<noteq> [] \<and> last p = 10 then butlast p else p)"

definition getUserKey ::
  "('k, 'r, 'x) mount_env \<Rightarrow> bool \<Rightarrow> EncFSConfig \<Rightarrow> (('r, 'x) mount_state, 'k option \<times> EncFSConfig) io" where
  "getUserKey env useStdin c =
     io_bind (if useStdin then io_bind (ask (fgets MaxPassBuf)) (\<lambda>res. io_return (map_option (\<lambda>l. chop_newline (c_str l)) res))
              else readpassphrase MaxPassBuf) (\<lambda>res.
     case res of None \<Rightarrow> io_throw (Fatal ''error reading password'') | Some password \<Rightarrow> key_from env password c)"

text \<open>The pieces are what \<open>recv\<close> gives; it is over when there is no more.\<close>

definition readPassword :: "bytes list \<Rightarrow> bytes" where
  "readPassword pieces = chop_newline (concat (takeWhile (\<lambda>p. p \<noteq> []) pieces))"

definition getUserKey_prog ::
  "('k, 'r, 'x) mount_env \<Rightarrow> bytes \<Rightarrow> bytes \<Rightarrow> EncFSConfig \<Rightarrow> (('r, 'x) mount_state, 'k option \<times> EncFSConfig) io" where
  "getUserKey_prog env passProg rootDir c =
     (case se_passProg env passProg rootDir of
        None \<Rightarrow> io_return (None, c) | Some pieces \<Rightarrow> key_from env (readPassword pieces) c)"

text \<open>
  \<open>getNewUserKey\<close> asks until the same password is given twice and makes a key. At the end of the input both are
  empty, and \<open>makeKey\<close> ends the program: the last case does not occur.
\<close>

lemma readpassphrase_shorter:
  "(r, s') = readpassphrase n s \<Longrightarrow> length (su_tty s') \<le> length (su_tty s) - 1"
  by (auto simp: readpassphrase_def Let_def)

function getNewUserKey ::
  "('k, 'r, 'x) mount_env \<Rightarrow> EncFSConfig \<Rightarrow> (('r, 'x) mount_state, 'k \<times> EncFSConfig) io" where
  "getNewUserKey env c s =
     (case readpassphrase (MaxPassBuf - 1) s of
        (Inl e, s1) \<Rightarrow> (Inl e, s1)
      | (Inr res1, s1) \<Rightarrow>
         (case readpassphrase (MaxPassBuf - 1) s1 of
            (Inl e, s2) \<Rightarrow> (Inl e, s2)
          | (Inr res2, s2) \<Rightarrow>
             if res1 \<noteq> None \<and> res2 = res1 then
               (case makeKey env (the res1) c (su_rng s2) of
                  (Inl e, rng) \<Rightarrow> (Inl e, s2\<lparr>su_rng := rng\<rparr>)
                | (Inr (Some key, c'), rng) \<Rightarrow> (Inr (key, c'), s2\<lparr>su_rng := rng\<rparr>)
                | (Inr (None, c'), rng) \<Rightarrow>
                    if su_tty s = [] then (Inl Diverged, s2\<lparr>su_rng := rng\<rparr>) else getNewUserKey env c' (s2\<lparr>su_rng := rng\<rparr>))
             else if su_tty s = [] then (Inl Diverged, s2) else getNewUserKey env c s2))"
  by pat_completeness auto
termination
  by (relation "measure (\<lambda>(env, c, s). length (su_tty s))")
    (auto dest!: readpassphrase_shorter simp flip: length_greater_0_conv)

declare getNewUserKey.simps [simp del]


section \<open>Files\<close>

definition load_config ::
  "('k, 'r, 'x) mount_env \<Rightarrow> (bytes \<Rightarrow> 'x option) \<Rightarrow> config_format \<Rightarrow> bytes \<Rightarrow> config_format config_info \<Rightarrow>
   (EncFSConfig, bool) io" where
  "load_config env disk f path info =
     (let content = map_option (se_bytes env) (disk path) in
      case f of
        FormatV6 \<Rightarrow> readV6Config (se_uninit env) (se_junk env) disk (se_parse env) path
      | FormatV5 \<Rightarrow> readV5Config (map_option length content) (content \<noteq> None) content info
      | FormatV4 \<Rightarrow> readV4Config (map_option length content) (content \<noteq> None) content info)"

definition store :: "('k, 'r, 'x) mount_env \<Rightarrow> bytes \<Rightarrow> 'x \<Rightarrow> (('r, 'x) mount_state, bool) io" where
  "store env path x s =
     (if se_saves env path then (Inr True, s\<lparr>su_disk := (su_disk s)(path \<mapsto> x)\<rparr>) else (Inr False, s))"

text \<open>\<open>ConfigReader::save\<close> does not cut off what a longer file has behind the new bytes.\<close>

definition overwrite :: "('k, 'r, 'x) mount_env \<Rightarrow> bytes \<Rightarrow> bytes \<Rightarrow> bool \<Rightarrow> (('r, 'x) mount_state, bool) io" where
  "overwrite env path d ok s =
     (if se_saves env path then
        let old = (case su_disk s path of None \<Rightarrow> [] | Some x \<Rightarrow> se_bytes env x); n = nat (se_written env path d)
        in (Inr ok, s\<lparr>su_disk := (su_disk s)(path \<mapsto> se_of_bytes env (take n d @ drop n old))\<rparr>)
      else (Inr ok, s))"

definition save_config ::
  "('k, 'r, 'x) mount_env \<Rightarrow> EncFSConfig \<Rightarrow> config_format \<Rightarrow> bytes \<Rightarrow> (('r, 'x) mount_state, bool) io" where
  "save_config env c f path =
     (case f of
        FormatV6 \<Rightarrow> writeV6Config (\<lambda>p d. store env p (se_print env d)) path c
      | FormatV5 \<Rightarrow> overwrite env path (cv_buffer (toVar (v5_map c))) (writeV5Config c (se_saves env path) (se_written env path))
      | FormatV4 \<Rightarrow> overwrite env path (cv_buffer (toVar (v4_map c))) (writeV4Config c (se_saves env path) (se_written env path)))"

section \<open>Opening a volume\<close>

text \<open>\<open>EncFS_Root\<close>; with the directory node are the cipher and the key that its \<open>FSConfig\<close> has.\<close>

record ('k, 'r) volume_root =
  vr_cipher :: "('k, 'r) keyed"
  vr_volumeKey :: "'k option"
  vr_dir :: "(dirnode \<times> ('k, 'r) cipher \<times> 'k) option"

text \<open>The end of \<open>createV6Config\<close> and of \<open>initFS\<close>; \<open>None\<close> when there is no name coding.\<close>

definition open_root ::
  "('k, 'r, 'x) mount_env \<Rightarrow> efs_opts \<Rightarrow> EncFSConfig \<Rightarrow> ('k, 'r) keyed \<Rightarrow> 'k \<Rightarrow> exn + ('k, 'r) volume_root option" where
  "open_root env opts c cph volumeKey =
     (case NameIO_New (nameIface c) (name_registrations (kc_cipher cph) volumeKey []) of
        None \<Rightarrow> Inr None
      | Some (Inl e) \<Rightarrow> Inl e
      | Some (Inr nameCoder) \<Rightarrow>
          let nameCoder = setReverseEncryption (opt_reverseEncryption opts) (setChainedNameIV (chainedNameIV c) nameCoder);
              fs = \<lparr>fs_config = c, fs_mountPoint = opt_mountPoint opts, fs_noCache = opt_noCache opts,
                    fs_forceDecode = opt_forceDecode opts, fs_reverseEncryption = opt_reverseEncryption opts,
                    fs_nameCoding = nameCoder\<rparr>;
              dn = \<lparr>dn_rootDir = opt_rootDir opts, dn_cfg = fs, dn_hasCtx = True\<rparr>
          in Inr (Some \<lparr>vr_cipher = cph, vr_volumeKey = Some volumeKey,
               vr_dir = Some (dn, if plainData c then se_null env else kc_cipher cph, volumeKey)\<rparr>))"

text \<open>What \<open>initFS\<close> does with a configuration that was found.\<close>

definition initFS_found ::
  "('k, 'r, 'x) mount_env \<Rightarrow> EncFSConfig \<Rightarrow> (('r, 'x) mount_state, ('k, 'r) volume_root option) io" where
  "initFS_found env c =
     io_bind (io_get su_opts) (\<lambda>opts.
     if blockMACBytes c = 0 \<and> opt_requireMac opts then io_return None
     else if opt_reverseEncryption opts \<and>
        (blockMACBytes c \<noteq> 0 \<or> blockMACRandBytes c \<noteq> 0 \<or> externalIVChaining c \<or> chainedNameIV c) then io_return None
     else
     io_bind (if opt_reverseEncryption opts \<and> uniqueIV c
              then io_modify (\<lambda>s. s\<lparr>su_opts := (su_opts s)\<lparr>opt_readOnly := True\<rparr>\<rparr>) else io_return ()) (\<lambda>_.
     case getCipher env c of
       None \<Rightarrow> io_return None
     | Some (Inl e) \<Rightarrow> io_throw e
     | Some (Inr cph) \<Rightarrow>
         if opt_delayMount opts then io_return (Some \<lparr>vr_cipher = cph, vr_volumeKey = None, vr_dir = None\<rparr>)
         else
         io_bind (if opt_passwordProgram opts = [] then getUserKey env (opt_useStdin opts) c
                  else getUserKey_prog env (opt_passwordProgram opts) (opt_rootDir opts) c) (\<lambda>(userKey, c).
         case userKey of
           None \<Rightarrow> io_return None
         | Some userKey \<Rightarrow>
             io_bind (io_of (c_readKey (kc_cipher cph) (keyData c) userKey (opt_checkKey opts))) (\<lambda>volumeKey.
             case volumeKey of
               None \<Rightarrow> io_return None
             | Some volumeKey \<Rightarrow>
                 io_bind (io_of (open_root env opts c cph volumeKey)) (\<lambda>root.
                 io_return (if plainData c \<and> \<not> opt_insecure opts then None else root))))))"

section \<open>Creating a volume\<close>

text \<open>The local variables of \<open>createV6Config\<close>; \<open>None\<close> is an algorithm without a name.\<close>

record new_volume =
  nv_keySize :: int
  nv_blockSize :: int
  nv_alg :: "cipher_algorithm option"
  nv_nameIface :: interface
  nv_blockMACBytes :: int
  nv_blockMACRandBytes :: int
  nv_plainData :: bool
  nv_uniqueIV :: bool
  nv_chainedIV :: bool
  nv_externalIV :: bool
  nv_allowHoles :: bool
  nv_duration :: int

definition NormalKDFDuration :: int where "NormalKDFDuration = 500"
definition ParanoiaKDFDuration :: int where "ParanoiaKDFDuration = 3000"

definition new_volume_init :: "bool \<Rightarrow> new_volume" where
  "new_volume_init reverse =
     \<lparr>nv_keySize = 0, nv_blockSize = 0, nv_alg = None, nv_nameIface = Interface_default, nv_blockMACBytes = 0,
      nv_blockMACRandBytes = 0, nv_plainData = False, nv_uniqueIV = \<not> reverse, nv_chainedIV = \<not> reverse,
      nv_externalIV = False, nv_allowHoles = True, nv_duration = NormalKDFDuration\<rparr>"

text \<open>The two prepared configurations.\<close>

definition preset :: "('k, 'r, 'x) mount_env \<Rightarrow> int \<Rightarrow> new_volume \<Rightarrow> new_volume" where
  "preset env keySz v = v\<lparr>nv_keySize := keySz, nv_blockSize := DefaultBlockSize,
     nv_alg := findCipherAlgorithm (str ''AES'') keySz (GetAlgorithmList False (se_ciphers env)),
     nv_nameIface := Block_CurrentInterface False\<rparr>"

definition paranoia_volume :: "('k, 'r, 'x) mount_env \<Rightarrow> new_volume \<Rightarrow> new_volume" where
  "paranoia_volume env v =
     (preset env 256 v)\<lparr>nv_blockMACBytes := 8, nv_blockMACRandBytes := 0, nv_externalIV := True,
       nv_duration := ParanoiaKDFDuration\<rparr>"

definition standard_volume :: "('k, 'r, 'x) mount_env \<Rightarrow> efs_opts \<Rightarrow> new_volume \<Rightarrow> new_volume" where
  "standard_volume env opts v =
     (let v = preset env 192 v in if opt_requireMac opts then v\<lparr>nv_blockMACBytes := 8\<rparr> else v)"

text \<open>The questions of the manual mode.\<close>

definition manual_volume ::
  "('k, 'r, 'x) mount_env \<Rightarrow> efs_opts \<Rightarrow> new_volume \<Rightarrow> (('r, 'x) mount_state, new_volume) io" where
  "manual_volume env opts v =
     io_bind (selectCipherAlgorithm env) (\<lambda>alg.
     io_bind (selectKeySize alg) (\<lambda>keySize.
     io_bind (selectBlockSize alg) (\<lambda>blockSize.
     io_bind (selectPlainData (opt_insecure opts)) (\<lambda>plain.
     io_bind selectNameCoding (\<lambda>iface.
     let v = v\<lparr>nv_alg := Some alg, nv_keySize := keySize, nv_blockSize := blockSize, nv_plainData := plain,
               nv_nameIface := iface\<rparr> in
     if plain then
       io_return (v\<lparr>nv_allowHoles := False, nv_chainedIV := False, nv_externalIV := False, nv_uniqueIV := False,
                    nv_blockMACBytes := 0, nv_blockMACRandBytes := 0\<rparr>)
     else if opt_reverseEncryption opts then
       io_bind (selectUniqueIV False) (\<lambda>uniqueIV.
       io_bind (if uniqueIV then io_modify (\<lambda>s. s\<lparr>su_opts := (su_opts s)\<lparr>opt_readOnly := True\<rparr>\<rparr>) else io_return ()) (\<lambda>_.
       io_return (v\<lparr>nv_uniqueIV := uniqueIV\<rparr>)))
     else
       io_bind selectChainedIV (\<lambda>chainedIV.
       io_bind (selectUniqueIV True) (\<lambda>uniqueIV.
       io_bind (if chainedIV \<and> uniqueIV then selectExternalChainedIV else io_return False) (\<lambda>externalIV.
       io_bind (selectBlockMAC (opt_requireMac opts)) (\<lambda>(macBytes, macRandBytes).
       io_bind selectZeroBlockPassThrough (\<lambda>holes.
       io_return (v\<lparr>nv_chainedIV := chainedIV, nv_uniqueIV := uniqueIV, nv_externalIV := externalIV,
                    nv_blockMACBytes := macBytes, nv_blockMACRandBytes := macRandBytes, nv_allowHoles := holes\<rparr>)))))))))))"

text \<open>Up to the choice of the parameters; \<open>None\<close> is the refusal of paranoia mode in reverse.\<close>

definition choose_volume :: "('k, 'r, 'x) mount_env \<Rightarrow> (('r, 'x) mount_state, new_volume option) io" where
  "choose_volume env =
     io_bind (io_get su_opts) (\<lambda>opts.
     io_bind (if opt_configMode opts = Config_Prompt then ask (fgets 10) else io_return None) (\<lambda>res.
     let answer = (case res of Some (b # _) \<Rightarrow> b | _ \<Rightarrow> 0);
         v = new_volume_init (opt_reverseEncryption opts)
     in if (opt_configMode opts = Config_Paranoia \<or> answer = 112) \<and> opt_reverseEncryption opts then io_return None
        else
          let v = (if opt_configMode opts = Config_Paranoia \<or> answer = 112 then paranoia_volume env v
                   else if opt_configMode opts = Config_Standard \<or> answer \<noteq> 120 then standard_volume env opts v else v)
          in if answer = 120 \<or> nv_alg v = None then io_bind (manual_volume env opts v) (\<lambda>v. io_return (Some v))
             else io_return (Some v)))"

definition volume_config :: "('k, 'r, 'x) mount_env \<Rightarrow> ('k, 'r) keyed \<Rightarrow> new_volume \<Rightarrow> EncFSConfig" where
  "volume_config env cph v =
     (EncFSConfig_new (nv_keySize v) (nv_blockSize v))\<lparr>cfgType := Config_V6, cipherIface := c_interface (kc_cipher cph),
       plainData := nv_plainData v, nameIface := nv_nameIface v, creator := str ''EncFS '' @ se_version env,
       subVersion := V6SubVersion, blockMACBytes := nv_blockMACBytes v, blockMACRandBytes := nv_blockMACRandBytes v,
       uniqueIV := nv_uniqueIV v, chainedNameIV := nv_chainedIV v, externalIVChaining := nv_externalIV v,
       allowHoles := nv_allowHoles v, salt := [], kdfIterations := 0, desiredKDFDuration := nv_duration v\<rparr>"

text \<open>\<open>writeKey\<close> follows both pointers to keys before the null pointer is tested for.\<close>

definition key_volume ::
  "('k, 'r, 'x) mount_env \<Rightarrow> ('k, 'r) keyed \<Rightarrow> EncFSConfig \<Rightarrow> (('r, 'x) mount_state, ('k, 'r) volume_root option) io" where
  "key_volume env cph c =
     io_bind (io_get su_opts) (\<lambda>opts.
     io_bind (\<lambda>s. case kc_newRandomKey cph (su_rng s) of (key, rng) \<Rightarrow> (Inr key, s\<lparr>su_rng := rng\<rparr>)) (\<lambda>volumeKey.
     io_bind (if opt_useStdin opts then getUserKey env True c
              else if opt_passwordProgram opts \<noteq> [] then getUserKey_prog env (opt_passwordProgram opts) (opt_rootDir opts) c
              else io_bind (getNewUserKey env c) (\<lambda>(key, c). io_return (Some key, c))) (\<lambda>(userKey, c).
     case (volumeKey, userKey) of
       (Some volumeKey, Some userKey) \<Rightarrow>
         io_bind (io_of (c_writeKey (kc_cipher cph) volumeKey userKey)) (\<lambda>encodedKey.
         let c = c\<lparr>keyData := encodedKey\<rparr> in
         io_bind (saveConfig (save_config env c) (se_getenv env) Config_V6 (opt_rootDir opts) (opt_config opts)) (\<lambda>saved.
         if \<not> saved then io_return None
         else io_of (open_root env opts c cph volumeKey)))
     | _ \<Rightarrow> io_throw (Fatal ''null key''))))"

definition createV6Config :: "('k, 'r, 'x) mount_env \<Rightarrow> (('r, 'x) mount_state, ('k, 'r) volume_root option) io" where
  "createV6Config env =
     io_bind (choose_volume env) (\<lambda>v.
     case v of None \<Rightarrow> io_return None
     | Some v \<Rightarrow>
         (case Option.bind (nv_alg v) (\<lambda>alg. Cipher_New_name (alg_name alg) (nv_keySize v) (se_ciphers env)) of
            None \<Rightarrow> io_return None
          | Some (Inl e) \<Rightarrow> io_throw e
          | Some (Inr cph) \<Rightarrow> key_volume env cph (volume_config env cph v)))"

section \<open>initFS\<close>

definition initFS :: "('k, 'r, 'x) mount_env \<Rightarrow> (('r, 'x) mount_state, ('k, 'r) volume_root option) io" where
  "initFS env =
     io_bind (io_get id) (\<lambda>s.
     let opts = su_opts s; disk = su_disk s in
     case readConfig (load_config env disk) (\<lambda>path. disk path \<noteq> None) (se_getenv env) (opt_rootDir opts) (opt_config opts)
            (EncFSConfig_new (se_uninit env ''keySize'') (se_uninit env ''blockSize'')) of
       (Inl e, _) \<Rightarrow> io_throw e
     | (Inr type, c) \<Rightarrow>
         if type \<noteq> Config_None then initFS_found env c
         else if opt_createIfNotFound opts then createV6Config env
         else io_return None)"


end
