(* ===== verification/New_Volume.thy ===== *)
theory New_Volume
  imports Volume_Setup
begin

text \<open>
  What a new volume is like, and that it can be opened again. The ciphers are those of OpenSSL.

  \<^item> \<open>gives P m Q\<close>: started where \<open>P\<close> holds, the operation \<open>m\<close> ends where \<open>P\<close> holds again and
    with a result in \<open>Q\<close>, unless it raises.
  \<^item> \<open>nv_ok\<close> is what the questions of \<open>createV6Config\<close> can lead to.
\<close>

section \<open>The registered ciphers\<close>

definition ssl_keyed_of ::
  "'r openssl \<Rightarrow> (nat \<Rightarrow> int) \<Rightarrow> (int \<Rightarrow> int \<Rightarrow> int \<Rightarrow> int) \<Rightarrow> nat \<Rightarrow> ssl_cipher \<Rightarrow> (sslkey, 'r) keyed" where
  "ssl_keyed_of lib delta estimate fuel cph =
     \<lparr>kc_cipher = ssl_as_cipher lib cph, kc_newKey = newKey lib delta estimate fuel cph,
      kc_newKey_old = newKey_old lib cph, kc_newRandomKey = newRandomKey lib cph\<rparr>"

definition ssl_ciphers ::
  "'r openssl \<Rightarrow> (nat \<Rightarrow> int) \<Rightarrow> (int \<Rightarrow> int \<Rightarrow> int \<Rightarrow> int) \<Rightarrow> nat \<Rightarrow> (exn + (sslkey, 'r) keyed) cipher_map" where
  "ssl_ciphers lib delta estimate fuel =
     map (\<lambda>(n, a). (n, \<lparr>ca_hidden = ca_hidden a,
         ca_constructor = (\<lambda>iface k. map_sum id (ssl_keyed_of lib delta estimate fuel) (ca_constructor a iface k)),
         ca_description = ca_description a, ca_iface = ca_iface a, ca_keyLength = ca_keyLength a,
         ca_blockSize = ca_blockSize a\<rparr>)) (ssl_registrations lib [])"

definition alg_row :: "string \<Rightarrow> string \<Rightarrow> interface \<Rightarrow> range \<Rightarrow> range \<Rightarrow> cipher_algorithm" where
  "alg_row nm desc iface kr br = \<lparr>alg_name = str nm, alg_description = str desc, alg_iface = iface,
     alg_keyLength = kr, alg_blockSize = br\<rparr>"

lemma name_order: "str ''AES'' < str ''Blowfish''" "str ''AES'' < str ''CAMELLIA''" "str ''Blowfish'' < str ''CAMELLIA''"
  by (simp_all add: str_def)

lemma ssl_registered:
  "ssl_registrations lib [] =
     [(str ''AES'', \<lparr>ca_hidden = False, ca_constructor = NewAESCipher lib, ca_description = str ''16 byte block cipher'',
        ca_iface = AESInterface, ca_keyLength = AESKeyRange, ca_blockSize = AESBlockRange\<rparr>),
      (str ''Blowfish'', \<lparr>ca_hidden = False, ca_constructor = NewBFCipher lib, ca_description = str ''8 byte block cipher'',
        ca_iface = BlowfishInterface, ca_keyLength = BFKeyRange, ca_blockSize = BFBlockRange\<rparr>),
      (str ''CAMELLIA'', \<lparr>ca_hidden = False, ca_constructor = NewCAMELLIACipher lib, ca_description = str ''16 byte block cipher'',
        ca_iface = CAMELLIAInterface, ca_keyLength = CAMELLIAKeyRange, ca_blockSize = CAMELLIABlockRange\<rparr>)]"
  using name_order by (simp add: ssl_registrations_def Cipher_Register_def order.asym)

lemma ssl_algorithms:
  "GetAlgorithmList False (ssl_ciphers lib delta estimate fuel) =
     [alg_row ''AES'' ''16 byte block cipher'' AESInterface AESKeyRange AESBlockRange,
      alg_row ''Blowfish'' ''8 byte block cipher'' BlowfishInterface BFKeyRange BFBlockRange,
      alg_row ''CAMELLIA'' ''16 byte block cipher'' CAMELLIAInterface CAMELLIAKeyRange CAMELLIABlockRange]"
  by (simp add: GetAlgorithmList_def ssl_ciphers_def ssl_registered alg_row_def)

text \<open>What \<open>closest\<close> returns is permitted when the ends of the range are.\<close>

lemma closest_allowed:
  assumes "closest r v = Some w" "allowed r (minVal r)" "allowed r (maxVal r)"
  shows "allowed r w"
proof -
  have "allowed r (minVal r) \<longrightarrow> allowed r (maxVal r) \<longrightarrow> allowed r w"
    by (rule closest.raw_induct [of "\<lambda>r v w. allowed r (minVal r) \<longrightarrow> allowed r (maxVal r) \<longrightarrow> allowed r w", OF _ assms(1)])
      (auto simp: Let_def split: if_splits)
  then show ?thesis using assms(2,3) by blast
qed

section \<open>Results of an operation\<close>

definition gives :: "('s \<Rightarrow> bool) \<Rightarrow> ('s, 'a) io \<Rightarrow> ('a \<Rightarrow> bool) \<Rightarrow> bool" where
  "gives P m Q = (\<forall>s x s'. P s \<longrightarrow> m s = (Inr x, s') \<longrightarrow> P s' \<and> Q x)"

lemma givesD: "gives P m Q \<Longrightarrow> P s \<Longrightarrow> m s = (Inr x, s') \<Longrightarrow> P s' \<and> Q x"
  by (auto simp: gives_def)

lemma gives_return [intro]: "Q x \<Longrightarrow> gives P (io_return x) Q"
  by (simp add: gives_def io_return_def)

lemma gives_throw [intro, simp]: "gives P (io_throw e) Q"
  by (simp add: gives_def io_throw_def)

lemma gives_bind:
  assumes "gives P m R" "\<And>x. R x \<Longrightarrow> gives P (k x) Q"
  shows "gives P (io_bind m k) Q"
  unfolding gives_def
proof (intro allI impI)
  fix s y s' assume "P s" "io_bind m k s = (Inr y, s')"
  then obtain x s1 where "m s = (Inr x, s1)" "k x s1 = (Inr y, s')"
    by (auto simp: io_bind_def split: prod.splits sum.splits)
  then show "P s' \<and> Q y" using givesD [OF assms(1)] givesD [OF assms(2)] \<open>P s\<close> by blast
qed

lemma gives_get: "(\<And>s. P s \<Longrightarrow> Q (f s)) \<Longrightarrow> gives P (io_get f) Q"
  by (simp add: gives_def io_get_def)

lemma gives_modify: "(\<And>s. P s \<Longrightarrow> P (f s)) \<Longrightarrow> Q () \<Longrightarrow> gives P (io_modify f) Q"
  by (simp add: gives_def io_modify_def)

lemma gives_mono: "gives P m R \<Longrightarrow> (\<And>x. R x \<Longrightarrow> Q x) \<Longrightarrow> gives P m Q"
  by (auto simp: gives_def)

text \<open>The options, of which \<open>readOnly\<close> may change.\<close>

definition under_opts :: "efs_opts \<Rightarrow> ('r, 'x) mount_state \<Rightarrow> bool" where
  "under_opts op s = ((su_opts s)\<lparr>opt_readOnly := False\<rparr> = op\<lparr>opt_readOnly := False\<rparr>)"

lemma under_opts_upd [simp]:
  "under_opts op (s\<lparr>su_stdin := i\<rparr>) = under_opts op s" "under_opts op (s\<lparr>su_tty := t\<rparr>) = under_opts op s"
  "under_opts op (s\<lparr>su_rng := r\<rparr>) = under_opts op s" "under_opts op (s\<lparr>su_disk := d\<rparr>) = under_opts op s"
  "under_opts op (s\<lparr>su_opts := (su_opts s)\<lparr>opt_readOnly := b\<rparr>\<rparr>) = under_opts op s"
  by (simp_all add: under_opts_def)

lemma under_opts_fields:
  assumes "under_opts op s"
  shows "opt_reverseEncryption (su_opts s) = opt_reverseEncryption op" "opt_requireMac (su_opts s) = opt_requireMac op"
    "opt_insecure (su_opts s) = opt_insecure op" "opt_rootDir (su_opts s) = opt_rootDir op" "opt_config (su_opts s) = opt_config op"
    "opt_passwordProgram (su_opts s) = opt_passwordProgram op" "opt_useStdin (su_opts s) = opt_useStdin op"
    "opt_checkKey (su_opts s) = opt_checkKey op" "opt_delayMount (su_opts s) = opt_delayMount op"
    "opt_mountPoint (su_opts s) = opt_mountPoint op" "opt_noCache (su_opts s) = opt_noCache op"
    "opt_forceDecode (su_opts s) = opt_forceDecode op"
  using assms by (cases "su_opts s"; cases op; simp add: under_opts_def)+

lemma gives_ask: "(\<And>i. Q (fst (f i))) \<Longrightarrow> gives (under_opts op) (ask f) Q"
  by (auto simp: gives_def ask_def split: prod.splits) (metis fst_conv)

lemma gives_ask_exn: "(\<And>i x i'. f i = (Inr x, i') \<Longrightarrow> Q x) \<Longrightarrow> gives (under_opts op) (ask_exn f) Q"
  by (auto simp: gives_def ask_exn_def split: prod.splits)

section \<open>The choice of the parameters\<close>

lemma select_number_bound: "select_number sz inp = (Inr k, inp') \<Longrightarrow> k < sz"
proof (induction sz inp rule: select_number.induct)
  case (1 sz inp)
  show ?case using 1(2) 1(1) unfolding select_number.simps [of sz inp]
    by (auto simp: Let_def split: prod.splits if_splits)
qed

definition ssl_rows :: "cipher_algorithm set" where
  "ssl_rows = {alg_row ''AES'' ''16 byte block cipher'' AESInterface AESKeyRange AESBlockRange,
     alg_row ''Blowfish'' ''8 byte block cipher'' BlowfishInterface BFKeyRange BFBlockRange,
     alg_row ''CAMELLIA'' ''16 byte block cipher'' CAMELLIAInterface CAMELLIAKeyRange CAMELLIABlockRange}"

lemmas ssl_ranges = AESKeyRange_def AESBlockRange_def BFKeyRange_def BFBlockRange_def CAMELLIAKeyRange_def
  CAMELLIABlockRange_def

lemma ssl_row_ranges:
  assumes "alg \<in> ssl_rows"
  shows "allowed (alg_keyLength alg) (minVal (alg_keyLength alg))" "allowed (alg_keyLength alg) (maxVal (alg_keyLength alg))"
    "allowed (alg_blockSize alg) (minVal (alg_blockSize alg))" "allowed (alg_blockSize alg) (maxVal (alg_blockSize alg))"
  using assms by (auto simp: ssl_rows_def alg_row_def ssl_ranges Range_def allowed_def Let_def smod_nonneg)

definition name_ifaces :: "interface set" where
  "name_ifaces = {Stream_CurrentInterface, NNIOIface, Block_CurrentInterface True, Block_CurrentInterface False}"

lemma name_registered:
  "name_registrations cph key [] =
     [(str ''Block'', \<lparr>na_hidden = False, na_constructor = (\<lambda>iface. NewBlockNameIO iface cph key),
        na_description = str ''Block encoding, hides file name size somewhat'', na_iface = Block_CurrentInterface False\<rparr>),
      (str ''Block32'', \<lparr>na_hidden = False, na_constructor = (\<lambda>iface. NewBlockNameIO32 iface cph key),
        na_description = str ''Block encoding with base32 output for case-insensitive systems'',
        na_iface = Block_CurrentInterface True\<rparr>),
      (str ''Null'', \<lparr>na_hidden = False, na_constructor = (\<lambda>iface. Inr NullNameIO),
        na_description = str ''No encryption of filenames'', na_iface = NNIOIface\<rparr>),
      (str ''Stream'', \<lparr>na_hidden = False, na_constructor = (\<lambda>iface. Inr (StreamNameIO iface cph key)),
        na_description = str ''Stream encoding, keeps filenames as short as possible'', na_iface = Stream_CurrentInterface\<rparr>)]"
proof -
  have "\<not> str ''Block32'' < str ''Block''" "\<not> str ''Null'' < str ''Block32''" "\<not> str ''Stream'' < str ''Null''"
      "\<not> str ''Null'' < str ''Block''" "\<not> str ''Stream'' < str ''Block''" "\<not> str ''Stream'' < str ''Block32''"
    by (simp_all add: str_def)
  then show ?thesis by (simp add: name_registrations_def NameIO_Register_def)
qed

lemma name_algorithm_ifaces: "(\<lambda>a. snd (snd a)) ` set name_algorithms = name_ifaces"
  by (auto simp: name_algorithms_def NameIO_GetAlgorithmList_def name_registered name_ifaces_def)

text \<open>What can be chosen: sizes the cipher permits, and options that fit each other and the command line.\<close>

definition nv_ok :: "efs_opts \<Rightarrow> new_volume \<Rightarrow> bool" where
  "nv_ok op v = ((\<exists>alg\<in>ssl_rows. nv_alg v = Some alg \<and> allowed (alg_keyLength alg) (nv_keySize v) \<and>
       allowed (alg_blockSize alg) (nv_blockSize v)) \<and>
     nv_nameIface v \<in> name_ifaces \<and> nv_blockMACBytes v \<in> {0, 8} \<and> nv_blockMACRandBytes v \<in> {0..8} \<and>
     (nv_externalIV v \<longrightarrow> nv_chainedIV v \<and> nv_uniqueIV v) \<and>
     (nv_plainData v \<longrightarrow> opt_insecure op) \<and>
     (opt_reverseEncryption op \<longrightarrow> \<not> nv_chainedIV v \<and> nv_blockMACRandBytes v = 0) \<and>
     (opt_requireMac op \<and> \<not> opt_reverseEncryption op \<and> \<not> nv_plainData v \<longrightarrow> nv_blockMACBytes v = 8) \<and>
     nv_duration v \<in> {500, 3000})"

lemma select_cipher:
  "se_ciphers env = ssl_ciphers lib delta estimate fuel \<Longrightarrow>
     gives (under_opts op) (selectCipherAlgorithm env) (\<lambda>alg. alg \<in> ssl_rows)"
  unfolding selectCipherAlgorithm_def Let_def
  by (rule gives_bind [where R = "\<lambda>k. k < 3"])
    (auto intro!: gives_ask_exn gives_return dest: select_number_bound simp: ssl_algorithms ssl_rows_def less_Suc_eq
      numeral_3_eq_3)

lemma gives_closest:
  "allowed r (minVal r) \<Longrightarrow> allowed r (maxVal r) \<Longrightarrow> gives P (io_closest r v) (\<lambda>w. allowed r w)"
  by (auto simp: io_closest_def closest_allowed split: option.split intro!: gives_return)

lemma select_key_size:
  "alg \<in> ssl_rows \<Longrightarrow> gives (under_opts op) (selectKeySize alg) (\<lambda>k. allowed (alg_keyLength alg) k)"
  unfolding selectKeySize_def Let_def
  by (auto intro!: gives_return gives_closest gives_bind [OF gives_ask [where Q = "\<lambda>_. True"]] simp: ssl_row_ranges)

lemma select_block_size:
  "alg \<in> ssl_rows \<Longrightarrow> gives (under_opts op) (selectBlockSize alg) (\<lambda>k. allowed (alg_blockSize alg) k)"
  unfolding selectBlockSize_def Let_def
  by (auto intro!: gives_return gives_closest gives_bind [OF gives_ask [where Q = "\<lambda>_. True"]] simp: ssl_row_ranges)

lemma select_name: "gives (under_opts op) selectNameCoding (\<lambda>i. i \<in> name_ifaces)"
  unfolding selectNameCoding_def Let_def
  by (rule gives_bind [where R = "\<lambda>k. k < length name_algorithms"])
    (auto intro!: gives_ask_exn gives_return dest: select_number_bound simp flip: name_algorithm_ifaces)

lemma select_mac:
  "gives (under_opts op) (selectBlockMAC force) (\<lambda>(m, r). m \<in> {0, 8} \<and> r \<in> {0..8} \<and> (force \<longrightarrow> m = 8))"
  unfolding selectBlockMAC_def Let_def
  by (rule gives_bind [where R = "\<lambda>m. force \<longrightarrow> m"])
    (auto intro!: gives_return gives_ask gives_bind [OF gives_ask [where Q = "\<lambda>_. True"]])

lemma ask_any: "gives (under_opts op) (ask f) (\<lambda>_. True)"
  by (rule gives_ask) simp


definition nv_pre :: "efs_opts \<Rightarrow> new_volume \<Rightarrow> bool" where
  "nv_pre op v = (nv_duration v \<in> {500, 3000} \<and> nv_blockMACBytes v \<in> {0, 8} \<and>
     (opt_reverseEncryption op \<longrightarrow> \<not> nv_chainedIV v \<and> \<not> nv_externalIV v \<and> nv_blockMACRandBytes v = 0))"

lemma manual_ok:
  assumes env: "se_ciphers env = ssl_ciphers lib delta estimate fuel" and pre: "nv_pre op v"
    and "opt_reverseEncryption opts = opt_reverseEncryption op" "opt_insecure opts = opt_insecure op"
    "opt_requireMac opts = opt_requireMac op"
  shows "gives (under_opts op) (manual_volume env opts v) (nv_ok op)"
proof -
  have plain: "gives (under_opts op) (selectPlainData (opt_insecure opts)) (\<lambda>p. p \<longrightarrow> opt_insecure op)"
    using assms(4) by (auto simp: selectPlainData_def intro: gives_return gives_ask)
  show ?thesis
    unfolding manual_volume_def Let_def
  proof (rule gives_bind [OF select_cipher [OF env]], rule gives_bind [OF select_key_size], assumption,
      rule gives_bind [OF select_block_size], assumption, rule gives_bind [OF plain], rule gives_bind [OF select_name], goal_cases)
    case (1 alg keySize blockSize plain iface)
    show ?case
    proof (cases "plain")
      case True
      then show ?thesis using 1 pre by (auto simp: nv_ok_def nv_pre_def intro!: gives_return)
    next
      case False
      show ?thesis
      proof (cases "opt_reverseEncryption opts")
        case True
        then show ?thesis using False 1 pre assms(3) unfolding selectUniqueIV_def
          by (auto intro!: gives_bind [OF ask_any] gives_bind [where R = "\<lambda>_. True"] gives_modify gives_return simp: nv_ok_def nv_pre_def)
      next
        case normal: False
        show ?thesis
          unfolding if_not_P [OF False] if_not_P [OF normal] selectUniqueIV_def selectChainedIV_def selectZeroBlockPassThrough_def
        proof (intro gives_bind [OF ask_any], goal_cases)
          case (1 chained unique)
          show ?case
          proof (rule gives_bind [where R = "\<lambda>e. e \<longrightarrow> chained \<and> unique"], goal_cases)
            case 1 show ?case by (auto simp: selectExternalChainedIV_def intro!: gives_return gives_ask)
          next
            case (2 external)
            show ?case
              by (rule gives_bind [OF select_mac])
                (use 2 \<open>alg \<in> ssl_rows\<close> \<open>allowed (alg_keyLength alg) keySize\<close> \<open>allowed (alg_blockSize alg) blockSize\<close>
                   \<open>iface \<in> name_ifaces\<close> False normal pre assms(3,5) in
                  \<open>auto intro!: gives_bind [OF ask_any] gives_return simp: nv_ok_def nv_pre_def\<close>)
          qed
        qed
      qed
    qed
  qed
qed

lemma preset_ok:
  assumes "se_ciphers env = ssl_ciphers lib delta estimate fuel" "keySz \<in> {192, 256}"
  shows "nv_alg (preset env keySz v) = Some (alg_row ''AES'' ''16 byte block cipher'' AESInterface AESKeyRange AESBlockRange)"
    and "allowed AESKeyRange keySz" "allowed AESBlockRange DefaultBlockSize"
proof -
  show k: "allowed AESKeyRange keySz" using assms(2)
    by (auto simp: AESKeyRange_def Range_def allowed_def smod_nonneg)
  show "nv_alg (preset env keySz v) = Some (alg_row ''AES'' ''16 byte block cipher'' AESInterface AESKeyRange AESBlockRange)"
    using assms(1) k by (simp add: preset_def ssl_algorithms findCipherAlgorithm_def alg_row_def)
  show "allowed AESBlockRange DefaultBlockSize"
    by (simp add: AESBlockRange_def Range_def allowed_def smod_nonneg DefaultBlockSize_def)
qed

lemma preset_volumes_ok:
  assumes "se_ciphers env = ssl_ciphers lib delta estimate fuel"
    and "opt_reverseEncryption opts = opt_reverseEncryption op" "opt_requireMac opts = opt_requireMac op"
  shows "\<not> opt_reverseEncryption op \<Longrightarrow> nv_ok op (paranoia_volume env (new_volume_init False))"
    and "nv_ok op (standard_volume env opts (new_volume_init (opt_reverseEncryption opts)))"
proof -
  note p = preset_ok [OF assms(1)]
  have keep: "nv_keySize (preset env k v) = k" "nv_blockSize (preset env k v) = DefaultBlockSize"
      "nv_nameIface (preset env k v) = Block_CurrentInterface False"
      "nv_blockMACBytes (preset env k v) = nv_blockMACBytes v" "nv_blockMACRandBytes (preset env k v) = nv_blockMACRandBytes v"
      "nv_plainData (preset env k v) = nv_plainData v" "nv_uniqueIV (preset env k v) = nv_uniqueIV v"
      "nv_chainedIV (preset env k v) = nv_chainedIV v" "nv_externalIV (preset env k v) = nv_externalIV v"
      "nv_duration (preset env k v) = nv_duration v" for k v
    by (simp_all add: preset_def)
  have row: "alg_row ''AES'' ''16 byte block cipher'' AESInterface AESKeyRange AESBlockRange \<in> ssl_rows"
      "Block_CurrentInterface False \<in> name_ifaces"
    by (simp_all add: ssl_rows_def name_ifaces_def)
  have sel: "alg_keyLength (alg_row n d i k b) = k" "alg_blockSize (alg_row n d i k b) = b" for n d i k b
    by (simp_all add: alg_row_def)
  show "nv_ok op (paranoia_volume env (new_volume_init False))" if "\<not> opt_reverseEncryption op"
    using that row p [of 256] assms
    by (simp add: nv_ok_def paranoia_volume_def keep sel new_volume_init_def NormalKDFDuration_def ParanoiaKDFDuration_def)
  show "nv_ok op (standard_volume env opts (new_volume_init (opt_reverseEncryption opts)))"
    using row p [of 192] assms
    by (simp add: nv_ok_def standard_volume_def Let_def keep sel new_volume_init_def NormalKDFDuration_def)
qed

lemma ok_pre: "nv_ok op v \<Longrightarrow> nv_pre op v"
  by (auto simp: nv_ok_def nv_pre_def)

lemma choose_ok:
  assumes env: "se_ciphers env = ssl_ciphers lib delta estimate fuel"
  shows "gives (under_opts op) (choose_volume env) (\<lambda>v. \<forall>v'. v = Some v' \<longrightarrow> nv_ok op v')"
  unfolding choose_volume_def
proof (rule gives_bind [where R = "\<lambda>opts. opt_reverseEncryption opts = opt_reverseEncryption op \<and>
      opt_insecure opts = opt_insecure op \<and> opt_requireMac opts = opt_requireMac op"], goal_cases)
  case 1 show ?case by (rule gives_get) (simp add: under_opts_fields)
next
  case (2 opts)
  note sel = 2 [THEN conjunct1] 2 [THEN conjunct2, THEN conjunct1] 2 [THEN conjunct2, THEN conjunct2]
  note presets = preset_volumes_ok [OF env sel(1,3)]
  have some: "nv_ok op v \<Longrightarrow> nv_alg v \<noteq> None" for v by (auto simp: nv_ok_def)
  have m: "gives (under_opts op) (io_bind (manual_volume env opts v) (\<lambda>v. io_return (Some v)))
      (\<lambda>v. \<forall>v'. v = Some v' \<longrightarrow> nv_ok op v')" if "nv_pre op v" for v
    by (rule gives_bind [OF manual_ok [OF env that sel]]) (auto intro: gives_return)
  have pre: "nv_pre op (new_volume_init (opt_reverseEncryption opts))"
    using sel by (simp add: nv_pre_def new_volume_init_def NormalKDFDuration_def)
  show ?case
  proof (rule gives_bind [where R = "\<lambda>_. True"], goal_cases)
    case 1 show ?case by (auto intro!: ask_any gives_return)
  next
    case (2 res)
    define answer :: byte where "answer = (case res of Some (b # _) \<Rightarrow> b | _ \<Rightarrow> 0)"
    define paranoia where "paranoia \<longleftrightarrow> opt_configMode opts = Config_Paranoia \<or> answer = 112"
    define v where "v = (if paranoia then paranoia_volume env (new_volume_init (opt_reverseEncryption opts))
      else if opt_configMode opts = Config_Standard \<or> answer \<noteq> 120
      then standard_volume env opts (new_volume_init (opt_reverseEncryption opts)) else new_volume_init (opt_reverseEncryption opts))"
    have v: "nv_ok op v \<or> answer = 120" "nv_pre op v" if "\<not> (paranoia \<and> opt_reverseEncryption opts)"
      using that presets sel(1) pre by (auto simp: v_def intro: ok_pre)
    show ?case
      unfolding Let_def answer_def [symmetric] paranoia_def [symmetric] v_def [symmetric]
      using v m some by (auto intro!: gives_return)
  qed
qed


section \<open>The cipher of a new volume\<close>

lemma closest_self: "allowed r k \<Longrightarrow> closest r k = Some k"
  by (subst closest.simps) simp

lemma ssl_key_sizes: "alg \<in> ssl_rows \<Longrightarrow> allowed (alg_keyLength alg) k \<Longrightarrow> 128 \<le> k \<and> k \<le> 256"
  by (auto simp: ssl_rows_def alg_row_def ssl_ranges Range_def allowed_def)

lemma ssl_constructed:
  assumes "alg \<in> ssl_rows" "allowed (alg_keyLength alg) k"
    and R: "R = ssl_ciphers lib delta estimate fuel" and K: "K = ssl_keyed_of lib delta estimate fuel"
  obtains bc where
    "Cipher_New_name (alg_name alg) k R =
       Some (map_sum id K (SSL_Cipher_new lib (alg_iface alg) (alg_iface alg) bc (stream_mode bc) (nat (k div 8))))"
    "\<And>i. if_name i = if_name (alg_iface alg) \<Longrightarrow> if_current i = 3 \<Longrightarrow> Cipher_New i k R =
       Some (map_sum id K (SSL_Cipher_new lib i (alg_iface alg) bc (stream_mode bc) (nat (k div 8))))"
    "bc = EVP_bf_cbc \<longleftrightarrow> alg_blockSize alg = BFBlockRange"
proof -
  note size = ssl_key_sizes [OF assms(1,2)]
  have new_aes: "\<exists>bc. bc \<noteq> EVP_bf_cbc \<and> (\<forall>i. NewAESCipher lib i k =
      SSL_Cipher_new lib i AESInterface bc (stream_mode bc) (nat (k div 8)))" if "allowed AESKeyRange k"
    using closest_self [OF that] size
    by (auto simp: NewAESCipher_def Let_def
      intro: exI [of _ EVP_aes_128_cbc] exI [of _ EVP_aes_192_cbc] exI [of _ EVP_aes_256_cbc])
  have new_cam: "\<exists>bc. bc \<noteq> EVP_bf_cbc \<and> (\<forall>i. NewCAMELLIACipher lib i k =
      SSL_Cipher_new lib i CAMELLIAInterface bc (stream_mode bc) (nat (k div 8)))" if "allowed CAMELLIAKeyRange k"
    using closest_self [OF that] size
    by (auto simp: NewCAMELLIACipher_def Let_def
      intro: exI [of _ EVP_camellia_128_cbc] exI [of _ EVP_camellia_192_cbc] exI [of _ EVP_camellia_256_cbc])
  have new_bf: "NewBFCipher lib i k = SSL_Cipher_new lib i BlowfishInterface EVP_bf_cbc (stream_mode EVP_bf_cbc) (nat (k div 8))"
    if "allowed BFKeyRange k" for i
    using closest_self [OF that] size by (simp add: NewBFCipher_def Let_def)
  note defs = R K ssl_ciphers_def ssl_registered Cipher_New_name_def Cipher_New_def implements_def AESInterface_def
    BlowfishInterface_def CAMELLIAInterface_def Interface_def alg_row_def
  have ne: "AESBlockRange \<noteq> BFBlockRange" "CAMELLIABlockRange \<noteq> BFBlockRange" by (simp_all add: ssl_ranges Range_def)
  consider (aes) "alg = alg_row ''AES'' ''16 byte block cipher'' AESInterface AESKeyRange AESBlockRange"
    | (bf) "alg = alg_row ''Blowfish'' ''8 byte block cipher'' BlowfishInterface BFKeyRange BFBlockRange"
    | (cam) "alg = alg_row ''CAMELLIA'' ''16 byte block cipher'' CAMELLIAInterface CAMELLIAKeyRange CAMELLIABlockRange"
    using assms(1) by (auto simp: ssl_rows_def)
  then show ?thesis
  proof cases
    case aes
    then obtain bc where "bc \<noteq> EVP_bf_cbc" "\<forall>i. NewAESCipher lib i k = SSL_Cipher_new lib i AESInterface bc (stream_mode bc) (nat (k div 8))"
      using new_aes assms(2) by (auto simp: alg_row_def)
    then show ?thesis using aes ne by (intro that [of bc]) (simp_all add: defs)
  next
    case bf
    then show ?thesis using new_bf assms(2) by (intro that [of EVP_bf_cbc]) (simp_all add: defs)
  next
    case cam
    then obtain bc where "bc \<noteq> EVP_bf_cbc" "\<forall>i. NewCAMELLIACipher lib i k = SSL_Cipher_new lib i CAMELLIAInterface bc (stream_mode bc) (nat (k div 8))"
      using new_cam assms(2) by (auto simp: alg_row_def)
    then show ?thesis using cam ne by (intro that [of bc]) (simp_all add: defs)
  qed
qed

text \<open>A description that differs in revision and age makes the same cipher, but for the description.\<close>

lemma ssl_iface_irrelevant:
  assumes "if_current i = if_current (ssl_iface cph)"
  shows "ssl_keyed_of lib delta estimate fuel (cph\<lparr>ssl_iface := i\<rparr>) = ssl_keyed_of lib delta estimate fuel cph"
proof -
  let ?c = "cph\<lparr>ssl_iface := i\<rparr>"
  have sel: "ssl_ivLength ?c = ssl_ivLength cph" "ssl_keySize ?c = ssl_keySize cph" "ssl_blockCipher ?c = ssl_blockCipher cph"
      "ssl_streamCipher ?c = ssl_streamCipher cph" "if_current (ssl_iface ?c) = if_current (ssl_iface cph)"
    using assms by simp_all
  have iv: "setIVec lib ?c = setIVec lib cph" unfolding setIVec_def [abs_def] setIVec_old_def sel by (rule refl)
  have ck: "check_key ?c = check_key cph" unfolding check_key_def [abs_def] sel by (rule refl)
  have kb: "key_of_bytes ?c = key_of_bytes cph" unfolding key_of_bytes_def [abs_def] sel by (rule refl)
  have st: "stream_encode lib ?c = stream_encode lib cph" "stream_decode lib ?c = stream_decode lib cph"
    unfolding stream_encode_def [abs_def] stream_decode_def [abs_def] iv ck by (rule refl)+
  have bl: "SSL_blockEncode lib ?c = SSL_blockEncode lib cph" "SSL_blockDecode lib ?c = SSL_blockDecode lib cph"
    unfolding SSL_blockEncode_def [abs_def] SSL_blockDecode_def [abs_def] iv ck sel by (rule refl)+
  have rw: "readKey lib ?c = readKey lib cph" "writeKey lib ?c = writeKey lib cph"
    unfolding readKey_def [abs_def] writeKey_def [abs_def] st kb sel by (rule refl)+
  have nk: "newKey lib delta estimate fuel ?c = newKey lib delta estimate fuel cph" "newKey_old lib ?c = newKey_old lib cph"
      "newRandomKey lib ?c = newRandomKey lib cph"
    unfolding newKey_def [abs_def] newKey_old_def [abs_def] newRandomKey_def [abs_def] kb sel by (rule refl)+
  show ?thesis
    by (simp add: ssl_keyed_of_def ssl_as_cipher_def nk rw bl st SSL_streamEncode_def [abs_def] SSL_streamDecode_def [abs_def]
      encodedKeySize_def)
qed


lemma ssl_block_range: "alg \<in> ssl_rows \<Longrightarrow> allowed (alg_blockSize alg) b \<Longrightarrow> 64 \<le> b \<and> b \<le> 4096"
  by (auto simp: ssl_rows_def alg_row_def ssl_ranges Range_def allowed_def)

lemma ssl_block_sizes:
  assumes "openssl_laws lib" "EVP_block_size lib EVP_bf_cbc = 8" "alg \<in> ssl_rows" "allowed (alg_blockSize alg) b"
    and "bc = EVP_bf_cbc \<longleftrightarrow> alg_blockSize alg = BFBlockRange"
  shows "64 \<le> b" "b \<le> 4096" "nat b mod EVP_block_size lib bc = 0"
proof -
  show b: "64 \<le> b" "b \<le> 4096"
    using ssl_block_range [OF assms(3,4)] by simp_all
  have "(8 :: nat) dvd nat b \<and> (bc \<noteq> EVP_bf_cbc \<longrightarrow> (16 :: nat) dvd nat b)"
  proof -
    have "(16 dvd b - 64 \<or> 8 dvd b - 64) \<and> (bc \<noteq> EVP_bf_cbc \<longrightarrow> 16 dvd b - 64)"
      using assms(3-5) b
      by (auto simp: ssl_rows_def alg_row_def ssl_ranges Range_def allowed_def smod_nonneg Let_def)
    moreover have "16 dvd b - 64 \<Longrightarrow> 16 dvd b" "8 dvd b - 64 \<Longrightarrow> 8 dvd b" "16 dvd b \<Longrightarrow> 8 dvd b" by presburger+
    ultimately have "8 dvd b \<and> (bc \<noteq> EVP_bf_cbc \<longrightarrow> 16 dvd b)" by blast
    then show ?thesis using b(1) int_dvd_int_iff [of 8 "nat b"] int_dvd_int_iff [of 16 "nat b"] by auto
  qed
  moreover have "EVP_block_size lib bc \<in> {1, 8, 16}" "bc = EVP_bf_cbc \<longrightarrow> EVP_block_size lib bc = 8"
    using openssl_laws.block_size [OF assms(1)] assms(2) by blast+
  ultimately show "nat b mod EVP_block_size lib bc = 0"
    by (cases "bc = EVP_bf_cbc") (auto simp: mod_eq_0_iff_dvd intro: dvd_trans [of 8 16])
qed

section \<open>The key of a new volume\<close>

lemma bindE:
  assumes "io_bind m k s = (Inr y, s')"
  obtains x s1 where "m s = (Inr x, s1)" "k x s1 = (Inr y, s')"
  using assms by (auto simp: io_bind_def split: prod.splits sum.splits)

text \<open>Making a key changes the salt and the number of iterations only.\<close>

definition rekeyed :: "EncFSConfig \<Rightarrow> EncFSConfig \<Rightarrow> bool" where
  "rekeyed c c' = (c'\<lparr>salt := [], kdfIterations := 0\<rparr> = c\<lparr>salt := [], kdfIterations := 0\<rparr>)"

lemma rekeyed_refl [simp]: "rekeyed c c"
  by (simp add: rekeyed_def)

lemma rekeyed_trans: "rekeyed c c' \<Longrightarrow> rekeyed c' c'' \<Longrightarrow> rekeyed c c''"
  by (simp add: rekeyed_def)

lemma makeKey_rekeys: "makeKey env pw c rng = (Inr (key, c'), rng') \<Longrightarrow> rekeyed c c'"
  by (auto simp: makeKey_def Let_def rekeyed_def split: option.splits sum.splits if_splits prod.splits)

lemma key_from_rekeys: "key_from env pw c s = (Inr (key, c'), s') \<Longrightarrow> rekeyed c c' \<and> (\<exists>rng. s' = s\<lparr>su_rng := rng\<rparr>)"
  by (auto simp: key_from_def split: prod.splits dest: makeKey_rekeys)

definition same_files :: "('r, 'x) mount_state \<Rightarrow> ('r, 'x) mount_state \<Rightarrow> bool" where
  "same_files s s' = (su_disk s' = su_disk s \<and> su_opts s' = su_opts s)"

lemma readpassphrase_files: "readpassphrase n s = (r, s') \<Longrightarrow> same_files s s' \<and> su_rng s' = su_rng s \<and> su_stdin s' = su_stdin s"
  by (auto simp: readpassphrase_def Let_def same_files_def)

lemma getUserKey_rekeys:
  assumes "getUserKey env useStdin c s = (Inr (key, c'), s')"
  shows "rekeyed c c' \<and> same_files s s'"
  using assms unfolding getUserKey_def
proof (rule bindE, goal_cases)
  case (1 res s1)
  have "same_files s s1"
    using 1(1) readpassphrase_files [of MaxPassBuf s "Inr res" s1]
    by (auto simp: ask_def io_bind_split io_return_def same_files_def split: if_splits prod.splits)
  then show ?case using 1(2) key_from_rekeys by (fastforce simp: same_files_def io_throw_def split: option.splits)
qed

lemma getUserKey_prog_rekeys:
  "getUserKey_prog env prog dir c s = (Inr (key, c'), s') \<Longrightarrow> rekeyed c c' \<and> same_files s s'"
  by (auto simp: getUserKey_prog_def io_return_def same_files_def split: option.splits dest: key_from_rekeys)

lemma getNewUserKey_rekeys:
  "getNewUserKey env c s = (Inr (key, c'), s') \<Longrightarrow> rekeyed c c' \<and> same_files s s'"
proof (induction env c s rule: getNewUserKey.induct)
  case (1 env c s)
  obtain r1 s1 where p1: "readpassphrase (MaxPassBuf - 1) s = (Inr r1, s1)" by (simp add: readpassphrase_def Let_def)
  obtain r2 s2 where p2: "readpassphrase (MaxPassBuf - 1) s1 = (Inr r2, s2)" by (simp add: readpassphrase_def Let_def)
  have files: "same_files s s2" using readpassphrase_files [OF p1] readpassphrase_files [OF p2] by (simp add: same_files_def)
  then have files': "same_files s (s2\<lparr>su_rng := rng\<rparr>)" for rng by (simp add: same_files_def)
  have trans: "same_files s s2 \<Longrightarrow> same_files s2 t \<Longrightarrow> same_files s t"
      "same_files (s2\<lparr>su_rng := rng\<rparr>) t \<Longrightarrow> same_files s t" for rng t
    using files by (simp_all add: same_files_def)
  note eq = "1.prems" [unfolded getNewUserKey.simps [of env c s], unfolded p1 p2 prod.case sum.case]
  show ?case
  proof (cases "r1 \<noteq> None \<and> r2 = r1")
    case False
    then have "su_tty s \<noteq> []" "getNewUserKey env c s2 = (Inr (key, c'), s')" using eq by (auto split: if_splits)
    then show ?thesis using "1.IH"(2) [OF p1 [symmetric] refl p2 [symmetric] refl False] trans(1) [OF files] by blast
  next
    case True
    obtain m rng where m: "makeKey env (the r1) c (su_rng s2) = (m, rng)" by fastforce
    note eq = eq [unfolded if_P [OF True] m prod.case]
    show ?thesis
    proof (cases m)
      case (Inl e) then show ?thesis using eq by simp
    next
      case (Inr x)
      obtain k c1 where x: "x = (k, c1)" by fastforce
      have rk: "rekeyed c c1" using m Inr x makeKey_rekeys by fastforce
      show ?thesis
      proof (cases k)
        case (Some k')
        then show ?thesis using eq Inr x rk files' by auto
      next
        case None
        then have "su_tty s \<noteq> []" "getNewUserKey env c1 (s2\<lparr>su_rng := rng\<rparr>) = (Inr (key, c'), s')"
          using eq Inr x by (auto split: if_splits)
        then show ?thesis
          using "1.IH"(1) [OF p1 [symmetric] refl p2 [symmetric] refl True m [symmetric] Inr x [symmetric] None] rk rekeyed_trans trans(2) by blast
      qed
    qed
  qed
qed


text \<open>The key that is asked for, as \<open>key_volume\<close> does it.\<close>

definition new_user_key ::
  "('k, 'r, 'x) mount_env \<Rightarrow> efs_opts \<Rightarrow> EncFSConfig \<Rightarrow> (('r, 'x) mount_state, 'k option \<times> EncFSConfig) io" where
  "new_user_key env opts c =
     (if opt_useStdin opts then getUserKey env True c
      else if opt_passwordProgram opts \<noteq> [] then getUserKey_prog env (opt_passwordProgram opts) (opt_rootDir opts) c
      else io_bind (getNewUserKey env c) (\<lambda>(key, c). io_return (Some key, c)))"

lemma new_user_key_rekeys:
  assumes "new_user_key env opts c s = (Inr (key, c'), s')"
  shows "rekeyed c c' \<and> same_files s s'"
proof (cases "opt_useStdin opts \<or> opt_passwordProgram opts \<noteq> []")
  case True
  then show ?thesis using assms getUserKey_rekeys getUserKey_prog_rekeys
    by (fastforce simp: new_user_key_def split: if_splits)
next
  case False
  then have "io_bind (getNewUserKey env c) (\<lambda>(key, c). io_return (Some key, c)) s = (Inr (key, c'), s')"
    using assms by (simp add: new_user_key_def)
  then show ?thesis
    by (rule bindE) (auto simp: io_return_def dest!: getNewUserKey_rekeys)
qed

lemma save_v6:
  "saveConfig (save_config env c) (se_getenv env) Config_V6 dir cmd s =
     (let p = v6_path (se_getenv env) dir cmd in
      if se_saves env p then (Inr True, s\<lparr>su_disk := (su_disk s)(p \<mapsto> se_print env (v6_document c))\<rparr>) else (Inr False, s))"
  by (simp add: saveConfig_v6 save_config_def writeV6Config_def store_def io_catch_def Let_def)

lemma key_volumeE:
  assumes "key_volume env cph c s = (Inr (Some root), s')"
  obtains vk rng c' uk s2 d where "kc_newRandomKey cph (su_rng s) = (Some vk, rng)"
    "new_user_key env (su_opts s) c (s\<lparr>su_rng := rng\<rparr>) = (Inr (Some uk, c'), s2)"
    "c_writeKey (kc_cipher cph) vk uk = Inr d"
    "s' = s2\<lparr>su_disk := (su_disk s)(v6_path (se_getenv env) (opt_rootDir (su_opts s)) (opt_config (su_opts s))
        \<mapsto> se_print env (v6_document (c'\<lparr>keyData := d\<rparr>)))\<rparr>"
    "open_root env (su_opts s) (c'\<lparr>keyData := d\<rparr>) cph vk = Inr (Some root)"
proof -
  obtain vk rng where vk: "kc_newRandomKey cph (su_rng s) = (vk, rng)" by fastforce
  have "io_bind (new_user_key env (su_opts s) c) (\<lambda>(userKey, c).
     case (vk, userKey) of
       (Some volumeKey, Some userKey) \<Rightarrow>
         io_bind (io_of (c_writeKey (kc_cipher cph) volumeKey userKey)) (\<lambda>encodedKey.
         let c = c\<lparr>keyData := encodedKey\<rparr> in
         io_bind (saveConfig (save_config env c) (se_getenv env) Config_V6 (opt_rootDir (su_opts s)) (opt_config (su_opts s))) (\<lambda>saved.
         if \<not> saved then io_return None
         else io_of (open_root env (su_opts s) c cph volumeKey)))
     | _ \<Rightarrow> io_throw (Fatal ''null key'')) (s\<lparr>su_rng := rng\<rparr>) = (Inr (Some root), s')"
    using assms vk by (simp add: key_volume_def new_user_key_def io_bind_split io_get_def)
  then show ?thesis
  proof (rule bindE, goal_cases)
    case (1 x s2)
    obtain uk c' where x: "x = (uk, c')" by fastforce
    obtain vk' uk' where k: "vk = Some vk'" "uk = Some uk'"
      using 1(2) x by (auto simp: io_throw_def split: option.splits)
    obtain d where d: "c_writeKey (kc_cipher cph) vk' uk' = Inr d"
      using 1(2) x k by (cases "c_writeKey (kc_cipher cph) vk' uk'") (auto simp: io_bind_split io_of_def)
    have "same_files (s\<lparr>su_rng := rng\<rparr>) s2" using 1(1) x new_user_key_rekeys by blast
    then have disk: "su_disk s2 = su_disk s" by (simp add: same_files_def)
    have "se_saves env (v6_path (se_getenv env) (opt_rootDir (su_opts s)) (opt_config (su_opts s)))"
      using 1(2) x k d by (auto simp: io_bind_split io_of_def save_v6 Let_def io_return_def split: if_splits)
    then show ?thesis
      using 1 x k d vk disk
      by (intro that [of vk' rng uk' c' s2 d])
        (auto simp: io_bind_split io_of_def save_v6 Let_def)
  qed
qed

lemma createE:
  assumes "createV6Config env s = (Inr (Some root), s')" "se_ciphers env = ssl_ciphers lib delta estimate fuel"
    and laws: "openssl_laws lib"
  obtains v alg bc cph s1 where "choose_volume env s = (Inr (Some v), s1)" "under_opts (su_opts s) s1" "nv_ok (su_opts s) v"
    "nv_alg v = Some alg" "alg \<in> ssl_rows" "allowed (alg_keyLength alg) (nv_keySize v)" "allowed (alg_blockSize alg) (nv_blockSize v)"
    "bc = EVP_bf_cbc \<longleftrightarrow> alg_blockSize alg = BFBlockRange"
    "cph = \<lparr>ssl_iface = alg_iface alg, ssl_realIface = alg_iface alg, ssl_blockCipher = bc, ssl_streamCipher = stream_mode bc,
        ssl_keySize = nat (nv_keySize v div 8), ssl_ivLength = EVP_iv_length lib bc\<rparr>"
    "\<And>i. if_name i = if_name (alg_iface alg) \<Longrightarrow> if_current i = 3 \<Longrightarrow> Cipher_New i (nv_keySize v) (se_ciphers env) =
       Some (Inr (ssl_keyed_of lib delta estimate fuel (cph\<lparr>ssl_iface := i\<rparr>)))"
    "key_volume env (ssl_keyed_of lib delta estimate fuel cph)
       (volume_config env (ssl_keyed_of lib delta estimate fuel cph) v) s1 = (Inr (Some root), s')"
proof -
  obtain v s1 where v: "choose_volume env s = (Inr (Some v), s1)"
    and r: "(case Option.bind (nv_alg v) (\<lambda>alg. Cipher_New_name (alg_name alg) (nv_keySize v) (se_ciphers env)) of
            None \<Rightarrow> io_return None
          | Some (Inl e) \<Rightarrow> io_throw e
          | Some (Inr cph) \<Rightarrow> key_volume env cph (volume_config env cph v)) s1 = (Inr (Some root), s')"
    using assms(1) unfolding createV6Config_def
    by (auto elim!: bindE simp: io_return_def split: option.splits)
  have ok: "under_opts (su_opts s) s1" "nv_ok (su_opts s) v"
    using givesD [OF choose_ok [OF assms(2), of "su_opts s"] _ v] by (simp_all add: under_opts_def)
  then obtain alg where alg: "nv_alg v = Some alg" "alg \<in> ssl_rows" "allowed (alg_keyLength alg) (nv_keySize v)"
      "allowed (alg_blockSize alg) (nv_blockSize v)" by (auto simp: nv_ok_def)
  obtain bc where bc:
    "Cipher_New_name (alg_name alg) (nv_keySize v) (se_ciphers env) = Some (map_sum id (ssl_keyed_of lib delta estimate fuel)
       (SSL_Cipher_new lib (alg_iface alg) (alg_iface alg) bc (stream_mode bc) (nat (nv_keySize v div 8))))"
    "\<And>i. if_name i = if_name (alg_iface alg) \<Longrightarrow> if_current i = 3 \<Longrightarrow> Cipher_New i (nv_keySize v) (se_ciphers env) =
       Some (map_sum id (ssl_keyed_of lib delta estimate fuel)
         (SSL_Cipher_new lib i (alg_iface alg) bc (stream_mode bc) (nat (nv_keySize v div 8))))"
    "bc = EVP_bf_cbc \<longleftrightarrow> alg_blockSize alg = BFBlockRange"
    by (rule ssl_constructed [OF alg(2,3) assms(2) refl]) blast
  have iv: "EVP_iv_length lib bc = 8 \<or> EVP_iv_length lib bc = 16" using openssl_laws.iv_length [OF laws, of bc] by simp
  then have new: "SSL_Cipher_new lib i (alg_iface alg) bc (stream_mode bc) k = Inr \<lparr>ssl_iface = i, ssl_realIface = alg_iface alg,
      ssl_blockCipher = bc, ssl_streamCipher = stream_mode bc, ssl_keySize = k, ssl_ivLength = EVP_iv_length lib bc\<rparr>" for i k
    by (auto simp: SSL_Cipher_new_def Let_def)
  show ?thesis
    by (rule that [OF v ok alg bc(3) refl]) (use bc(1,2) r alg(1) in \<open>simp_all add: new\<close>)
qed


lemma rekeyed_fields:
  assumes "rekeyed c c'"
  shows "cfgType c' = cfgType c" "creator c' = creator c" "subVersion c' = subVersion c" "cipherIface c' = cipherIface c"
    "nameIface c' = nameIface c" "keySize c' = keySize c" "blockSize c' = blockSize c"
    "desiredKDFDuration c' = desiredKDFDuration c" "plainData c' = plainData c" "blockMACBytes c' = blockMACBytes c"
    "blockMACRandBytes c' = blockMACRandBytes c" "uniqueIV c' = uniqueIV c" "externalIVChaining c' = externalIVChaining c"
    "chainedNameIV c' = chainedNameIV c" "allowHoles c' = allowHoles c"
  using assms by (cases c; cases c'; simp add: rekeyed_def)+

lemma open_rootE:
  assumes "open_root env opts c cph vk = Inr (Some root)"
  obtains nio dn where "vr_dir root = Some (dn, if plainData c then se_null env else kc_cipher cph, vk)"
    "vr_cipher root = cph" "vr_volumeKey root = Some vk" "fs_config (dn_cfg dn) = c"
  using assms by (auto simp: open_root_def Let_def split: option.splits sum.splits)

text \<open>Nodes of a volume whose sizes fit its cipher can be built.\<close>

lemma FileNode_built:
  assumes "64 \<le> blockSize (fs_config cfg)" "blockSize (fs_config cfg) \<le> 4096"
    and "nat (blockSize (fs_config cfg)) mod c_cipherBlockSize (fe_cipher fe) = 0"
    and "blockMACBytes (fs_config cfg) \<in> {0, 8}" "blockMACRandBytes (fs_config cfg) \<in> {0..8}"
  shows "\<exists>n. FileNode_new fe cfg pn cn fh w = Inr n"
proof -
  let ?b = "blockSize (fs_config cfg)"
  have b: "unat (word_of_int x :: u32) = nat x" if "0 \<le> x" "x < 2 ^ 32" for x
    using that by (simp add: unat_eq_nat_uint uint_word_of_int_eq take_bit_int_eq_self)
  have "unat (word_of_int ?b :: u32) = nat ?b" using assms(1,2) by (intro b) simp_all
  moreover have "unat (word_of_int (dataBlockSize ?b (blockMACBytes (fs_config cfg)) (blockMACRandBytes (fs_config cfg))) :: u32) > 1"
  proof (subst b)
    show "0 \<le> dataBlockSize ?b (blockMACBytes (fs_config cfg)) (blockMACRandBytes (fs_config cfg))"
      "dataBlockSize ?b (blockMACBytes (fs_config cfg)) (blockMACRandBytes (fs_config cfg)) < 2 ^ 32"
      "1 < nat (dataBlockSize ?b (blockMACBytes (fs_config cfg)) (blockMACRandBytes (fs_config cfg)))"
      using assms(1,2,4,5) by (auto simp: dataBlockSize_def)
  qed
  ultimately show ?thesis
    using assms
    by (auto simp: FileNode_new_def CipherFileIO_new_def MACFileIO_new_def node_cenv_def Let_def split: sum.split)
qed

section \<open>What the rest of the program relies on\<close>



section \<open>Opening a new volume\<close>

definition entry :: "bytes \<Rightarrow> byte option list" where
  "entry pw = map Some pw @ [Some 10]"

definition password_ok :: "bytes \<Rightarrow> bool" where
  "password_ok pw = (pw \<noteq> [] \<and> length pw < MaxPassBuf - 1 \<and> set pw \<inter> {0, 10, 13} = {})"

lemma read_entry:
  assumes "password_ok pw" "su_tty s = entry pw @ rest" "MaxPassBuf - 1 \<le> n"
  shows "readpassphrase n s = (Inr (Some pw), s\<lparr>su_tty := rest\<rparr>)"
proof -
  let ?P = "\<lambda>c. c \<noteq> None \<and> c \<noteq> Some 10 \<and> c \<noteq> Some 13"
  have "takeWhile ?P (map Some pw @ Some (10 :: byte) # rest) = map Some pw"
    using assms(1) by (subst takeWhile_append2) (auto simp: password_ok_def)
  then have "takeWhile ?P (su_tty s) = map Some pw" by (simp add: assms(2) entry_def)
  moreover have "c_str (take (n - 1) pw) = pw"
    using assms(1,3) unfolding c_str_def takeWhile_eq_all_conv by (auto simp: password_ok_def takeWhile_eq_all_conv)
  ultimately show ?thesis by (simp add: readpassphrase_def assms(2) entry_def take_map Let_def)
qed

lemma read_nothing: "su_tty t = [] \<Longrightarrow> readpassphrase n t = (Inr (Some []), t)"
  by (simp add: readpassphrase_def c_str_def Let_def)

lemma new_key_of_entries:
  assumes "password_ok pw" "su_tty s = entry pw @ entry pw" "getNewUserKey env c s = (Inr (key, c'), s')"
  shows "\<exists>rng. makeKey env pw c (su_rng s) = (Inr (Some key, c'), rng)"
proof -
  let ?s1 = "s\<lparr>su_tty := entry pw\<rparr>" and ?s2 = "s\<lparr>su_tty := []\<rparr>"
  have r: "readpassphrase (MaxPassBuf - 1) s = (Inr (Some pw), ?s1)" "readpassphrase (MaxPassBuf - 1) ?s1 = (Inr (Some pw), ?s2)"
    using read_entry [OF assms(1,2), of "MaxPassBuf - 1"] read_entry [OF assms(1), of ?s1 "[]" "MaxPassBuf - 1"] by simp_all
  have fail: "fst (makeKey env [] c1 g) = Inr x \<Longrightarrow> False" for c1 g x
    by (simp add: makeKey_def split: option.splits sum.splits)
  have stop: "getNewUserKey env c1 t \<noteq> (Inr (key, c'), s')" if "su_tty t = []" for c1 and t
    using read_nothing [OF that] fail [of c1 "su_rng t"] that
    by (subst getNewUserKey.simps) (auto split: prod.splits sum.splits option.splits)
  have ne: "su_tty s \<noteq> []" by (simp add: assms(2) entry_def)
  show ?thesis
    using assms(3) stop [of "?s2\<lparr>su_rng := g\<rparr>" for g] ne unfolding getNewUserKey.simps [of env c s] r prod.case sum.case
    by (auto split: prod.splits sum.splits option.splits)
qed

lemma newKey_made:
  assumes "openssl_laws lib" "\<forall>i d t. int32_ok (estimate i d t)"
    and "newKey lib delta estimate fuel cph pw 0 duration sl = Some (Some key, n)"
  shows "key_ok cph key" "0 < n" "int32_ok n"
proof -
  have range: "TimedPBKDF2_loop lib delta estimate pw sl len desired fl run iter = Some (res, out) \<Longrightarrow> int32_ok iter \<Longrightarrow> int32_ok res"
    for len desired fl run iter res out
  proof (induction fl arbitrary: run iter)
    case (Suc fl)
    have "int32_ok (int32 (iter * 4))"
      using sint_greater_eq [of "word_of_int (iter * 4) :: u32"] sint_less [of "word_of_int (iter * 4) :: u32"] by (simp add: int32_ok_def int32_def)
    then show ?case using Suc assms(2)
      by (auto simp: int32_ok_def split: option.splits if_splits)
  qed simp
  obtain res out where t: "TimedPBKDF2_loop lib delta estimate pw sl (ssl_keySize cph + ssl_ivLength cph) (1000 * duration) fuel 0 1000 =
      Some (res, out)" "0 < res" "key = key_of_bytes cph out" "n = res"
    using assms(3) by (auto simp: newKey_def TimedPBKDF2_def Let_def split: option.splits if_splits)
  then have "PBKDF2 lib pw sl res (ssl_keySize cph + ssl_ivLength cph) = Some out"
    using TimedPBKDF2_loop_derives [OF t(1)] by auto
  then show "key_ok cph key" using openssl_laws.pbkdf2_length [OF assms(1)] t(3) key_of_bytes_ok by blast
  show "0 < n" using t by simp
  show "int32_ok n" using range [OF t(1)] t(4) by (simp add: int32_ok_def)
qed

lemma newRandomKey_made:
  assumes "openssl_laws lib" "newRandomKey lib cph rng = (Some key, rng')"
  shows "key_ok cph key"
  using assms(2) openssl_laws.pbkdf2_length [OF assms(1)]
  by (auto simp: newRandomKey_def intro!: key_of_bytes_ok split: prod.splits option.splits)

text \<open>The age of a description, which is not stored, has no influence on the name coding.\<close>

lemma NameIO_New_age:
  "i \<in> name_ifaces \<Longrightarrow>
     NameIO_New (i\<lparr>if_age := a\<rparr>) (name_registrations cph key []) = NameIO_New i (name_registrations cph key [])"
  by (auto simp: name_ifaces_def NameIO_New_def name_registered implements_def Stream_CurrentInterface_def NNIOIface_def
    Block_CurrentInterface_def Interface_def NewBlockNameIO_def NewBlockNameIO32_def BlockNameIO_def StreamNameIO_def)


lemma makeKey_new:
  assumes "getCipher env c = Some (Inr (ssl_keyed_of lib delta estimate fuel cph))"
    and "salt c = []" "kdfIterations c = 0" "cfgType c = Config_V6"
    and "makeKey env pw c rng = (Inr (Some key, c'), rng')"
  shows "\<exists>sl n r. RAND_bytes lib 20 rng = (Some sl, r) \<and>
    newKey lib delta estimate fuel cph pw 0 (desiredKDFDuration c) sl = Some (Some key, n) \<and>
    c' = c\<lparr>salt := sl, kdfIterations := n\<rparr>"
  using assms by (auto simp: makeKey_def Let_def ssl_keyed_of_def split: if_splits option.splits prod.splits)

lemma makeKey_stored:
  assumes "getCipher env c = Some (Inr (ssl_keyed_of lib delta estimate fuel cph))" "pw \<noteq> []" "salt c \<noteq> []" "kdfIterations c \<noteq> 0"
    and "newKey lib delta estimate fuel cph pw (kdfIterations c) (desiredKDFDuration c) (salt c) = Some (Some key, kdfIterations c)"
  shows "makeKey env pw c rng = (Inr (Some key, c), rng)"
  using assms by (simp add: makeKey_def Let_def ssl_keyed_of_def)

text \<open>A configuration with the descriptions as they come back from the file.\<close>

definition ageless :: "EncFSConfig \<Rightarrow> EncFSConfig" where
  "ageless c = c\<lparr>cipherIface := (cipherIface c)\<lparr>if_age := 0\<rparr>, nameIface := (nameIface c)\<lparr>if_age := 0\<rparr>\<rparr>"

lemma open_root_ageless:
  assumes "open_root env opts c cph vk = Inr (Some root)" "nameIface c \<in> name_ifaces"
  obtains dn cf where "vr_dir root = Some (dn, cf, vk)" "fs_config (dn_cfg dn) = c" "vr_volumeKey root = Some vk"
    "open_root env opts (ageless c) cph vk =
       Inr (Some \<lparr>vr_cipher = cph, vr_volumeKey = Some vk,
         vr_dir = Some (dn\<lparr>dn_cfg := (dn_cfg dn)\<lparr>fs_config := ageless c\<rparr>\<rparr>, cf, vk)\<rparr>)"
proof -
  have "NameIO_New (nameIface (ageless c)) (name_registrations (kc_cipher cph) vk []) =
      NameIO_New (nameIface c) (name_registrations (kc_cipher cph) vk [])"
    using NameIO_New_age [OF assms(2), of 0] by (simp add: ageless_def)
  moreover have "chainedNameIV (ageless c) = chainedNameIV c" "plainData (ageless c) = plainData c" by (simp_all add: ageless_def)
  ultimately show ?thesis
    using assms(1) that by (auto simp: open_root_def Let_def split: option.splits sum.splits)
qed

lemma iface_texts: "i \<in> name_ifaces \<Longrightarrow> text_ok (if_name i) \<and> int32_ok (if_current i) \<and> int32_ok (if_revision i)"
  by (auto simp: name_ifaces_def Stream_CurrentInterface_def NNIOIface_def Block_CurrentInterface_def Interface_def
    text_ok_def int32_ok_def str_def isspace_def word_le_nat_alt)

lemma row_texts:
  "alg \<in> ssl_rows \<Longrightarrow> text_ok (if_name (alg_iface alg)) \<and> if_current (alg_iface alg) = 3 \<and> if_revision (alg_iface alg) = 0"
  by (auto simp: ssl_rows_def alg_row_def AESInterface_def BlowfishInterface_def CAMELLIAInterface_def Interface_def
    text_ok_def str_def isspace_def word_le_nat_alt)

lemma new_config_ok:
  assumes "nv_ok op v" "nv_alg v = Some alg" "alg \<in> ssl_rows" "allowed (alg_keyLength alg) (nv_keySize v)"
    and "c_interface (kc_cipher cph) = alg_iface alg" "set (se_version env) \<inter> {0, 13} = {}"
    and "int32_ok n" "length sl = 20" "length d < 2 ^ 31"
  shows "v6_ok ((volume_config env cph v)\<lparr>salt := sl, kdfIterations := n, keyData := d\<rparr>)"
proof -
  have "text_ok (str ''EncFS '' @ se_version env)"
    using assms(6) by (auto simp: text_ok_def str_def isspace_def word_le_nat_alt)
  moreover have "64 \<le> nv_blockSize v \<and> nv_blockSize v \<le> 4096"
    using assms(1,2) ssl_block_range by (auto simp: nv_ok_def)
  ultimately show ?thesis
    using assms row_texts [OF assms(3)] iface_texts [of "nv_nameIface v"] ssl_key_sizes [OF assms(3,4)]
    by (auto simp: v6_ok_def volume_config_def EncFSConfig_new_def int32_ok_def nv_ok_def)
qed


text \<open>The questions leave the terminal alone.\<close>

lemma gives_if: "gives P a Q \<Longrightarrow> gives P b Q \<Longrightarrow> gives P (if c then a else b) Q"
  by simp

lemma gives_prod: "(\<And>a b. gives P (f a b) Q) \<Longrightarrow> gives P (case x of (a, b) \<Rightarrow> f a b) Q"
  by (cases x) simp

lemma tty_ask: "gives (\<lambda>s. su_tty s = T) (ask f) (\<lambda>_. True)" "gives (\<lambda>s. su_tty s = T) (ask_exn g) (\<lambda>_. True)"
    "gives (\<lambda>s. su_tty s = T) (io_closest r k) (\<lambda>_. True)"
    "gives (\<lambda>s. su_tty s = T) (io_modify (\<lambda>s. s\<lparr>su_opts := (su_opts s)\<lparr>opt_readOnly := True\<rparr>\<rparr>)) (\<lambda>_. True)"
  by (auto simp: gives_def io_modify_def ask_def ask_exn_def io_closest_def io_return_def io_throw_def split: prod.splits option.splits)

lemmas tty_rules = gives_if gives_prod tty_ask gives_return gives_get [where Q = "\<lambda>_. True"] gives_bind [where R = "\<lambda>_. True"]
  TrueI

lemma manual_tty: "gives (\<lambda>t. su_tty t = T) (manual_volume env opts v) (\<lambda>_. True)"
  unfolding manual_volume_def selectCipherAlgorithm_def selectKeySize_def selectBlockSize_def
    selectPlainData_def selectNameCoding_def selectUniqueIV_def selectChainedIV_def selectExternalChainedIV_def
    selectBlockMAC_def selectZeroBlockPassThrough_def Let_def
  by (rule tty_rules)+

lemma choose_tty:
  assumes "choose_volume env s = (Inr v, s')"
  shows "su_tty s' = su_tty s"
proof -
  have "gives (\<lambda>t. su_tty t = su_tty s) (choose_volume env) (\<lambda>_. True)"
    unfolding choose_volume_def Let_def by (rule tty_rules manual_tty)+
  then show ?thesis using assms by (auto dest: givesD)
qed


text \<open>A configuration from which a password gives the volume key.\<close>

definition unlocks ::
  "'r openssl \<Rightarrow> (nat \<Rightarrow> int) \<Rightarrow> (int \<Rightarrow> int \<Rightarrow> int \<Rightarrow> int) \<Rightarrow> nat \<Rightarrow> (sslkey, 'r, 'x) mount_env \<Rightarrow> ssl_cipher \<Rightarrow> bytes \<Rightarrow>
   sslkey \<Rightarrow> EncFSConfig \<Rightarrow> bool" where
  "unlocks lib delta estimate fuel env cph pw vk c =
     (v6_ok c \<and> cfgType c = Config_V6 \<and> subVersion c = 20100713 \<and> salt c \<noteq> [] \<and> 0 < kdfIterations c \<and>
      cipher_ok lib cph \<and> key_ok cph vk \<and>
      (\<forall>a. Cipher_New ((cipherIface c)\<lparr>if_age := a\<rparr>) (keySize c) (se_ciphers env) =
         Some (Inr (ssl_keyed_of lib delta estimate fuel cph))) \<and>
      (\<exists>uk. newKey lib delta estimate fuel cph pw (kdfIterations c) (desiredKDFDuration c) (salt c) =
           Some (Some uk, kdfIterations c) \<and> (\<forall>check. readKey lib cph (keyData c) uk check = Inr (Some vk))))"

text \<open>Such a configuration comes about when a key is derived anew and the volume key stored under it.\<close>

lemma unlocks_rekeyed:
  assumes laws: "openssl_laws lib" and "cipher_ok lib cph" "key_ok cph vk"
    and new: "newKey lib delta estimate fuel cph pw 0 (desiredKDFDuration c) sl = Some (Some uk, n)" "key_ok cph uk" "0 < n"
    and "writeKey lib cph vk uk = Inr d" "sl \<noteq> []" "cfgType c = Config_V6" "subVersion c = 20100713"
    and "v6_ok (c\<lparr>salt := sl, kdfIterations := n, keyData := d\<rparr>)"
    and "\<And>a. Cipher_New ((cipherIface c)\<lparr>if_age := a\<rparr>) (keySize c) (se_ciphers env) =
       Some (Inr (ssl_keyed_of lib delta estimate fuel cph))"
  shows "unlocks lib delta estimate fuel env cph pw vk (c\<lparr>salt := sl, kdfIterations := n, keyData := d\<rparr>)"
  using assms newKey_again [OF new(1), of delta estimate fuel] key_wrap [OF laws assms(2,3) new(2)]
  by (auto simp: unlocks_def)

lemma written_key_size:
  assumes "openssl_laws lib" "cipher_ok lib cph" "key_ok cph vk" "key_ok cph uk" "writeKey lib cph vk uk = Inr d"
    and "ssl_keySize cph \<le> 32"
  shows "length d < 2 ^ 31"
proof -
  have "length d = encodedKeySize cph" using key_wrap [OF assms(1-4), of True] assms(5) by auto
  moreover have "ssl_ivLength cph \<le> 16"
    using openssl_laws.iv_length [OF assms(1), of "ssl_blockCipher cph"] assms(2) by (auto simp: cipher_ok_def)
  ultimately show ?thesis using assms(6) by (simp add: encodedKeySize_def KEY_CHECKSUM_BYTES_def)
qed

text \<open>What has been stored when a volume was created with a password from the terminal.\<close>

lemma created_with_password:
  assumes laws: "openssl_laws lib" and est: "\<forall>i d t. int32_ok (estimate i d t)"
    and env: "se_ciphers env = ssl_ciphers lib delta estimate fuel" and version: "set (se_version env) \<inter> {0, 13} = {}"
    and pw: "password_ok pw" and tty: "su_tty s = entry pw @ entry pw"
    and opts: "\<not> opt_useStdin (su_opts s)" "opt_passwordProgram (su_opts s) = []"
    and created: "createV6Config env s = (Inr (Some root), s')"
  obtains v cph c vk where "nv_ok (su_opts s) v" "under_opts (su_opts s) s'" "unlocks lib delta estimate fuel env cph pw vk c"
    "plainData c = nv_plainData v" "blockMACBytes c = nv_blockMACBytes v" "nameIface c \<in> name_ifaces" "ssl_keySize cph \<le> 32" "desiredKDFDuration c \<in> {500, 3000}"
    "su_disk s' (v6_path (se_getenv env) (opt_rootDir (su_opts s)) (opt_config (su_opts s))) = Some (se_print env (v6_document c))"
    "open_root env (su_opts s') c (ssl_keyed_of lib delta estimate fuel cph) vk = Inr (Some root)"
proof -
  obtain v alg bc cph s1 where v: "choose_volume env s = (Inr (Some v), s1)" "under_opts (su_opts s) s1" "nv_ok (su_opts s) v"
    "nv_alg v = Some alg" "alg \<in> ssl_rows" "allowed (alg_keyLength alg) (nv_keySize v)" "allowed (alg_blockSize alg) (nv_blockSize v)"
    and cph: "cph = \<lparr>ssl_iface = alg_iface alg, ssl_realIface = alg_iface alg, ssl_blockCipher = bc, ssl_streamCipher = stream_mode bc,
        ssl_keySize = nat (nv_keySize v div 8), ssl_ivLength = EVP_iv_length lib bc\<rparr>"
    and new: "\<And>i. if_name i = if_name (alg_iface alg) \<Longrightarrow> if_current i = 3 \<Longrightarrow> Cipher_New i (nv_keySize v) (se_ciphers env) =
       Some (Inr (ssl_keyed_of lib delta estimate fuel (cph\<lparr>ssl_iface := i\<rparr>)))"
    and kv: "key_volume env (ssl_keyed_of lib delta estimate fuel cph)
       (volume_config env (ssl_keyed_of lib delta estimate fuel cph) v) s1 = (Inr (Some root), s')"
    by (rule createE [OF created env laws]) blast
  let ?K = "ssl_keyed_of lib delta estimate fuel cph"
  let ?c = "volume_config env ?K v"
  obtain vk rng c' uk s2 d where k: "kc_newRandomKey ?K (su_rng s1) = (Some vk, rng)"
    "new_user_key env (su_opts s1) ?c (s1\<lparr>su_rng := rng\<rparr>) = (Inr (Some uk, c'), s2)"
    "c_writeKey (kc_cipher ?K) vk uk = Inr d"
    "s' = s2\<lparr>su_disk := (su_disk s1)(v6_path (se_getenv env) (opt_rootDir (su_opts s1)) (opt_config (su_opts s1))
        \<mapsto> se_print env (v6_document (c'\<lparr>keyData := d\<rparr>)))\<rparr>"
    "open_root env (su_opts s1) (c'\<lparr>keyData := d\<rparr>) ?K vk = Inr (Some root)"
    by (rule key_volumeE [OF kv]) blast
  have opts1: "\<not> opt_useStdin (su_opts s1)" "opt_passwordProgram (su_opts s1) = []"
    using opts under_opts_fields [OF v(2)] by simp_all
  have tty1: "su_tty s1 = entry pw @ entry pw" using choose_tty [OF v(1)] tty by simp
  have "getNewUserKey env ?c (s1\<lparr>su_rng := rng\<rparr>) = (Inr (uk, c'), s2)"
    using k(2) opts1 by (auto simp: new_user_key_def io_bind_split io_return_def split: prod.splits sum.splits)
  then obtain g where mk: "makeKey env pw ?c rng = (Inr (Some uk, c'), g)"
    using new_key_of_entries [OF pw, of "s1\<lparr>su_rng := rng\<rparr>" env ?c uk c' s2] tty1 by auto
  have iface: "c_interface (kc_cipher ?K) = alg_iface alg" by (simp add: ssl_keyed_of_def ssl_as_cipher_def cph)
  note row = row_texts [OF v(5)]
  have found: "Cipher_New ((alg_iface alg)\<lparr>if_age := a\<rparr>) (nv_keySize v) (se_ciphers env) = Some (Inr ?K)" for a
    using new [of "(alg_iface alg)\<lparr>if_age := a\<rparr>"] row
      ssl_iface_irrelevant [of "(alg_iface alg)\<lparr>if_age := a\<rparr>" cph lib delta estimate fuel] by (simp add: cph)
  have cc: "getCipher env ?c = Some (Inr ?K)"
    using found [of "if_age (alg_iface alg)"] iface by (simp add: getCipher_def volume_config_def EncFSConfig_new_def)
  obtain sl n r where sl: "RAND_bytes lib 20 rng = (Some sl, r)" "newKey lib delta estimate fuel cph pw 0 (desiredKDFDuration ?c) sl = Some (Some uk, n)"
      "c' = ?c\<lparr>salt := sl, kdfIterations := n\<rparr>"
    using makeKey_new [OF cc _ _ _ mk] by (auto simp: volume_config_def)
  note uk = newKey_made [OF laws est sl(2)]
  have vk: "key_ok cph vk" using newRandomKey_made [OF laws] k(1) by (simp add: ssl_keyed_of_def)
  have len: "length sl = 20" using openssl_laws.rand_length [OF laws sl(1)] .
  have cok: "cipher_ok lib cph" by (simp add: cipher_ok_def cph)
  have written: "writeKey lib cph vk uk = Inr d" using k(3) by (simp add: ssl_keyed_of_def ssl_as_cipher_def)
  have size: "ssl_keySize cph \<le> 32" using ssl_key_sizes [OF v(5,6)] by (simp add: cph nat_le_iff) presburger
  have c1: "c'\<lparr>keyData := d\<rparr> = ?c\<lparr>salt := sl, kdfIterations := n, keyData := d\<rparr>" by (simp add: sl(3))
  have "v6_ok (?c\<lparr>salt := sl, kdfIterations := n, keyData := d\<rparr>)"
    by (rule new_config_ok [OF v(3-6) iface version uk(3) len written_key_size [OF laws cok vk uk(1) written size]])
  then have unl: "unlocks lib delta estimate fuel env cph pw vk (c'\<lparr>keyData := d\<rparr>)"
    unfolding c1 using found iface
    by (intro unlocks_rekeyed [OF laws cok vk sl(2) uk(1,2) written]) (use len in \<open>auto simp: volume_config_def EncFSConfig_new_def V6SubVersion_def\<close>)
  have files: "same_files (s1\<lparr>su_rng := rng\<rparr>) s2" using new_user_key_rekeys [OF k(2)] by blast
  show ?thesis
  proof (rule that [OF v(3) _ unl])
    show "under_opts (su_opts s) s'" using v(2) files by (simp add: k(4) under_opts_def same_files_def)
    show "open_root env (su_opts s') (c'\<lparr>keyData := d\<rparr>) ?K vk = Inr (Some root)" using k(5) files by (simp add: k(4) same_files_def)
    show "su_disk s' (v6_path (se_getenv env) (opt_rootDir (su_opts s)) (opt_config (su_opts s))) =
        Some (se_print env (v6_document (c'\<lparr>keyData := d\<rparr>)))"
      using under_opts_fields [OF v(2)] by (simp add: k(4))
  qed (use v(3) size in \<open>auto simp: sl(3) volume_config_def nv_ok_def\<close>)
qed

lemma read_stored:
  assumes "unlocks lib delta estimate fuel env cph pw vk c" "\<forall>n. length (se_junk env n) = nat n"
    and "xml_keeps (se_print env) (se_parse env) (v6_document c)"
    and "disk (v6_path (se_getenv env) dir cmd) = Some (se_print env (v6_document c))"
  shows "readConfig (load_config env disk) (\<lambda>path. disk path \<noteq> None) (se_getenv env) dir cmd (EncFSConfig_new ks bs) =
    (Inr Config_V6, ageless c)"
proof -
  have "c\<lparr>cfgType := Config_V6, subVersion := 20100713, cipherIface := (cipherIface c)\<lparr>if_age := 0\<rparr>,
      nameIface := (nameIface c)\<lparr>if_age := 0\<rparr>\<rparr> = ageless c"
    using assms(1) by (simp add: ageless_def unlocks_def)
  then show ?thesis
    using readConfig_written [where disk = disk and getenv = "se_getenv env" and print = "se_print env", OF assms(3) _ assms(2,4),
        of "load_config env disk" "se_uninit env" "EncFSConfig_new ks bs"] assms(1)
    by (simp add: load_config_def unlocks_def EncFSConfig_new_def Interface_default_def Interface_def)
qed

lemma ageless_fields [simp]:
  "blockMACBytes (ageless c) = blockMACBytes c" "keySize (ageless c) = keySize c" "salt (ageless c) = salt c"
  "kdfIterations (ageless c) = kdfIterations c" "desiredKDFDuration (ageless c) = desiredKDFDuration c"
  "keyData (ageless c) = keyData c" "plainData (ageless c) = plainData c" "cfgType (ageless c) = cfgType c"
  "subVersion (ageless c) = subVersion c" "cipherIface (ageless c) = (cipherIface c)\<lparr>if_age := 0\<rparr>"
  by (simp_all add: ageless_def)

text \<open>The key that the password gives with a stored configuration, and what it opens.\<close>

lemma user_key_stored:
  assumes unl: "unlocks lib delta estimate fuel env cph pw vk c" and pw: "password_ok pw" and tty: "su_tty t = entry pw @ rest"
  obtains uk where "getCipher env (ageless c) = Some (Inr (ssl_keyed_of lib delta estimate fuel cph))"
    "getUserKey env False (ageless c) t = (Inr (Some uk, ageless c), t\<lparr>su_tty := rest\<rparr>)"
    "\<And>check. readKey lib cph (keyData c) uk check = Inr (Some vk)"
proof -
  obtain uk where uk: "newKey lib delta estimate fuel cph pw (kdfIterations c) (desiredKDFDuration c) (salt c) = Some (Some uk, kdfIterations c)"
      "\<And>check. readKey lib cph (keyData c) uk check = Inr (Some vk)"
    using unl by (auto simp: unlocks_def)
  have found: "getCipher env (ageless c) = Some (Inr (ssl_keyed_of lib delta estimate fuel cph))"
    using unl by (simp add: getCipher_def unlocks_def)
  have "makeKey env pw (ageless c) rng = (Inr (Some uk, ageless c), rng)" for rng
    by (rule makeKey_stored [OF found]) (use pw uk unl in \<open>auto simp: password_ok_def unlocks_def\<close>)
  then have "getUserKey env False (ageless c) t = (Inr (Some uk, ageless c), t\<lparr>su_tty := rest\<rparr>)"
    using read_entry [OF pw tty, of MaxPassBuf] by (simp add: getUserKey_def io_bind_split key_from_def)
  then show ?thesis using that found uk(2) by blast
qed

text \<open>Opening a volume whose configuration is stored, with the password.\<close>

lemma mount_unlocks:
  assumes unl: "unlocks lib delta estimate fuel env cph pw vk c" and junk: "\<forall>n. length (se_junk env n) = nat n"
    and xml: "xml_keeps (se_print env) (se_parse env) (v6_document c)" and pw: "password_ok pw"
    and opts: "\<not> opt_useStdin (su_opts t)" "opt_passwordProgram (su_opts t) = []" "\<not> opt_reverseEncryption (su_opts t)"
    "\<not> opt_delayMount (su_opts t)" "\<not> (blockMACBytes c = 0 \<and> opt_requireMac (su_opts t))"
    "\<not> (plainData c \<and> \<not> opt_insecure (su_opts t))"
    and disk: "su_disk t (v6_path (se_getenv env) (opt_rootDir (su_opts t)) (opt_config (su_opts t))) = Some (se_print env (v6_document c))"
    and tty: "su_tty t = entry pw @ rest"
    and opened: "open_root env (su_opts t) (ageless c) (ssl_keyed_of lib delta estimate fuel cph) vk = Inr (Some root)"
  shows "initFS env t = (Inr (Some root), t\<lparr>su_tty := rest\<rparr>)"
proof -
  obtain uk where uk: "getCipher env (ageless c) = Some (Inr (ssl_keyed_of lib delta estimate fuel cph))"
      "getUserKey env False (ageless c) t = (Inr (Some uk, ageless c), t\<lparr>su_tty := rest\<rparr>)"
      "\<And>check. readKey lib cph (keyData c) uk check = Inr (Some vk)"
    by (rule user_key_stored [OF unl pw tty]) blast
  have "initFS_found env (ageless c) t = (Inr (Some root), t\<lparr>su_tty := rest\<rparr>)"
    using opts uk opened by (simp add: initFS_found_def io_bind_split io_simps ssl_keyed_of_def ssl_as_cipher_def)
  then show ?thesis
    using read_stored [where disk = "su_disk t", OF unl junk xml disk] by (simp add: initFS_def io_bind_split io_simps Let_def del: not_None_eq)
qed

text \<open>
  Claim C12. A volume that was created with a password typed twice at the terminal is opened by \<open>initFS\<close> with
  that password, in a later run with the same options: the same volume key comes out of the stored one, and the
  directory node is built with the same cipher, key, name coding and paths, under the configuration that was
  stored (of which only the ages of the descriptions are lost). The calibration of the derivation, the random
  numbers and the uninitialised variables of the second run do not matter.
\<close>

theorem mount_after_create:
  assumes "openssl_laws lib" "\<forall>i d t. int32_ok (estimate i d t)" "se_ciphers env = ssl_ciphers lib delta estimate fuel"
    and "set (se_version env) \<inter> {0, 13} = {}" "\<forall>n. length (se_junk env n) = nat n"
    and xml: "\<forall>c. v6_ok c \<longrightarrow> xml_keeps (se_print env) (se_parse env) (v6_document c)"
    and pw: "password_ok pw" and "su_tty s = entry pw @ entry pw"
    and "\<not> opt_useStdin (su_opts s)" "opt_passwordProgram (su_opts s) = []" "\<not> opt_reverseEncryption (su_opts s)"
    "\<not> opt_delayMount (su_opts s)" "\<not> (opt_requireMac (su_opts s) \<and> opt_insecure (su_opts s))"
    and "createV6Config env s = (Inr (Some root), s')"
    and t: "su_disk t = su_disk s'" "su_opts t = su_opts s'" "su_tty t = entry pw @ rest"
  shows "\<exists>dn cph key root' t'. vr_dir root = Some (dn, cph, key) \<and> initFS env t = (Inr (Some root'), t') \<and>
    vr_volumeKey root' = Some key \<and>
    vr_dir root' = Some (dn\<lparr>dn_cfg := (dn_cfg dn)\<lparr>fs_config := ageless (fs_config (dn_cfg dn))\<rparr>\<rparr>, cph, key)"
proof -
  obtain v cph c vk where c: "nv_ok (su_opts s) v" "under_opts (su_opts s) s'" "unlocks lib delta estimate fuel env cph pw vk c"
    "plainData c = nv_plainData v" "blockMACBytes c = nv_blockMACBytes v" "nameIface c \<in> name_ifaces"
    "su_disk s' (v6_path (se_getenv env) (opt_rootDir (su_opts s)) (opt_config (su_opts s))) = Some (se_print env (v6_document c))"
    "open_root env (su_opts s') c (ssl_keyed_of lib delta estimate fuel cph) vk = Inr (Some root)"
    by (rule created_with_password [OF assms(1-4) pw assms(8-10,14)]) blast
  obtain dn cf where dn: "vr_dir root = Some (dn, cf, vk)" "fs_config (dn_cfg dn) = c"
    and opened: "open_root env (su_opts s') (ageless c) (ssl_keyed_of lib delta estimate fuel cph) vk =
       Inr (Some \<lparr>vr_cipher = ssl_keyed_of lib delta estimate fuel cph, vr_volumeKey = Some vk,
         vr_dir = Some (dn\<lparr>dn_cfg := (dn_cfg dn)\<lparr>fs_config := ageless c\<rparr>\<rparr>, cf, vk)\<rparr>)"
    by (rule open_root_ageless [OF c(8,6)]) blast
  have "xml_keeps (se_print env) (se_parse env) (v6_document c)" using xml c(3) by (simp add: unlocks_def)
  note mount_unlocks [OF c(3) assms(5) this pw, of t rest, unfolded t, OF _ _ _ _ _ _ _ refl opened]
  moreover have "\<not> (blockMACBytes c = 0 \<and> opt_requireMac (su_opts s))" "\<not> (plainData c \<and> \<not> opt_insecure (su_opts s))"
    using c(1,4,5) assms(11,13) by (auto simp: nv_ok_def)
  ultimately show ?thesis using assms(9-12) c(7) dn under_opts_fields [OF c(2)] by simp
qed

section \<open>A volume\<close>

text \<open>\<open>NullCipher\<close> where keys of another type are passed to it.\<close>

definition null_with :: "'k \<Rightarrow> ('k, 'r) cipher" where
  "null_with k =
     \<lparr>c_interface = NullInterface, c_keySize = 0, c_encodedKeySize = 0, c_cipherBlockSize = 1,
      c_randomize = Null_randomize, c_MAC_64 = (\<lambda>_ _ _. Inr 0), c_MAC_chains = False,
      c_readKey = (\<lambda>_ _ _. Inr (Some k)), c_writeKey = (\<lambda>_ _. Inr []),
      c_streamEncode = (\<lambda>_. Null_coder), c_streamDecode = (\<lambda>_. Null_coder),
      c_blockEncode = (\<lambda>_. Null_coder), c_blockDecode = (\<lambda>_. Null_coder),
      c_encodeLeft = (\<lambda>_ src iv64. src), c_decodeLeft = (\<lambda>_ src iv64. src)\<rparr>"

abbreviation "demo_delta \<equiv> (\<lambda>run :: nat. if run = 0 then 100 else 5000000 :: int)"
abbreviation "demo_estimate \<equiv> (\<lambda>_ _ _ :: int. 0 :: int)"

definition demo_env :: "(sslkey, nat, xml list) mount_env" where
  "demo_env =
     \<lparr>se_ciphers = ssl_ciphers xor_lib demo_delta demo_estimate (Suc (Suc 0)), se_null = null_with xor_key,
      se_version = str ''1.9.5'', se_print = (\<lambda>d. d), se_parse = (\<lambda>d. Some (map drop_blank d)),
      se_bytes = (\<lambda>_. []), se_of_bytes = (\<lambda>_. []), se_saves = (\<lambda>_. True), se_written = (\<lambda>_ d. int (length d)), se_getenv = (\<lambda>_. None),
      se_passProg = (\<lambda>_ _. None), se_uninit = (\<lambda>_. -1), se_junk = (\<lambda>n. replicate (nat n) 85)\<rparr>"

definition demo_start :: "(nat, xml list) mount_state" where
  "demo_start =
     \<lparr>su_stdin = [], su_tty = entry (str ''pass'') @ entry (str ''pass''), su_rng = 0, su_disk = (\<lambda>_. None),
      su_opts = EncFS_Opts\<lparr>opt_rootDir := str ''/v/'', opt_mountPoint := str ''/m/'', opt_configMode := Config_Standard\<rparr>\<rparr>"

abbreviation "demo_key \<equiv> ssl_keyed_of xor_lib demo_delta demo_estimate (Suc (Suc 0)) xor_aes"

lemma demo_password: "password_ok (str ''pass'')"
  by (simp add: password_ok_def MaxPassBuf_def str_def)

lemma demo_choice:
  "\<exists>v. choose_volume demo_env demo_start = (Inr (Some v), demo_start) \<and> nv_keySize v = 192 \<and>
     nv_alg v = Some (alg_row ''AES'' ''16 byte block cipher'' AESInterface AESKeyRange AESBlockRange) \<and>
     nv_nameIface v = Block_CurrentInterface False \<and> nv_duration v = 500"
proof -
  have env: "se_ciphers demo_env = ssl_ciphers xor_lib demo_delta demo_estimate (Suc (Suc 0))" by (simp add: demo_env_def)
  have alg: "nv_alg (preset demo_env 192 u) = Some (alg_row ''AES'' ''16 byte block cipher'' AESInterface AESKeyRange AESBlockRange)" for u
    by (rule preset_ok [OF env]) simp
  then show ?thesis
    by (simp add: choose_volume_def io_bind_split io_simps demo_start_def EncFS_Opts_def standard_volume_def Let_def)
      (simp add: preset_def new_volume_init_def NormalKDFDuration_def)
qed

lemma demo_cipher: "Cipher_New_name (str ''AES'') 192 (se_ciphers demo_env) = Some (Inr demo_key)"
proof -
  have "allowed AESKeyRange 192" by (simp add: AESKeyRange_def Range_def allowed_def smod_nonneg)
  then show ?thesis
    by (simp add: demo_env_def Cipher_New_name_def ssl_ciphers_def ssl_registered NewAESCipher_def closest_self SSL_Cipher_new_def
      Let_def xor_lib_def xor_aes_def)
qed


lemma demo_found:
  assumes "cipherIface c = AESInterface" "keySize c = 192"
  shows "getCipher demo_env c = Some (Inr demo_key)"
proof -
  have "allowed AESKeyRange 192" by (simp add: AESKeyRange_def Range_def allowed_def smod_nonneg)
  then show ?thesis
    using assms by (simp add: getCipher_def demo_env_def Cipher_New_def implements_def AESInterface_def Interface_def
      ssl_ciphers_def ssl_registered NewAESCipher_def closest_self SSL_Cipher_new_def Let_def xor_lib_def xor_aes_def)
qed

lemma demo_derived:
  "duration \<in> {500, 3000} \<Longrightarrow>
     \<exists>uk n. newKey xor_lib demo_delta demo_estimate (Suc (Suc 0)) cph pw 0 duration sl = Some (Some uk, n)"
  by (auto simp: newKey_def TimedPBKDF2_def xor_lib_def int32_def sdiv_nonneg)

lemma demo_user_key:
  assumes cph: "getCipher demo_env c = Some (Inr (ssl_keyed_of xor_lib demo_delta demo_estimate (Suc (Suc 0)) cph))"
    and "salt c \<noteq> [] \<or> cfgType c = Config_V6" "kdfIterations c = 0" and duration: "desiredKDFDuration c \<in> {500, 3000}"
    and pw: "password_ok pw" and tty: "su_tty s = entry pw @ entry pw"
  shows "\<exists>uk c' s'. getNewUserKey demo_env c s = (Inr (uk, c'), s')"
proof -
  have r: "readpassphrase (MaxPassBuf - 1) s = (Inr (Some pw), s\<lparr>su_tty := entry pw\<rparr>)"
      "readpassphrase (MaxPassBuf - 1) (s\<lparr>su_tty := entry pw\<rparr>) = (Inr (Some pw), s\<lparr>su_tty := []\<rparr>)"
    using read_entry [OF pw tty, of "MaxPassBuf - 1"]
      read_entry [OF pw, of "s\<lparr>su_tty := entry pw\<rparr>" "[]" "MaxPassBuf - 1"] by simp_all
  let ?K = "ssl_keyed_of xor_lib demo_delta demo_estimate (Suc (Suc 0)) cph"
  let ?n = "if salt c = [] then 20 else length (salt c)"
  have rand: "c_randomize (kc_cipher ?K) k g = (Some (replicate k 7), Suc g)" for k g
    by (simp add: ssl_keyed_of_def xor_lib_def)
  obtain uk n where uk: "kc_newKey ?K pw 0 (desiredKDFDuration c) (replicate ?n 7) = Some (Some uk, n)"
    using demo_derived [OF duration, of cph pw "replicate ?n 7"] by (auto simp: ssl_keyed_of_def)
  have "makeKey demo_env pw c g = (Inr (Some uk, c\<lparr>salt := replicate ?n 7, kdfIterations := n\<rparr>), Suc g)" for g
    using cph assms(2,3) pw uk rand by (auto simp: makeKey_def Let_def password_ok_def)
  then show ?thesis unfolding getNewUserKey.simps [of demo_env c s] r prod.case sum.case by simp
qed

lemma demo_created: "\<exists>root s'. createV6Config demo_env demo_start = (Inr (Some root), s')"
proof -
  obtain v where v: "choose_volume demo_env demo_start = (Inr (Some v), demo_start)" "nv_keySize v = 192"
     "nv_alg v = Some (alg_row ''AES'' ''16 byte block cipher'' AESInterface AESKeyRange AESBlockRange)"
     "nv_nameIface v = Block_CurrentInterface False" "nv_duration v = 500"
    using demo_choice by blast
  let ?c = "volume_config demo_env demo_key v"
  have opts: "opt_useStdin (su_opts demo_start) = False" "opt_passwordProgram (su_opts demo_start) = []"
    by (simp_all add: demo_start_def EncFS_Opts_def)
  obtain vk g where vk: "kc_newRandomKey demo_key (su_rng demo_start) = (Some vk, g)"
    by (simp add: ssl_keyed_of_def newRandomKey_def SSL_randomize_def xor_lib_def)
  obtain uk c' s2 where uk: "getNewUserKey demo_env ?c (demo_start\<lparr>su_rng := g\<rparr>) = (Inr (uk, c'), s2)"
    using demo_user_key [OF demo_found _ _ _ demo_password, of ?c "demo_start\<lparr>su_rng := g\<rparr>"] v
    by (auto simp: volume_config_def EncFSConfig_new_def demo_start_def ssl_keyed_of_def ssl_as_cipher_def xor_aes_def)
  have ok: "key_ok xor_aes vk" using newRandomKey_made [OF xor_laws.openssl_laws_axioms] vk by (simp add: ssl_keyed_of_def)
  obtain g' where "makeKey demo_env (str ''pass'') ?c g = (Inr (Some uk, c'), g')"
    using new_key_of_entries [OF demo_password _ uk] by (auto simp: demo_start_def)
  then obtain sl n where "newKey xor_lib demo_delta demo_estimate (Suc (Suc 0)) xor_aes (str ''pass'') 0 (desiredKDFDuration ?c) sl = Some (Some uk, n)"
      "c' = ?c\<lparr>salt := sl, kdfIterations := n\<rparr>"
    using makeKey_new [OF demo_found, of ?c "str ''pass''" g uk c' g'] v
    by (auto simp: volume_config_def EncFSConfig_new_def ssl_keyed_of_def ssl_as_cipher_def xor_aes_def)
  note uk' = newKey_made(1) [OF xor_laws.openssl_laws_axioms _ this(1)] this(2)
  obtain d where d: "writeKey xor_lib xor_aes vk uk = Inr d"
    using key_wrap [OF xor_laws.openssl_laws_axioms xor_aes_ok ok uk'(1)] by (auto simp: int32_ok_def)
  have "\<exists>r. open_root demo_env (su_opts demo_start) (c'\<lparr>keyData := d\<rparr>) demo_key vk = Inr (Some r)"
    using v(4) by (simp add: uk'(2) open_root_def volume_config_def NameIO_New_def name_registered implements_def
      Block_CurrentInterface_def Interface_def NewBlockNameIO_def BlockNameIO_def ssl_keyed_of_def xor_lib_def xor_aes_def Let_def)
  then obtain r where "open_root demo_env (su_opts demo_start) (c'\<lparr>keyData := d\<rparr>) demo_key vk = Inr (Some r)" by blast
  moreover have "c_writeKey (kc_cipher demo_key) vk uk = Inr d" using d by (simp add: ssl_keyed_of_def ssl_as_cipher_def)
  moreover have "se_saves demo_env p" for p by (simp add: demo_env_def)
  ultimately have "\<exists>root s'. key_volume demo_env demo_key ?c demo_start = (Inr (Some root), s')"
    using vk uk opts by (simp add: key_volume_def io_bind_split io_simps save_v6 Let_def)
  then show ?thesis
    using v demo_cipher by (simp add: createV6Config_def io_bind_split alg_row_def)
qed



theorem mount_after_create_witness:
  "\<exists>root s' dn cph key root' t'. createV6Config demo_env demo_start = (Inr (Some root), s') \<and>
     vr_dir root = Some (dn, cph, key) \<and>
     initFS demo_env (s'\<lparr>su_tty := entry (str ''pass''), su_rng := 99\<rparr>) = (Inr (Some root'), t') \<and>
     vr_volumeKey root' = Some key"
proof -
  obtain root s' where r: "createV6Config demo_env demo_start = (Inr (Some root), s')" using demo_created by blast
  have env: "se_ciphers demo_env = ssl_ciphers xor_lib demo_delta demo_estimate (Suc (Suc 0))"
      "set (se_version demo_env) \<inter> {0, 13} = {}" "\<forall>n. length (se_junk demo_env n) = nat n"
      "\<forall>c. v6_ok c \<longrightarrow> xml_keeps (se_print demo_env) (se_parse demo_env) (v6_document c)"
      "\<forall>i d t. int32_ok (demo_estimate i d t)"
    by (simp_all add: demo_env_def str_def xml_keeps_def int32_ok_def)
  have opts: "su_tty demo_start = entry (str ''pass'') @ entry (str ''pass'')" "\<not> opt_useStdin (su_opts demo_start)"
      "opt_passwordProgram (su_opts demo_start) = []" "\<not> opt_reverseEncryption (su_opts demo_start)"
      "\<not> opt_delayMount (su_opts demo_start)" "\<not> (opt_requireMac (su_opts demo_start) \<and> opt_insecure (su_opts demo_start))"
    by (simp_all add: demo_start_def EncFS_Opts_def)
  show ?thesis
    using mount_after_create [OF xor_laws.openssl_laws_axioms env(5,1-4) demo_password opts r,
        of "s'\<lparr>su_tty := entry (str ''pass''), su_rng := 99\<rparr>" "[]"] r by auto
qed


section \<open>Reverse mode with authentication\<close>

text \<open>
  With \<open>--reverse\<close> and \<open>--require-macs\<close> the standard configuration stores block headers, which \<open>initFS\<close>
  does not accept in reverse mode: the volume that was just created cannot be opened again.
\<close>

lemma reverse_macs_refused:
  assumes "openssl_laws lib" "se_ciphers env = ssl_ciphers lib delta estimate fuel"
    and opts: "opt_reverseEncryption (su_opts s)" "opt_requireMac (su_opts s)" "opt_configMode (su_opts s) = Config_Standard"
    and "createV6Config env s = (Inr (Some root), s')" "vr_dir root = Some (dn, cf, vk)"
    and "opt_reverseEncryption (su_opts t)"
  shows "initFS_found env (fs_config (dn_cfg dn)) t = (Inr None, t)"
proof -
  obtain v alg cph s1 where v: "choose_volume env s = (Inr (Some v), s1)" "nv_ok (su_opts s) v"
    and kv: "key_volume env (ssl_keyed_of lib delta estimate fuel cph)
       (volume_config env (ssl_keyed_of lib delta estimate fuel cph) v) s1 = (Inr (Some root), s')"
    by (rule createE [OF assms(6,2,1)]) blast
  have "(nv_alg (preset env 192 u) = None) = False" for u using preset_ok(1) [OF assms(2), of 192 u] by simp
  then have "v = standard_volume env (su_opts s) (new_volume_init True)"
    using v(1) opts by (auto simp: choose_volume_def io_bind_split io_simps standard_volume_def Let_def simp del: not_None_eq)
  then have "nv_blockMACBytes v = 8" using opts by (simp add: standard_volume_def Let_def)
  moreover obtain c' uk rng s2 d vk' where c': "new_user_key env (su_opts s1) (volume_config env (ssl_keyed_of lib delta estimate fuel cph) v)
      (s1\<lparr>su_rng := rng\<rparr>) = (Inr (Some uk, c'), s2)"
    and root: "open_root env (su_opts s1) (c'\<lparr>keyData := d\<rparr>) (ssl_keyed_of lib delta estimate fuel cph) vk' = Inr (Some root)"
    by (rule key_volumeE [OF kv]) blast
  moreover have "fs_config (dn_cfg dn) = c'\<lparr>keyData := d\<rparr>"
    by (rule open_rootE [OF root]) (use assms(7) in simp)
  moreover have "blockMACBytes c' = nv_blockMACBytes v"
    using rekeyed_fields(10) [OF conjunct1 [OF new_user_key_rekeys [OF c']]] by (simp add: volume_config_def)
  ultimately show ?thesis using assms(8) by (simp add: initFS_found_def io_bind_split io_simps)
qed


end
