(* ===== verification/Control_Tool.thy ===== *)
theory Control_Tool
  imports New_Volume
begin

text \<open>
  The command line tool \<^verbatim>\<open>encfs/encfsctl.cpp\<close>, as far as it works on configurations and names: opening a volume
  without a mount, changing and checking the password, the volume key as text, and the coding of names. The
  state is that of \<open>Volume_Setup\<close>; what a command prints is the second part of its result, a list of
  lines. Whether a path is a directory is an argument. The commands that list or copy files are not modelled.
\<close>

section \<open>Volumes\<close>

definition EXIT_SUCCESS :: int where "EXIT_SUCCESS = 0"
definition EXIT_FAILURE :: int where "EXIT_FAILURE = 1"

text \<open>The directory with a slash at its end, if it is one.\<close>

definition checkDir :: "(bytes \<Rightarrow> bool) \<Rightarrow> bytes \<Rightarrow> bytes option" where
  "checkDir isDir rootDir =
     (if \<not> isDir rootDir then None
      else Some (if last rootDir \<noteq> slash then rootDir @ [slash] else rootDir))"

text \<open>The options of \<open>initRootInfo\<close>; of its two versions one has options on the command line.\<close>

definition ctl_opts :: "bytes \<Rightarrow> bool \<Rightarrow> bytes \<Rightarrow> efs_opts" where
  "ctl_opts passProg reverse rootDir = EncFS_Opts\<lparr>opt_rootDir := rootDir, opt_createIfNotFound := False, opt_checkKey := False,
     opt_passwordProgram := passProg, opt_reverseEncryption := reverse\<rparr>"

definition initRootInfo ::
  "('k, 'r, 'x) mount_env \<Rightarrow> (bytes \<Rightarrow> bool) \<Rightarrow> bytes \<Rightarrow> bool \<Rightarrow> bytes \<Rightarrow>
   (('r, 'x) mount_state, ('k, 'r) volume_root option) io" where
  "initRootInfo env isDir passProg reverse crootDir =
     (case checkDir isDir crootDir of None \<Rightarrow> io_return None
      | Some rootDir \<Rightarrow>
          io_bind (io_modify (\<lambda>s. s\<lparr>su_opts := ctl_opts passProg reverse rootDir\<rparr>)) (\<lambda>_. initFS env))"

definition ctl_read ::
  "('k, 'r, 'x) mount_env \<Rightarrow> bytes \<Rightarrow> (('r, 'x) mount_state, config_type \<times> EncFSConfig) io" where
  "ctl_read env rootDir s =
     (case readConfig (load_config env (su_disk s)) (\<lambda>path. su_disk s path \<noteq> None) (se_getenv env) rootDir []
             (EncFSConfig_new (se_uninit env ''keySize'') (se_uninit env ''blockSize'')) of
        (Inl e, _) \<Rightarrow> (Inl e, s) | (Inr type, c) \<Rightarrow> (Inr (type, c), s))"

text \<open>\<open>showInfo\<close>, without the lines it prints.\<close>

definition showInfo :: "('k, 'r, 'x) mount_env \<Rightarrow> (bytes \<Rightarrow> bool) \<Rightarrow> bytes \<Rightarrow> (('r, 'x) mount_state, int) io" where
  "showInfo env isDir arg =
     (case checkDir isDir arg of None \<Rightarrow> io_return EXIT_FAILURE
      | Some rootDir \<Rightarrow>
          io_bind (ctl_read env rootDir) (\<lambda>(type, c).
          io_return (if type = Config_None \<or> type = Config_Prehistoric then EXIT_FAILURE else EXIT_SUCCESS)))"

section \<open>Passwords\<close>

definition do_chpasswd ::
  "('k, 'r, 'x) mount_env \<Rightarrow> (bytes \<Rightarrow> bool) \<Rightarrow> bool \<Rightarrow> bool \<Rightarrow> bytes \<Rightarrow> (('r, 'x) mount_state, int) io" where
  "do_chpasswd env isDir useStdin checkOnly arg =
     (case checkDir isDir arg of None \<Rightarrow> io_return EXIT_FAILURE
      | Some rootDir \<Rightarrow>
     io_bind (ctl_read env rootDir) (\<lambda>(type, c).
     if type = Config_None then io_return EXIT_FAILURE else
     (case Cipher_New (cipherIface c) (keySize c) (se_ciphers env) of
        None \<Rightarrow> io_return EXIT_FAILURE
      | Some (Inl e) \<Rightarrow> io_throw e
      | Some (Inr cph) \<Rightarrow>
     io_bind (getUserKey env useStdin c) (\<lambda>(userKey, c).
     case userKey of None \<Rightarrow> io_return EXIT_FAILURE
     | Some userKey \<Rightarrow>
     io_bind (io_of (c_readKey (kc_cipher cph) (keyData c) userKey True)) (\<lambda>volumeKey.
     case volumeKey of None \<Rightarrow> io_return EXIT_FAILURE
     | Some volumeKey \<Rightarrow>
     if checkOnly then io_return EXIT_SUCCESS
     else
     let c = c\<lparr>kdfIterations := 0\<rparr> in
     io_bind (if useStdin then getUserKey env True c
              else io_bind (getNewUserKey env c) (\<lambda>(key, c). io_return (Some key, c))) (\<lambda>(userKey, c).
     case userKey of None \<Rightarrow> io_return EXIT_FAILURE
     | Some userKey \<Rightarrow>
     io_bind (io_of (c_writeKey (kc_cipher cph) volumeKey userKey)) (\<lambda>keyBuf.
     let c = c\<lparr>keyData := keyBuf\<rparr> in
     io_bind (saveConfig (save_config env c) (se_getenv env) type rootDir []) (\<lambda>ok.
     io_return (if ok then EXIT_SUCCESS else EXIT_FAILURE)))))))))"

definition chpasswd :: "('k, 'r, 'x) mount_env \<Rightarrow> (bytes \<Rightarrow> bool) \<Rightarrow> bytes \<Rightarrow> (('r, 'x) mount_state, int) io" where
  "chpasswd env isDir = do_chpasswd env isDir False False"

definition chpasswdAutomaticly :: "('k, 'r, 'x) mount_env \<Rightarrow> (bytes \<Rightarrow> bool) \<Rightarrow> bytes \<Rightarrow> (('r, 'x) mount_state, int) io" where
  "chpasswdAutomaticly env isDir = do_chpasswd env isDir True False"

definition ckpasswdAutomaticly :: "('k, 'r, 'x) mount_env \<Rightarrow> (bytes \<Rightarrow> bool) \<Rightarrow> bytes \<Rightarrow> (('r, 'x) mount_state, int) io" where
  "ckpasswdAutomaticly env isDir = do_chpasswd env isDir True True"

section \<open>Keys and names\<close>

definition cmd_showKey ::
  "('k, 'r, 'x) mount_env \<Rightarrow> (bytes \<Rightarrow> bool) \<Rightarrow> bytes \<Rightarrow> (('r, 'x) mount_state, int \<times> bytes list) io" where
  "cmd_showKey env isDir arg =
     io_bind (initRootInfo env isDir [] False arg) (\<lambda>root.
     case root of None \<Rightarrow> io_return (EXIT_FAILURE, [])
     | Some root \<Rightarrow>
         (case vr_volumeKey root of None \<Rightarrow> io_throw (Fatal ''null key'')
          | Some key \<Rightarrow>
              io_bind (io_of (encodeAsString (kc_cipher (vr_cipher root)) key key)) (\<lambda>b64Key.
              io_return (EXIT_SUCCESS, [b64Key]))))"

text \<open>
  The lines of the standard input that \<open>cin.getline\<close> puts into a buffer of \<open>PATH_MAX\<close> bytes; a longer line
  ends the loop.
\<close>

definition PATH_MAX :: nat where "PATH_MAX = 4096"

function input_lines :: "bytes \<Rightarrow> bytes list" where
  "input_lines inp =
     (if inp = [] then []
      else let l = takeWhile (\<lambda>b. b \<noteq> 10) inp in
        if length l \<ge> PATH_MAX then [] else c_str l # input_lines (drop (Suc (length l)) inp))"
  by pat_completeness auto
termination by (relation "measure length") auto

declare input_lines.simps [simp del]

text \<open>The two commands share everything but the function: the names given, or those on the standard input.\<close>

fun code_names :: "(bytes \<Rightarrow> exn + bytes) \<Rightarrow> bytes list \<Rightarrow> exn + bytes list" where
  "code_names f [] = Inr []"
| "code_names f (n # ns) =
     (case f n of Inl e \<Rightarrow> Inl e
      | Inr x \<Rightarrow> (case code_names f ns of Inl e \<Rightarrow> Inl e | Inr xs \<Rightarrow> Inr (x # xs)))"

definition cmd_names ::
  "(dirnode \<Rightarrow> bytes \<Rightarrow> exn + bytes) \<Rightarrow> ('k, 'r, 'x) mount_env \<Rightarrow> (bytes \<Rightarrow> bool) \<Rightarrow> bytes \<Rightarrow> bool \<Rightarrow> bytes \<Rightarrow> bytes list \<Rightarrow>
   (('r, 'x) mount_state, int \<times> bytes list) io" where
  "cmd_names code env isDir passProg reverse rootDir args =
     io_bind (initRootInfo env isDir passProg reverse rootDir) (\<lambda>root.
     case root of None \<Rightarrow> io_return (EXIT_FAILURE, [])
     | Some root \<Rightarrow>
         (case vr_dir root of None \<Rightarrow> io_throw (Fatal ''null root'')
          | Some (dn, _) \<Rightarrow>
              io_bind (if args \<noteq> [] then io_return args else ask (\<lambda>inp. (input_lines inp, []))) (\<lambda>names.
              io_bind (io_of (code_names (code dn) names)) (\<lambda>out. io_return (EXIT_SUCCESS, out)))))"

definition cmd_decode ::
  "('k, 'r, 'x) mount_env \<Rightarrow> (bytes \<Rightarrow> bool) \<Rightarrow> bytes \<Rightarrow> bool \<Rightarrow> bytes \<Rightarrow> bytes list \<Rightarrow> (('r, 'x) mount_state, int \<times> bytes list) io" where
  "cmd_decode = cmd_names plainPath"

definition cmd_encode ::
  "('k, 'r, 'x) mount_env \<Rightarrow> (bytes \<Rightarrow> bool) \<Rightarrow> bytes \<Rightarrow> bool \<Rightarrow> bytes \<Rightarrow> bytes list \<Rightarrow> (('r, 'x) mount_state, int \<times> bytes list) io" where
  "cmd_encode = cmd_names cipherPathWithoutRoot"


lemma makeKey_renewed:
  assumes "getCipher env c = Some (Inr (ssl_keyed_of lib delta estimate fuel cph))"
    and "salt c \<noteq> []" "kdfIterations c = 0" "makeKey env pw c rng = (Inr (Some key, c'), rng')"
  shows "\<exists>sl n r. RAND_bytes lib (length (salt c)) rng = (Some sl, r) \<and>
    newKey lib delta estimate fuel cph pw 0 (desiredKDFDuration c) sl = Some (Some key, n) \<and>
    c' = c\<lparr>salt := sl, kdfIterations := n\<rparr>"
  using assms by (auto simp: makeKey_def Let_def ssl_keyed_of_def split: if_splits option.splits prod.splits)

text \<open>What the part of \<open>do_chpasswd\<close> behind the check of the old password does.\<close>

lemma chpasswdE:
  assumes "do_chpasswd env isDir False False arg s = (Inr EXIT_SUCCESS, s2)" "checkDir isDir arg = Some dir"
    and "ctl_read env dir s = (Inr (Config_V6, c), s)"
    and "getCipher env c = Some (Inr cph)"
    and "getUserKey env False c s = (Inr (Some uk, c), s1)" "c_readKey (kc_cipher cph) (keyData c) uk True = Inr (Some vk)"
  obtains uk' c' s3 d where "getNewUserKey env (c\<lparr>kdfIterations := 0\<rparr>) s1 = (Inr (uk', c'), s3)"
    "c_writeKey (kc_cipher cph) vk uk' = Inr d"
    "s2 = s3\<lparr>su_disk := (su_disk s3)(v6_path (se_getenv env) dir [] \<mapsto> se_print env (v6_document (c'\<lparr>keyData := d\<rparr>)))\<rparr>"
proof -
  obtain r s3 where new: "getNewUserKey env (c\<lparr>kdfIterations := 0\<rparr>) s1 = (r, s3)" by fastforce
  show ?thesis
  proof (cases r)
    case (Inl e)
    then show ?thesis using assms new by (simp add: do_chpasswd_def getCipher_def io_bind_split io_simps Let_def)
  next
    case (Inr x)
    obtain uk' c' where x: "x = (uk', c')" by fastforce
    show ?thesis
      using assms new Inr x
      by (cases "c_writeKey (kc_cipher cph) vk uk'")
        (auto simp: do_chpasswd_def getCipher_def io_bind_split io_simps save_v6 Let_def EXIT_SUCCESS_def EXIT_FAILURE_def
          intro: that split: if_splits)
  qed
qed

text \<open>The volume after a new password was set: the configuration as it was, with the volume key stored anew.\<close>

lemma open_root_rekeyed:
  assumes "open_root env opts c cph vk = Inr (Some r)" "vr_dir r = Some (dn, cf, vk)"
  shows "open_root env opts (c\<lparr>salt := sl, kdfIterations := n, keyData := d\<rparr>) cph vk = Inr (Some (r\<lparr>vr_dir :=
    Some (dn\<lparr>dn_cfg := (dn_cfg dn)\<lparr>fs_config := c\<lparr>salt := sl, kdfIterations := n, keyData := d\<rparr>\<rparr>\<rparr>, cf, vk)\<rparr>))"
  using assms by (auto simp: open_root_def Let_def split: option.splits sum.splits)

lemma chpasswd_unlocks:
  assumes laws: "openssl_laws lib" and est: "\<forall>i d t. int32_ok (estimate i d t)"
    and unl: "unlocks lib delta estimate fuel env cph old vk c" and size: "ssl_keySize cph \<le> 32"
    and junk: "\<forall>n. length (se_junk env n) = nat n" and xml: "xml_keeps (se_print env) (se_parse env) (v6_document c)"
    and pw: "password_ok old" "password_ok new" and dir: "checkDir isDir arg = Some dir"
    and disk: "su_disk s (v6_path (se_getenv env) dir []) = Some (se_print env (v6_document c))"
    and tty: "su_tty s = entry old @ entry new @ entry new"
    and ran: "chpasswd env isDir arg s = (Inr EXIT_SUCCESS, s2)"
  obtains c' sl n d where "c' = (ageless c)\<lparr>salt := sl, kdfIterations := n, keyData := d\<rparr>"
    "unlocks lib delta estimate fuel env cph new vk c'" "su_opts s2 = su_opts s"
    "su_disk s2 = (su_disk s)(v6_path (se_getenv env) dir [] \<mapsto> se_print env (v6_document c'))"
proof -
  let ?K = "ssl_keyed_of lib delta estimate fuel cph"
  let ?a = "ageless c"
  have read: "ctl_read env dir s = (Inr (Config_V6, ?a), s)"
    using read_stored [where disk = "su_disk s", OF unl junk xml disk] by (simp add: ctl_read_def del: not_None_eq)
  obtain uk where uk: "getCipher env ?a = Some (Inr ?K)"
      "getUserKey env False ?a s = (Inr (Some uk, ?a), s\<lparr>su_tty := entry new @ entry new\<rparr>)"
      "\<And>check. readKey lib cph (keyData c) uk check = Inr (Some vk)"
    by (rule user_key_stored [OF unl pw(1) tty]) blast
  have opens: "c_readKey (kc_cipher ?K) (keyData ?a) uk True = Inr (Some vk)"
    using uk(3) by (simp add: ssl_keyed_of_def ssl_as_cipher_def)
  obtain uk' c' s3 d where n: "getNewUserKey env (?a\<lparr>kdfIterations := 0\<rparr>) (s\<lparr>su_tty := entry new @ entry new\<rparr>) = (Inr (uk', c'), s3)"
    "c_writeKey (kc_cipher ?K) vk uk' = Inr d"
    "s2 = s3\<lparr>su_disk := (su_disk s3)(v6_path (se_getenv env) dir [] \<mapsto> se_print env (v6_document (c'\<lparr>keyData := d\<rparr>)))\<rparr>"
    by (rule chpasswdE [OF ran [unfolded chpasswd_def] dir read uk(1,2) opens]) blast
  obtain g where mk: "makeKey env new (?a\<lparr>kdfIterations := 0\<rparr>) (su_rng s) = (Inr (Some uk', c'), g)"
    using new_key_of_entries [OF pw(2) _ n(1)] by auto
  obtain sl k r where sl: "RAND_bytes lib (length (salt c)) (su_rng s) = (Some sl, r)"
      "newKey lib delta estimate fuel cph new 0 (desiredKDFDuration c) sl = Some (Some uk', k)"
      "c' = ?a\<lparr>salt := sl, kdfIterations := k\<rparr>"
    using makeKey_renewed [of env "?a\<lparr>kdfIterations := 0\<rparr>" lib delta estimate fuel cph, OF _ _ _ mk] uk(1) unl by (auto simp: getCipher_def unlocks_def)
  note uk' = newKey_made [OF laws est sl(2)]
  have written: "writeKey lib cph vk uk' = Inr d" using n(2) by (simp add: ssl_keyed_of_def ssl_as_cipher_def)
  have ok: "cipher_ok lib cph" "key_ok cph vk" using unl by (simp_all add: unlocks_def)
  have len: "length sl = length (salt c)" using openssl_laws.rand_length [OF laws sl(1)] .
  have "length d < 2 ^ 31" by (rule written_key_size [OF laws ok uk'(1) written size])
  then have "v6_ok (?a\<lparr>salt := sl, kdfIterations := k, keyData := d\<rparr>)"
    using unl uk'(3) len by (simp add: unlocks_def v6_ok_def ageless_def int32_ok_def)
  then have "unlocks lib delta estimate fuel env cph new vk (?a\<lparr>salt := sl, kdfIterations := k, keyData := d\<rparr>)"
    by (intro unlocks_rekeyed [OF laws ok _ uk'(1,2) written])
      (use unl len sl(2) in \<open>auto simp: unlocks_def\<close>)
  moreover have "same_files (s\<lparr>su_tty := entry new @ entry new\<rparr>) s3" using getNewUserKey_rekeys [OF n(1)] by blast
  ultimately show ?thesis using that n(3) sl(3) by (simp add: same_files_def)
qed

text \<open>
  Claim C13. After \<open>encfsctl passwd\<close> has changed the password of a volume, given the old one and twice the new one,
  and has reported success, \<open>initFS\<close> opens the volume with the new password and with the volume key it always
  had: the cipher, the key, the paths and the name coding of the directory node are those from before, and of
  the configuration only the salt, the iteration count and the stored key have been replaced. So no file has
  to be written anew.
\<close>

theorem chpasswd_mounts:
  assumes laws: "openssl_laws lib" and est: "\<forall>i d t. int32_ok (estimate i d t)"
    and env: "se_ciphers env = ssl_ciphers lib delta estimate fuel"
    and "set (se_version env) \<inter> {0, 13} = {}" and junk: "\<forall>n. length (se_junk env n) = nat n"
    and xml: "\<forall>c. v6_ok c \<longrightarrow> xml_keeps (se_print env) (se_parse env) (v6_document c)"
    and pw: "password_ok old" "password_ok new" and "su_tty s = entry old @ entry old"
    and "\<not> opt_useStdin (su_opts s)" "opt_passwordProgram (su_opts s) = []" "\<not> opt_reverseEncryption (su_opts s)"
    "\<not> opt_delayMount (su_opts s)" "\<not> (opt_requireMac (su_opts s) \<and> opt_insecure (su_opts s))" "opt_config (su_opts s) = []"
    and "createV6Config env s = (Inr (Some root), s')"
    and dir: "checkDir isDir arg = Some (opt_rootDir (su_opts s))"
    and t: "su_disk t = su_disk s'" "su_tty t = entry old @ entry new @ entry new"
    and ran: "chpasswd env isDir arg t = (Inr EXIT_SUCCESS, t')"
    and u: "su_disk u = su_disk t'" "su_opts u = su_opts s'" "su_tty u = entry new @ rest"
  shows "\<exists>dn cph key root' u' sl n d. vr_dir root = Some (dn, cph, key) \<and> initFS env u = (Inr (Some root'), u') \<and>
    vr_volumeKey root' = Some key \<and>
    vr_dir root' = Some (dn\<lparr>dn_cfg := (dn_cfg dn)\<lparr>fs_config :=
      (ageless (fs_config (dn_cfg dn)))\<lparr>salt := sl, kdfIterations := n, keyData := d\<rparr>\<rparr>\<rparr>, cph, key)"
proof -
  obtain v cph c vk where c: "nv_ok (su_opts s) v" "under_opts (su_opts s) s'" "unlocks lib delta estimate fuel env cph old vk c"
    "plainData c = nv_plainData v" "blockMACBytes c = nv_blockMACBytes v" "nameIface c \<in> name_ifaces" "ssl_keySize cph \<le> 32"
    "su_disk s' (v6_path (se_getenv env) (opt_rootDir (su_opts s)) (opt_config (su_opts s))) = Some (se_print env (v6_document c))"
    "open_root env (su_opts s') c (ssl_keyed_of lib delta estimate fuel cph) vk = Inr (Some root)"
    by (rule created_with_password [OF assms(1-4) pw(1) assms(9-11,16)]) blast
  have keeps: "xml_keeps (se_print env) (se_parse env) (v6_document c)" using xml c(3) by (simp add: unlocks_def)
  have disk: "su_disk t (v6_path (se_getenv env) (opt_rootDir (su_opts s)) []) = Some (se_print env (v6_document c))"
    using c(8) t(1) assms(15) by simp
  obtain c' sl n d where c': "c' = (ageless c)\<lparr>salt := sl, kdfIterations := n, keyData := d\<rparr>"
    "unlocks lib delta estimate fuel env cph new vk c'" "su_opts t' = su_opts t"
    "su_disk t' = (su_disk t)(v6_path (se_getenv env) (opt_rootDir (su_opts s)) [] \<mapsto> se_print env (v6_document c'))"
    by (rule chpasswd_unlocks [OF laws est c(3,7) junk keeps pw dir disk t(2) ran]) blast
  obtain dn cf where dn: "vr_dir root = Some (dn, cf, vk)" "fs_config (dn_cfg dn) = c"
    and opened: "open_root env (su_opts s') (ageless c) (ssl_keyed_of lib delta estimate fuel cph) vk =
       Inr (Some \<lparr>vr_cipher = ssl_keyed_of lib delta estimate fuel cph, vr_volumeKey = Some vk,
         vr_dir = Some (dn\<lparr>dn_cfg := (dn_cfg dn)\<lparr>fs_config := ageless c\<rparr>\<rparr>, cf, vk)\<rparr>)"
    by (rule open_root_ageless [OF c(9,6)]) blast
  have again: "ageless c' = (ageless c)\<lparr>salt := sl, kdfIterations := n, keyData := d\<rparr>" by (simp add: c'(1) ageless_def)
  have "xml_keeps (se_print env) (se_parse env) (v6_document c')" using xml c'(2) by (simp add: unlocks_def)
  note mount_unlocks [OF c'(2) junk this pw(2), of u rest, unfolded again u(2),
      OF _ _ _ _ _ _ _ u(3) open_root_rekeyed [OF opened]]
  moreover have "\<not> (blockMACBytes c' = 0 \<and> opt_requireMac (su_opts s))" "\<not> (plainData c' \<and> \<not> opt_insecure (su_opts s))"
    using c(1,4,5) assms(12,14) by (auto simp: c'(1) nv_ok_def)
  ultimately show ?thesis
    using assms(10-15) c'(4) u(1) dn under_opts_fields [OF c(2)] by simp blast
qed

section \<open>A password changed\<close>

lemma demo_chpasswd:
  assumes unl: "unlocks xor_lib demo_delta demo_estimate (Suc (Suc 0)) demo_env cph old vk c"
    and pw: "password_ok old" "password_ok new" and duration: "desiredKDFDuration c \<in> {500, 3000}"
    and dir: "checkDir isDir arg = Some dir"
    and disk: "su_disk s (v6_path (se_getenv demo_env) dir []) = Some (se_print demo_env (v6_document c))"
    and tty: "su_tty s = entry old @ entry new @ entry new"
  shows "\<exists>s2. chpasswd demo_env isDir arg s = (Inr EXIT_SUCCESS, s2)"
proof -
  let ?K = "ssl_keyed_of xor_lib demo_delta demo_estimate (Suc (Suc 0)) cph" and ?a = "ageless c"
  have junk: "\<forall>n. length (se_junk demo_env n) = nat n" and xml: "xml_keeps (se_print demo_env) (se_parse demo_env) (v6_document c)"
    by (simp_all add: demo_env_def xml_keeps_def)
  have read: "ctl_read demo_env dir s = (Inr (Config_V6, ?a), s)"
    using read_stored [where disk = "su_disk s", OF unl junk xml disk] by (simp add: ctl_read_def del: not_None_eq)
  obtain uk where uk: "getCipher demo_env ?a = Some (Inr ?K)"
      "getUserKey demo_env False ?a s = (Inr (Some uk, ?a), s\<lparr>su_tty := entry new @ entry new\<rparr>)"
      "\<And>check. readKey xor_lib cph (keyData c) uk check = Inr (Some vk)"
    by (rule user_key_stored [OF unl pw(1) tty]) blast
  obtain uk' c' s3 where new: "getNewUserKey demo_env (?a\<lparr>kdfIterations := 0\<rparr>) (s\<lparr>su_tty := entry new @ entry new\<rparr>) = (Inr (uk', c'), s3)"
    using demo_user_key [of "?a\<lparr>kdfIterations := 0\<rparr>" cph new "s\<lparr>su_tty := entry new @ entry new\<rparr>"] uk(1) duration pw(2) unl
    by (auto simp: getCipher_def unlocks_def)
  obtain g where "makeKey demo_env new (?a\<lparr>kdfIterations := 0\<rparr>) (su_rng s) = (Inr (Some uk', c'), g)"
    using new_key_of_entries [OF pw(2) _ new] by auto
  then have "key_ok cph uk'"
    using makeKey_renewed [of demo_env "?a\<lparr>kdfIterations := 0\<rparr>" xor_lib demo_delta demo_estimate "Suc (Suc 0)" cph new "su_rng s" uk' c' g]
      newKey_made(1) [OF xor_laws.openssl_laws_axioms, of demo_estimate] uk(1) unl
    by (auto simp: getCipher_def unlocks_def int32_ok_def)
  then obtain d where "writeKey xor_lib cph vk uk' = Inr d"
    using key_wrap [OF xor_laws.openssl_laws_axioms, of cph vk uk' True] unl by (auto simp: unlocks_def)
  moreover have "se_saves demo_env p" for p by (simp add: demo_env_def)
  ultimately show ?thesis
    using dir read uk new
    by (simp add: chpasswd_def do_chpasswd_def getCipher_def io_bind_split io_simps save_v6 Let_def ssl_keyed_of_def ssl_as_cipher_def)
qed

theorem chpasswd_mounts_witness:
  "\<exists>root s' dn cph key t' root' u'. createV6Config demo_env demo_start = (Inr (Some root), s') \<and>
     vr_dir root = Some (dn, cph, key) \<and>
     chpasswd demo_env (\<lambda>_. True) (str ''/v'')
       (s'\<lparr>su_tty := entry (str ''pass'') @ entry (str ''word'') @ entry (str ''word'')\<rparr>) = (Inr EXIT_SUCCESS, t') \<and>
     initFS demo_env (s'\<lparr>su_disk := su_disk t', su_tty := entry (str ''word'')\<rparr>) = (Inr (Some root'), u') \<and>
     vr_volumeKey root' = Some key"
proof -
  obtain root s' where r: "createV6Config demo_env demo_start = (Inr (Some root), s')" using demo_created by blast
  have env: "se_ciphers demo_env = ssl_ciphers xor_lib demo_delta demo_estimate (Suc (Suc 0))"
      "set (se_version demo_env) \<inter> {0, 13} = {}" "\<forall>n. length (se_junk demo_env n) = nat n"
      "\<forall>c. v6_ok c \<longrightarrow> xml_keeps (se_print demo_env) (se_parse demo_env) (v6_document c)"
      "\<forall>i d t. int32_ok (demo_estimate i d t)"
    by (simp_all add: demo_env_def str_def xml_keeps_def int32_ok_def)
  have opts: "su_tty demo_start = entry (str ''pass'') @ entry (str ''pass'')" "\<not> opt_useStdin (su_opts demo_start)"
      "opt_passwordProgram (su_opts demo_start) = []" "\<not> opt_reverseEncryption (su_opts demo_start)"
      "\<not> opt_delayMount (su_opts demo_start)" "\<not> (opt_requireMac (su_opts demo_start) \<and> opt_insecure (su_opts demo_start))"
      "opt_config (su_opts demo_start) = []"
    by (simp_all add: demo_start_def EncFS_Opts_def)
  have word: "password_ok (str ''word'')" by (simp add: password_ok_def MaxPassBuf_def str_def)
  have dir: "checkDir (\<lambda>_. True) (str ''/v'') = Some (opt_rootDir (su_opts demo_start))"
    by (simp add: checkDir_def demo_start_def str_def)
  let ?t = "s'\<lparr>su_tty := entry (str ''pass'') @ entry (str ''word'') @ entry (str ''word'')\<rparr>"
  obtain cph vk c where c: "unlocks xor_lib demo_delta demo_estimate (Suc (Suc 0)) demo_env cph (str ''pass'') vk c"
    "desiredKDFDuration c \<in> {500, 3000}"
    "su_disk s' (v6_path (se_getenv demo_env) (opt_rootDir (su_opts demo_start)) (opt_config (su_opts demo_start))) =
       Some (se_print demo_env (v6_document c))"
    by (rule created_with_password [OF xor_laws.openssl_laws_axioms env(5,1,2) demo_password opts(1-3) r]) blast
  obtain t' where t': "chpasswd demo_env (\<lambda>_. True) (str ''/v'') ?t = (Inr EXIT_SUCCESS, t')"
    using demo_chpasswd [OF c(1) demo_password word c(2) dir, of ?t] c(3) opts(7) by auto
  show ?thesis
    using chpasswd_mounts [OF xor_laws.openssl_laws_axioms env(5,1-4) demo_password word opts r dir _ _ t',
        of "s'\<lparr>su_disk := su_disk t', su_tty := entry (str ''word'')\<rparr>" "[]"] r t' by auto
qed

section \<open>Failures\<close>

text \<open>An operation that leaves the files as they are unless its result is in \<open>Q\<close>.\<close>

definition disk_safe :: "('a \<Rightarrow> bool) \<Rightarrow> (('r, 'x) mount_state, 'a) io \<Rightarrow> bool" where
  "disk_safe Q m = (\<forall>s r s'. m s = (r, s') \<longrightarrow> su_disk s' = su_disk s \<or> (\<exists>x. r = Inr x \<and> Q x))"

abbreviation "disk_kept \<equiv> disk_safe (\<lambda>_. False)"

lemma disk_safe_basic [intro!]:
  "disk_safe Q (io_return x)" "disk_safe Q (io_throw e)" "disk_safe Q (io_of v)"
  by (auto simp: disk_safe_def io_return_def io_throw_def io_of_def split: sum.splits)

lemma disk_safe_bind [intro!]:
  "disk_kept m \<Longrightarrow> (\<And>x. disk_safe Q (k x)) \<Longrightarrow> disk_safe Q (io_bind m k)"
  unfolding disk_safe_def by (auto simp: io_bind_def split: prod.splits sum.splits) metis

lemma disk_safe_last:
  "disk_safe R m \<Longrightarrow> (\<And>x. R x \<Longrightarrow> Q (f x)) \<Longrightarrow> disk_safe Q (io_bind m (\<lambda>x. io_return (f x)))"
  unfolding disk_safe_def by (fastforce simp: io_bind_def io_return_def split: prod.splits sum.splits)

lemma ask_disk [intro!]: "disk_kept (ask f)"
  by (auto simp: disk_safe_def ask_def split: prod.splits)

lemma readpassphrase_disk [intro!]: "disk_kept (readpassphrase n)"
  by (auto simp: disk_safe_def readpassphrase_def Let_def)

lemma key_from_disk [intro!]: "disk_kept (key_from env pw c)"
  by (auto simp: disk_safe_def key_from_def split: prod.splits)

lemma getUserKey_disk [intro!]: "disk_kept (getUserKey env useStdin c)"
  by (auto simp: getUserKey_def split: option.split)

lemma getNewUserKey_disk: "getNewUserKey env c s = (r, s') \<Longrightarrow> su_disk s' = su_disk s"
proof (induction env c s rule: getNewUserKey.induct)
  case (1 env c s)
  obtain r1 s1 where p1: "readpassphrase (MaxPassBuf - 1) s = (Inr r1, s1)" by (simp add: readpassphrase_def Let_def)
  obtain r2 s2 where p2: "readpassphrase (MaxPassBuf - 1) s1 = (Inr r2, s2)" by (simp add: readpassphrase_def Let_def)
  have same: "su_disk s2 = su_disk s" using readpassphrase_files [OF p1] readpassphrase_files [OF p2] by (simp add: same_files_def)
  note eq = "1.prems" [unfolded getNewUserKey.simps [of env c s], unfolded p1 p2 prod.case sum.case]
  note IH = "1.IH" [OF p1 [symmetric] refl p2 [symmetric] refl]
  show ?case
  proof (cases "r1 \<noteq> None \<and> r2 = r1")
    case False
    then show ?thesis using eq IH(2) same by (auto split: if_splits)
  next
    case True
    obtain m rng where m: "makeKey env (the r1) c (su_rng s2) = (m, rng)" by fastforce
    show ?thesis
      using eq [unfolded if_P [OF True] m prod.case] IH(1) [OF True m [symmetric]] same
      by (auto split: if_splits sum.splits option.splits)
  qed
qed

lemma store_disk [intro!]: "disk_safe (\<lambda>ok. ok) (store env path x)"
  by (auto simp: disk_safe_def store_def split: if_splits)

lemma catch_disk [intro!]: "disk_safe Q m \<Longrightarrow> disk_safe Q (io_catch m (\<lambda>_. io_return False))"
  unfolding disk_safe_def io_catch_def io_return_def
  by (fastforce split: prod.splits sum.splits exn.splits)

lemma saveConfig_loop_disk: "(\<And>f path. disk_safe (\<lambda>ok. ok) (save f path)) \<Longrightarrow>
    disk_safe (\<lambda>ok. ok) (saveConfig_loop save getenv type dir cmd nms)"
  by (induction nms)
    (auto simp: Let_def split: option.split)

lemma overwrite_disk [intro!]: "se_saves env path \<longrightarrow> ok \<Longrightarrow> disk_safe (\<lambda>ok. ok) (overwrite env path d ok)"
  by (auto simp: disk_safe_def overwrite_def Let_def split: if_splits)

lemma save_disk:
  "\<forall>p d. se_saves env p \<longrightarrow> se_written env p d = int (length d) \<Longrightarrow>
     disk_safe (\<lambda>ok. ok) (saveConfig (save_config env c) getenv type dir cmd)"
  unfolding saveConfig_def
  by (rule saveConfig_loop_disk)
    (auto simp: save_config_def writeV6Config_def writeV5Config_def writeV4Config_def config_save_def Let_def
      split: config_format.split)

lemma ctl_read_disk [intro!]: "disk_kept (ctl_read env dir)"
  by (auto simp: disk_safe_def ctl_read_def split: prod.splits sum.splits)

text \<open>
  Claim C21. Changing or checking a password touches no file unless it reports success, and a check never does:
  whatever the configuration, the passwords and the errors are (a directory that is none, a configuration that
  cannot be read, an unknown cipher, a wrong password, a random generator that fails, a file that cannot be
  opened for writing), all files are as before. In particular a wrong old password does not damage the stored
  key. The writes of the binary formats have to be complete: those are done in place, a short one has
  overwritten the beginning of the old configuration when it is noticed.
\<close>

theorem chpasswd_failure_keeps:
  assumes "do_chpasswd env isDir useStdin checkOnly arg s = (r, s')" "checkOnly \<or> r \<noteq> Inr EXIT_SUCCESS"
    and written: "\<forall>p d. se_saves env p \<longrightarrow> se_written env p d = int (length d)"
  shows "su_disk s' = su_disk s"
proof -
  have new: "disk_kept (getNewUserKey env c)" for c using getNewUserKey_disk by (auto simp: disk_safe_def)
  have "disk_safe (\<lambda>x. x = EXIT_SUCCESS \<and> \<not> checkOnly) (do_chpasswd env isDir useStdin checkOnly arg)"
    unfolding do_chpasswd_def Let_def
    by (auto split: option.split sum.split prod.split intro!: new disk_safe_last [OF save_disk [OF written]])
  then show ?thesis using assms by (auto simp: disk_safe_def)
qed

theorem chpasswd_failure_keeps_witness:
  "\<exists>s'. do_chpasswd demo_env (\<lambda>_. False) True True [] demo_start = (Inr EXIT_FAILURE, s') \<and> su_disk s' = su_disk demo_start"
  using chpasswd_failure_keeps [of demo_env "\<lambda>_. False" True True "[]" demo_start "Inr EXIT_FAILURE" demo_start]
  by (simp add: do_chpasswd_def checkDir_def io_simps demo_env_def)

end
