(* ===== verification/Command_Line.thy ===== *)
theory Command_Line
  imports New_Volume
begin

text \<open>
  The command line of \<^verbatim>\<open>encfs\<close>: \<open>processArgs\<close> of \<^verbatim>\<open>encfs/main.cpp\<close>, with \<open>getopt_long\<close> of the C
  library as it is called there (without \<^verbatim>\<open>POSIXLY_CORRECT\<close>: options may follow other arguments).

  \<^item> \<open>getopt_args\<close> turns the arguments into the values \<open>getopt_long\<close> returns, each with \<open>optarg\<close>, and the
    arguments that are left over.
  \<^item> The state is \<open>EncFS_Args\<close> with the standard input and the directories that exist. \<open>exit\<close> is an exception.
\<close>

section \<open>getopt\<close>

definition oc :: "char \<Rightarrow> int" where "oc c = of_char c"

definition LONG_OPT_ANNOTATE :: int where "LONG_OPT_ANNOTATE = 513"
definition LONG_OPT_NOCACHE :: int where "LONG_OPT_NOCACHE = 514"
definition LONG_OPT_NODATACACHE :: int where "LONG_OPT_NODATACACHE = 515"
definition LONG_OPT_NOATTRCACHE :: int where "LONG_OPT_NOATTRCACHE = 516"
definition LONG_OPT_REQUIRE_MAC :: int where "LONG_OPT_REQUIRE_MAC = 517"
definition LONG_OPT_INSECURE :: int where "LONG_OPT_INSECURE = 518"

lemmas LONG_OPT = LONG_OPT_ANNOTATE_def LONG_OPT_NOCACHE_def LONG_OPT_NODATACACHE_def LONG_OPT_NOATTRCACHE_def
  LONG_OPT_REQUIRE_MAC_def LONG_OPT_INSECURE_def

text \<open>The option letters of \<^verbatim>\<open>"HsSfvdmi:o:t:c:u"\<close>, and whether an argument belongs to them.\<close>

definition short_options :: "(byte \<times> bool) list" where
  "short_options = map (\<lambda>c. (of_char c, False)) ''HsSfvdm'' @ map (\<lambda>c. (of_char c, True)) ''iotc'' @
     [(of_char (CHR ''u''), False)]"

definition long_options :: "(bytes \<times> bool \<times> int) list" where
  "long_options =
     [(str ''fuse-debug'', False, oc (CHR ''d'')), (str ''forcedecode'', False, oc (CHR ''D'')),
      (str ''fuse-help'', False, oc (CHR ''H'')), (str ''idle'', True, oc (CHR ''i'')),
      (str ''anykey'', False, oc (CHR ''k'')), (str ''no-default-flags'', False, oc (CHR ''N'')),
      (str ''ondemand'', False, oc (CHR ''m'')), (str ''delaymount'', False, oc (CHR ''M'')),
      (str ''public'', False, oc (CHR ''P'')), (str ''extpass'', True, oc (CHR ''p'')),
      (str ''stdinpass'', False, oc (CHR ''S'')), (str ''syslogtag'', True, oc (CHR ''t'')),
      (str ''annotate'', False, LONG_OPT_ANNOTATE), (str ''nocache'', False, LONG_OPT_NOCACHE),
      (str ''nodatacache'', False, LONG_OPT_NODATACACHE), (str ''noattrcache'', False, LONG_OPT_NOATTRCACHE),
      (str ''verbose'', False, oc (CHR ''v'')), (str ''version'', False, oc (CHR ''V'')),
      (str ''reverse'', False, oc (CHR ''r'')), (str ''reversewrite'', False, oc (CHR ''R'')),
      (str ''standard'', False, oc (CHR ''1'')), (str ''paranoia'', False, oc (CHR ''2'')),
      (str ''require-macs'', False, LONG_OPT_REQUIRE_MAC), (str ''insecure'', False, LONG_OPT_INSECURE),
      (str ''config'', True, oc (CHR ''c'')), (str ''unmount'', True, oc (CHR ''u''))]"

text \<open>A long option may be shortened as long as it stays clear which one is meant.\<close>

definition find_long :: "bytes \<Rightarrow> (bool \<times> int) option" where
  "find_long name =
     (case map_of long_options name of
        Some op \<Rightarrow> Some op
      | None \<Rightarrow>
          (case remdups (map snd (filter (\<lambda>(n, _). take (length name) n = name) long_options)) of
             [op] \<Rightarrow> Some op | _ \<Rightarrow> None))"

definition getopt_long :: "bytes \<Rightarrow> bytes list \<Rightarrow> (int \<times> bytes) \<times> bytes list" where
  "getopt_long arg rest =
     (let name = takeWhile (\<lambda>b. b \<noteq> of_char (CHR ''='')) arg; val = drop (length name) arg; bad = (oc (CHR ''?''), []) in
      case find_long name of
        None \<Rightarrow> (bad, rest)
      | Some (False, res) \<Rightarrow> (if val \<noteq> [] then bad else (res, []), rest)
      | Some (True, res) \<Rightarrow>
          (if val \<noteq> [] then ((res, tl val), rest)
           else case rest of [] \<Rightarrow> (bad, []) | a # rest \<Rightarrow> ((res, a), rest)))"

fun getopt_short :: "bytes \<Rightarrow> bytes list \<Rightarrow> (int \<times> bytes) list \<times> bytes list" where
  "getopt_short [] rest = ([], rest)"
| "getopt_short (c # cs) rest =
     (case map_of short_options c of
        None \<Rightarrow> (case getopt_short cs rest of (evs, r) \<Rightarrow> ((oc (CHR ''?''), []) # evs, r))
      | Some False \<Rightarrow> (case getopt_short cs rest of (evs, r) \<Rightarrow> ((uint c, []) # evs, r))
      | Some True \<Rightarrow>
          (if cs \<noteq> [] then ([(uint c, cs)], rest)
           else case rest of [] \<Rightarrow> ([(oc (CHR ''?''), [])], []) | a # rest \<Rightarrow> ([(uint c, a)], rest)))"

lemma getopt_short_rest: "(evs, r) = getopt_short cs rest \<Longrightarrow> length r \<le> length rest"
  by (induction cs rest arbitrary: evs r rule: getopt_short.induct)
    (auto split: option.splits bool.splits prod.splits if_splits list.splits)

lemma getopt_long_rest: "(ev, r) = getopt_long arg rest \<Longrightarrow> length r \<le> length rest"
  by (auto simp: getopt_long_def Let_def split: option.splits bool.splits if_splits list.splits)

abbreviation "dash \<equiv> of_char (CHR ''-'') :: byte"

function getopt_args :: "bytes list \<Rightarrow> (int \<times> bytes) list \<times> bytes list" where
  "getopt_args [] = ([], [])"
| "getopt_args (a # rest) =
     (if a = [dash, dash] then ([], rest)
      else if take 2 a = [dash, dash] then
        (case getopt_long (drop 2 a) rest of (ev, rest) \<Rightarrow>
         case getopt_args rest of (evs, args) \<Rightarrow> (ev # evs, args))
      else if take 1 a = [dash] \<and> a \<noteq> [dash] then
        (case getopt_short (drop 1 a) rest of (evs, rest) \<Rightarrow>
         case getopt_args rest of (evs', args) \<Rightarrow> (evs @ evs', args))
      else (case getopt_args rest of (evs, args) \<Rightarrow> (evs, a # args)))"
  by pat_completeness auto
termination
  by (relation "measure length") (auto dest: getopt_long_rest getopt_short_rest simp: less_Suc_eq_le)

section \<open>The arguments\<close>

record cmd_args =
  ar_isDaemon :: bool
  ar_isThreaded :: bool
  ar_isVerbose :: bool
  ar_idleTimeout :: int
  ar_fuseArgv :: "bytes option list"
  ar_syslogTag :: bytes
  ar_opts :: efs_opts
  ar_useDefaultFlags :: bool
  ar_stdin :: bytes
  ar_dirs :: "bytes \<Rightarrow> bool"

abbreviation opt_mod :: "(efs_opts \<Rightarrow> efs_opts) \<Rightarrow> (cmd_args, unit) io" where
  "opt_mod f \<equiv> io_modify (\<lambda>a. a\<lparr>ar_opts := f (ar_opts a)\<rparr>)"

definition MaxFuseArgs :: nat where "MaxFuseArgs = 32"

definition PUSHARG :: "bytes \<Rightarrow> (cmd_args, unit) io" where
  "PUSHARG arg =
     io_bind (io_get (\<lambda>a. length (ar_fuseArgv a))) (\<lambda>fuseArgc.
     io_bind (rAssert (fuseArgc < MaxFuseArgs) ''fuseArgc'') (\<lambda>_.
     io_modify (\<lambda>a. a\<lparr>ar_fuseArgv := ar_fuseArgv a @ [Some arg]\<rparr>)))"

definition PUSHARGS :: "string \<Rightarrow> bytes \<Rightarrow> (cmd_args, unit) io" where
  "PUSHARGS x y = io_bind (PUSHARG (str x)) (\<lambda>_. PUSHARG y)"

text \<open>The last character of an empty string is read from outside of it.\<close>

definition slashTerminate :: "bytes \<Rightarrow> exn + bytes" where
  "slashTerminate src =
     (if src = [] then Inl (Fatal ''string index out of range'')
      else Inr (if last src \<noteq> slash then src @ [slash] else src))"

definition isAbsolutePath :: "bytes \<Rightarrow> bool" where
  "isAbsolutePath fileName = (fileName \<noteq> [] \<and> hd fileName = slash)"

definition lastPathElement :: "bytes \<Rightarrow> bytes" where
  "lastPathElement name = rev (takeWhile (\<lambda>b. b \<noteq> slash) (rev name))"

text \<open>\<open>mk\<close>: the directories the system lets us make.\<close>

definition userAllowMkdir :: "(bytes \<Rightarrow> bool) \<Rightarrow> bytes \<Rightarrow> (cmd_args, bool) io" where
  "userAllowMkdir mk path a =
     (case fgets 10 (ar_stdin a) of (res, inp) \<Rightarrow>
      let a = a\<lparr>ar_stdin := inp\<rparr> in
      if res \<noteq> None \<and> the res \<noteq> [] \<and> toupper (hd (the res)) = of_char (CHR ''Y'') then
        if mk path then (Inr True, a\<lparr>ar_dirs := (ar_dirs a)(path := True)\<rparr>) else (Inr False, a)
      else (Inr False, a))"

text \<open>One round of the loop; \<open>root\<close> says that the program runs as the super user.\<close>

definition process_option :: "bool \<Rightarrow> int \<times> bytes \<Rightarrow> (cmd_args, unit) io" where
  "process_option root = (\<lambda>(res, optarg).
     if res = oc (CHR ''1'') then opt_mod (\<lambda>op. op\<lparr>opt_configMode := Config_Standard\<rparr>)
     else if res = oc (CHR ''2'') then opt_mod (\<lambda>op. op\<lparr>opt_configMode := Config_Paranoia\<rparr>)
     else if res = oc (CHR ''s'') then io_modify (\<lambda>a. a\<lparr>ar_isThreaded := False\<rparr>)
     else if res = oc (CHR ''S'') then opt_mod (\<lambda>op. op\<lparr>opt_useStdin := True\<rparr>)
     else if res = oc (CHR ''t'') then io_modify (\<lambda>a. a\<lparr>ar_syslogTag := optarg\<rparr>)
     else if res = LONG_OPT_ANNOTATE then opt_mod (\<lambda>op. op\<lparr>opt_annotate := True\<rparr>)
     else if res = LONG_OPT_REQUIRE_MAC then opt_mod (\<lambda>op. op\<lparr>opt_requireMac := True\<rparr>)
     else if res = LONG_OPT_INSECURE then opt_mod (\<lambda>op. op\<lparr>opt_insecure := True\<rparr>)
     else if res = oc (CHR ''c'') then opt_mod (\<lambda>op. op\<lparr>opt_config := optarg\<rparr>)
     else if res = oc (CHR ''u'') then
       io_modify (\<lambda>a. a\<lparr>ar_isDaemon := False, ar_opts := (ar_opts a)\<lparr>opt_unmount := True\<rparr>\<rparr>)
     else if res = oc (CHR ''f'') then
       io_bind (io_modify (\<lambda>a. a\<lparr>ar_isDaemon := False\<rparr>)) (\<lambda>_. PUSHARG (str ''-f''))
     else if res = oc (CHR ''v'') then io_modify (\<lambda>a. a\<lparr>ar_isVerbose := True\<rparr>)
     else if res = oc (CHR ''d'') then PUSHARG (str ''-d'')
     else if res = oc (CHR ''i'') then
       io_modify (\<lambda>a. a\<lparr>ar_idleTimeout := to_int32 (fst (strtol optarg)), ar_opts := (ar_opts a)\<lparr>opt_idleTracking := True\<rparr>\<rparr>)
     else if res = oc (CHR ''k'') then opt_mod (\<lambda>op. op\<lparr>opt_checkKey := False\<rparr>)
     else if res = oc (CHR ''D'') then opt_mod (\<lambda>op. op\<lparr>opt_forceDecode := True\<rparr>)
     else if res = oc (CHR ''r'') then opt_mod (\<lambda>op. op\<lparr>opt_reverseEncryption := True, opt_readOnly := True\<rparr>)
     else if res = oc (CHR ''R'') then opt_mod (\<lambda>op. op\<lparr>opt_reverseEncryption := True, opt_readOnly := False\<rparr>)
     else if res = LONG_OPT_NOCACHE then
       io_bind (opt_mod (\<lambda>op. op\<lparr>opt_noCache := True\<rparr>)) (\<lambda>_. PUSHARGS ''-oattr_timeout=0'' (str ''-oentry_timeout=0''))
     else if res = LONG_OPT_NODATACACHE then opt_mod (\<lambda>op. op\<lparr>opt_noCache := True\<rparr>)
     else if res = LONG_OPT_NOATTRCACHE then PUSHARGS ''-oattr_timeout=0'' (str ''-oentry_timeout=0'')
     else if res = oc (CHR ''m'') then opt_mod (\<lambda>op. op\<lparr>opt_mountOnDemand := True\<rparr>)
     else if res = oc (CHR ''M'') then opt_mod (\<lambda>op. op\<lparr>opt_delayMount := True\<rparr>)
     else if res = oc (CHR ''N'') then io_modify (\<lambda>a. a\<lparr>ar_useDefaultFlags := False\<rparr>)
     else if res = oc (CHR ''o'') then PUSHARGS ''-o'' optarg
     else if res = oc (CHR ''p'') then opt_mod (\<lambda>op. op\<lparr>opt_passwordProgram := optarg\<rparr>)
     else if res = oc (CHR ''P'') then
       (if \<not> root then io_return ()
        else io_bind (opt_mod (\<lambda>op. op\<lparr>opt_ownerCreate := True\<rparr>)) (\<lambda>_. PUSHARGS ''-o'' (str ''allow_other'')))
     else if res = oc (CHR ''V'') \<or> res = oc (CHR ''H'') then io_throw (Fatal ''exit'')
     else io_return ())"

fun io_each :: "('a \<Rightarrow> ('s, unit) io) \<Rightarrow> 'a list \<Rightarrow> ('s, unit) io" where
  "io_each f [] = io_return ()"
| "io_each f (x # xs) = io_bind (f x) (\<lambda>_. io_each f xs)"

definition set_defaults :: "bytes \<Rightarrow> cmd_args \<Rightarrow> cmd_args" where
  "set_defaults prog a = a\<lparr>ar_isDaemon := True, ar_isThreaded := True, ar_isVerbose := False, ar_idleTimeout := 0,
     ar_fuseArgv := [Some (lastPathElement prog), None], ar_syslogTag := str ''encfs'', ar_useDefaultFlags := True,
     ar_opts := (ar_opts a)\<lparr>opt_idleTracking := False, opt_checkKey := True, opt_forceDecode := False, opt_ownerCreate := False,
       opt_useStdin := False, opt_annotate := False, opt_reverseEncryption := False, opt_requireMac := False,
       opt_insecure := False, opt_unmount := False\<rparr>\<rparr>"

text \<open>The checks behind the options, and the mount point among the arguments for FUSE.\<close>

definition check_args :: "(bytes \<Rightarrow> bool) \<Rightarrow> (cmd_args, bool) io" where
  "check_args mk =
     io_bind (io_get (\<lambda>a. a)) (\<lambda>a.
     let op = ar_opts a in
     if ar_isDaemon a \<and> (\<not> isAbsolutePath (opt_mountPoint op) \<or> \<not> isAbsolutePath (opt_rootDir op)) then io_return False
     else if opt_mountPoint op = take (length (opt_mountPoint op)) (opt_rootDir op) then io_return False
     else if opt_delayMount op \<and> \<not> opt_mountOnDemand op then io_return False
     else if opt_mountOnDemand op \<and> opt_passwordProgram op = [] then io_return False
     else
     io_bind (if ar_dirs a (opt_rootDir op) then io_return True else userAllowMkdir mk (opt_rootDir op)) (\<lambda>ok.
     if \<not> ok then io_return False else
     io_bind (io_get (\<lambda>a. ar_dirs a (opt_mountPoint op))) (\<lambda>found.
     io_bind (if found then io_return True else userAllowMkdir mk (opt_mountPoint op)) (\<lambda>ok.
     if \<not> ok then io_return False else
     io_bind (io_modify (\<lambda>a. a\<lparr>ar_fuseArgv := (ar_fuseArgv a)[1 := Some (opt_mountPoint op)]\<rparr>)) (\<lambda>_.
     io_return True)))))"

text \<open>The end of \<open>processArgs\<close> for a mount.\<close>

definition mount_args :: "(bytes \<Rightarrow> bool) \<Rightarrow> bytes \<Rightarrow> bytes \<Rightarrow> bytes list \<Rightarrow> (cmd_args, bool) io" where
  "mount_args mk rootDir point extra =
     io_bind (io_of (slashTerminate rootDir)) (\<lambda>rootDir.
     io_bind (opt_mod (\<lambda>op. op\<lparr>opt_rootDir := rootDir, opt_unmountPoint := point\<rparr>)) (\<lambda>_.
     io_bind (io_of (slashTerminate point)) (\<lambda>mountPoint.
     io_bind (opt_mod (\<lambda>op. op\<lparr>opt_mountPoint := mountPoint\<rparr>)) (\<lambda>_.
     io_bind (io_each PUSHARG extra) (\<lambda>_.
     io_bind (io_get ar_useDefaultFlags) (\<lambda>useDefaultFlags.
     io_bind (if useDefaultFlags
              then io_bind (PUSHARGS ''-o'' (str ''use_ino'')) (\<lambda>_. PUSHARGS ''-o'' (str ''default_permissions''))
              else io_return ()) (\<lambda>_.
     check_args mk)))))))"

definition processArgs :: "bool \<Rightarrow> (bytes \<Rightarrow> bool) \<Rightarrow> bytes \<Rightarrow> bytes list \<Rightarrow> (cmd_args, bool) io" where
  "processArgs root mk prog argv =
     (case getopt_args argv of (options, args) \<Rightarrow>
     io_bind (io_modify (set_defaults prog)) (\<lambda>_.
     io_bind (io_each (process_option root) options) (\<lambda>_.
     io_bind (io_get ar_isThreaded) (\<lambda>isThreaded.
     io_bind (if \<not> isThreaded then PUSHARG (str ''-s'') else io_return ()) (\<lambda>_.
     io_bind (io_get (\<lambda>a. opt_unmount (ar_opts a))) (\<lambda>unmount.
     if unmount then
       (case args of
          [point] \<Rightarrow> io_bind (opt_mod (\<lambda>op. op\<lparr>opt_unmountPoint := point\<rparr>)) (\<lambda>_. io_return True)
        | _ \<Rightarrow> io_return False)
     else (case args of rootDir # point # extra \<Rightarrow> mount_args mk rootDir point extra | _ \<Rightarrow> io_return False)))))))"

section \<open>Accepted arguments\<close>

text \<open>What holds while the options are processed: the arguments for FUSE fit, and only the place of the mount point is free.\<close>

definition args_ok :: "cmd_args \<Rightarrow> bool" where
  "args_ok a = (length (ar_fuseArgv a) \<le> MaxFuseArgs \<and>
     (\<exists>p rest. ar_fuseArgv a = Some p # None # map Some rest) \<and>
     (opt_readOnly (ar_opts a) \<longrightarrow> opt_reverseEncryption (ar_opts a)))"

lemma push_ok: "gives args_ok (PUSHARG x) (\<lambda>_. True)"
proof -
  have "\<exists>rest'. map Some rest @ [Some x] = map Some rest'" for rest :: "bytes list"
    by (rule exI [of _ "rest @ [x]"]) simp
  then show ?thesis
    by (auto simp: gives_def PUSHARG_def io_bind_split io_simps args_ok_def rAssert_def)
qed

lemma pushes_ok: "gives args_ok (PUSHARGS x y) (\<lambda>_. True)"
  unfolding PUSHARGS_def by (rule gives_bind [OF push_ok push_ok])

lemma push_opts: "gives (\<lambda>a. ar_opts a = op) (PUSHARG x) (\<lambda>_. True)"
  by (auto simp: gives_def PUSHARG_def io_bind_split io_simps rAssert_def)

lemma pushes_opts: "gives (\<lambda>a. ar_opts a = op) (PUSHARGS x y) (\<lambda>_. True)"
  unfolding PUSHARGS_def by (rule gives_bind [OF push_opts push_opts])

lemma gives_each: "(\<And>x. gives P (f x) (\<lambda>_. True)) \<Longrightarrow> gives P (io_each f xs) (\<lambda>_. True)"
  by (induction xs) (auto intro: gives_return gives_bind)

lemma process_option_ok: "gives args_ok (process_option root ev) (\<lambda>_. True)"
proof -
  obtain res optarg where ev: "ev = (res, optarg)" by fastforce
  show ?thesis
    unfolding process_option_def ev prod.case
    by (intro gives_if gives_bind [where R = "\<lambda>_. True"] push_ok pushes_ok gives_return gives_throw gives_modify TrueI)
      (simp_all add: args_ok_def)
qed

text \<open>What the checks guarantee of the arguments they accept.\<close>

definition accepted :: "cmd_args \<Rightarrow> bool" where
  "accepted a =
     (let op = ar_opts a; r = opt_rootDir op; m = opt_mountPoint op in
      (\<exists>p rest. ar_fuseArgv a = Some p # Some m # map Some rest) \<and> length (ar_fuseArgv a) \<le> MaxFuseArgs \<and>
      r \<noteq> [] \<and> last r = slash \<and> m \<noteq> [] \<and> last m = slash \<and> ar_dirs a r \<and> ar_dirs a m \<and>
      (\<forall>sub. r \<noteq> m @ sub) \<and>
      (ar_isDaemon a \<longrightarrow> isAbsolutePath r \<and> isAbsolutePath m) \<and>
      (opt_delayMount op \<longrightarrow> opt_mountOnDemand op) \<and> (opt_mountOnDemand op \<longrightarrow> opt_passwordProgram op \<noteq> []) \<and>
      (opt_readOnly op \<longrightarrow> opt_reverseEncryption op))"

lemma ensure_dir:
  assumes "(if ar_dirs a p then io_return True else userAllowMkdir mk p) a = (Inr True, a')"
  shows "\<exists>inp d. a' = a\<lparr>ar_stdin := inp, ar_dirs := d\<rparr> \<and> d p \<and> (\<forall>q. ar_dirs a q \<longrightarrow> d q)"
proof (cases "ar_dirs a p")
  case True
  then show ?thesis using assms by (intro exI [of _ "ar_stdin a"] exI [of _ "ar_dirs a"]) (simp add: io_simps)
next
  case False
  obtain res inp where "fgets 10 (ar_stdin a) = (res, inp)" by fastforce
  with False show ?thesis using assms
    by (intro exI [of _ inp] exI [of _ "(ar_dirs a)(p := True)"]) (auto simp: userAllowMkdir_def Let_def split: if_splits)
qed

lemma check_accepts:
  assumes "check_args mk a = (Inr True, a')" "args_ok a"
    and "opt_rootDir (ar_opts a) \<noteq> []" "last (opt_rootDir (ar_opts a)) = slash"
    "opt_mountPoint (ar_opts a) \<noteq> []" "last (opt_mountPoint (ar_opts a)) = slash"
  shows "accepted a' \<and> ar_opts a' = ar_opts a"
proof -
  let ?op = "ar_opts a"
  obtain a1 a2 where checks: "\<not> (ar_isDaemon a \<and> (\<not> isAbsolutePath (opt_mountPoint ?op) \<or> \<not> isAbsolutePath (opt_rootDir ?op)))"
    "opt_mountPoint ?op \<noteq> take (length (opt_mountPoint ?op)) (opt_rootDir ?op)"
    "\<not> (opt_delayMount ?op \<and> \<not> opt_mountOnDemand ?op)" "\<not> (opt_mountOnDemand ?op \<and> opt_passwordProgram ?op = [])"
    and a1: "(if ar_dirs a (opt_rootDir ?op) then io_return True else userAllowMkdir mk (opt_rootDir ?op)) a = (Inr True, a1)"
    and a2: "(if ar_dirs a1 (opt_mountPoint ?op) then io_return True else userAllowMkdir mk (opt_mountPoint ?op)) a1 = (Inr True, a2)"
    and a': "a' = a2\<lparr>ar_fuseArgv := (ar_fuseArgv a2)[1 := Some (opt_mountPoint ?op)]\<rparr>"
    using assms(1) unfolding check_args_def Let_def
    by (auto simp: io_simps elim!: bindE split: if_splits)
  show ?thesis using ensure_dir [OF a1] ensure_dir [OF a2] checks assms(2-6)
    by (auto simp: a' accepted_def args_ok_def Let_def)
qed

lemma slashTerminate_ends: "slashTerminate p = Inr q \<Longrightarrow> q \<noteq> [] \<and> last q = slash"
  by (auto simp: slashTerminate_def split: if_splits)

lemma mount_args_accepts:
  assumes "mount_args mk rootDir point extra a = (Inr True, a')" "args_ok a"
  shows "accepted a' \<and> opt_unmount (ar_opts a') = opt_unmount (ar_opts a)"
proof -
  let ?flags = "\<lambda>b. if b then io_bind (PUSHARGS ''-o'' (str ''use_ino'')) (\<lambda>_. PUSHARGS ''-o'' (str ''default_permissions'')) else io_return ()"
  obtain r m a2 a3 where r: "slashTerminate rootDir = Inr r" "slashTerminate point = Inr m"
    and a2: "io_each PUSHARG extra (a\<lparr>ar_opts := (ar_opts a)\<lparr>opt_rootDir := r, opt_unmountPoint := point, opt_mountPoint := m\<rparr>\<rparr>) = (Inr (), a2)"
    and a3: "?flags (ar_useDefaultFlags a2) a2 = (Inr (), a3)" and c: "check_args mk a3 = (Inr True, a')"
    using assms(1) unfolding mount_args_def by (auto simp: io_simps io_of_def elim!: bindE split: sum.splits)
  let ?op = "(ar_opts a)\<lparr>opt_rootDir := r, opt_unmountPoint := point, opt_mountPoint := m\<rparr>"
  have "args_ok (a\<lparr>ar_opts := ?op\<rparr>)" using assms(2) by (simp add: args_ok_def)
  then have 2: "args_ok a2" "ar_opts a2 = ?op"
    using givesD [OF gives_each [OF push_ok] _ a2] givesD [OF gives_each [OF push_opts] _ a2, of ?op] by simp_all
  have "gives args_ok (?flags b) (\<lambda>_. True)" "gives (\<lambda>a. ar_opts a = ?op) (?flags b) (\<lambda>_. True)" for b
    by (auto intro!: gives_return gives_bind [OF pushes_ok] gives_bind [OF pushes_opts] pushes_ok pushes_opts)
  from givesD [OF this(1) 2(1) a3] givesD [OF this(2) 2(2) a3] have "args_ok a3" "ar_opts a3 = ?op" by simp_all
  then show ?thesis using check_accepts [OF c] slashTerminate_ends [OF r(1)] slashTerminate_ends [OF r(2)] by simp
qed

text \<open>
  Claim C22. When \<open>processArgs\<close> accepts the command line of a mount, what the rest of the program relies on holds:
  both directories exist and end in a slash, the raw directory is not below the mount point (nor the same), a
  daemon has absolute paths, a delayed mount is one on demand and one on demand has a password program, and a
  read-only volume is a reverse one. FUSE gets at most 32 arguments, the second of them the mount point, and no
  null pointer. When it accepts the command line of an unmount, there was exactly one argument.
\<close>

theorem processArgs_accepts:
  assumes "processArgs root mk prog argv a = (Inr True, a')" "ar_opts a = EncFS_Opts"
  shows "if opt_unmount (ar_opts a') then snd (getopt_args argv) = [opt_unmountPoint (ar_opts a')] else accepted a'"
proof -
  obtain options args where go: "getopt_args argv = (options, args)" by fastforce
  have start: "args_ok (set_defaults prog a)"
    using assms(2) by (simp add: args_ok_def set_defaults_def EncFS_Opts_def MaxFuseArgs_def)
  obtain a1 a2 where a1: "io_each (process_option root) options (set_defaults prog a) = (Inr (), a1)"
    and a2: "(if \<not> ar_isThreaded a1 then PUSHARG (str ''-s'') else io_return ()) a1 = (Inr (), a2)"
    and rest: "(if opt_unmount (ar_opts a2) then
         (case args of [point] \<Rightarrow> io_bind (opt_mod (\<lambda>op. op\<lparr>opt_unmountPoint := point\<rparr>)) (\<lambda>_. io_return True) | _ \<Rightarrow> io_return False)
       else (case args of rootDir # point # extra \<Rightarrow> mount_args mk rootDir point extra | _ \<Rightarrow> io_return False)) a2 = (Inr True, a')"
    using assms(1) unfolding processArgs_def go prod.case by (auto simp: io_simps elim!: bindE)
  have ok1: "args_ok a1" using givesD [OF gives_each [OF process_option_ok] start a1] by simp
  then have ok2: "args_ok a2" using a2 givesD [OF push_ok ok1] by (auto simp: io_simps split: if_splits)
  show ?thesis
    using rest mount_args_accepts [OF _ ok2]
    by (auto simp: go io_simps elim!: bindE split: if_splits list.splits)
qed


text \<open>A new state, as \<open>EncFS_Args\<close> is constructed; the standard input answers \<open>y\<close> once.\<close>

definition demo_args :: "bytes list \<Rightarrow> cmd_args" where
  "demo_args dirs =
     \<lparr>ar_isDaemon = False, ar_isThreaded = False, ar_isVerbose = False, ar_idleTimeout = 0, ar_fuseArgv = [], ar_syslogTag = [],
      ar_opts = EncFS_Opts, ar_useDefaultFlags = False, ar_stdin = str ''y'' @ [10], ar_dirs = (\<lambda>p. p \<in> set dirs)\<rparr>"

definition demo_argv :: "bytes list" where
  "demo_argv = [str ''-si'', str ''5'', str ''/raw'', str ''--reverse'', str ''--ext=pw'', str ''/mnt/'', str ''--'', str ''-x'']"

lemma demo_processed:
  "(case processArgs False (\<lambda>_. True) (str ''/bin/encfs'') demo_argv (demo_args [str ''/raw/'']) of
      (r, a) \<Rightarrow> (r, ar_fuseArgv a, ar_idleTimeout a, opt_readOnly (ar_opts a), opt_unmount (ar_opts a))) =
   (Inr True, map Some [str ''encfs'', str ''/mnt/'', str ''-s'', str ''-x'', str ''-o'', str ''use_ino'', str ''-o'', str ''default_permissions''],
      5, True, False)"
  by code_simp

theorem processArgs_accepts_witness:
  "\<exists>a. processArgs False (\<lambda>_. True) (str ''/bin/encfs'') demo_argv (demo_args [str ''/raw/'']) = (Inr True, a) \<and> accepted a"
proof -
  obtain a where a: "processArgs False (\<lambda>_. True) (str ''/bin/encfs'') demo_argv (demo_args [str ''/raw/'']) = (Inr True, a)"
      "\<not> opt_unmount (ar_opts a)"
    using demo_processed by (auto split: prod.splits)
  have "ar_opts (demo_args [str ''/raw/'']) = EncFS_Opts" by (simp add: demo_args_def)
  then show ?thesis using processArgs_accepts [OF a(1)] a by auto
qed

text \<open>
  The long form of the option for unmounting takes an argument, the short one does not: the mount point behind
  \<^verbatim>\<open>--unmount\<close> is swallowed and the command line refused, while \<^verbatim>\<open>-u\<close> works.
\<close>

lemma unmount_options:
  "getopt_args [str ''--unmount'', point] = ([(oc (CHR ''u''), point)], [])"
  "getopt_args [str ''-u'', str ''/mnt''] = ([(oc (CHR ''u''), [])], [str ''/mnt''])"
proof -
  have "find_long (str ''unmount'') = Some (True, oc (CHR ''u''))" by code_simp
  moreover have "drop 2 (str ''--unmount'') = str ''unmount''" "take 2 (str ''--unmount'') = [dash, dash]"
      "str ''--unmount'' \<noteq> [dash, dash]" "takeWhile (\<lambda>b. b \<noteq> of_char (CHR ''='')) (str ''unmount'') = str ''unmount''"
    by (simp_all add: str_def)
  ultimately show "getopt_args [str ''--unmount'', point] = ([(oc (CHR ''u''), point)], [])"
    by (simp add: getopt_long_def Let_def takeWhile_eq_all_conv [THEN iffD2])
  show "getopt_args [str ''-u'', str ''/mnt''] = ([(oc (CHR ''u''), [])], [str ''/mnt''])" by code_simp
qed

lemma long_unmount_refused: "\<exists>a'. processArgs root mk prog [str ''--unmount'', point] a = (Inr False, a')"
  using unmount_options(1)
  by (simp add: processArgs_def io_bind_split io_simps process_option_def oc_def LONG_OPT set_defaults_def)

end
