(* ===== verification/Spec2Isabelle.thy ===== *)
theory Spec2Isabelle
  imports Read_Only Listing Control_Tool Command_Line
begin

text \<open>
  EncFS: an encrypted file system in user space.

  \<^bold>\<open>The program\<close> (\<^verbatim>\<open>src/encfs\<close>). \<^verbatim>\<open>encfs\<close> reads its command line, finds or creates the description
  of a volume in the raw directory, gets the volume key out of it with a password, and serves the requests of
  FUSE: every path is encoded name by name, every file is read and written through a stack of objects that
  encrypt and authenticate it block by block. \<^verbatim>\<open>encfsctl\<close> inspects a volume and changes its password.

  \<^bold>\<open>Conventions\<close> (\<open>Encfs_Prelude\<close>). A member function that may throw and may change its object is a value
  of the type \<open>io\<close>: it takes the state and gives a result or an exception, and the state afterwards in both cases.
  Bytes, 32 and 64 bit numbers are words. \<open>Error\<close> is \<open>encfs::Error\<close>, \<open>Fatal\<close> ends the process or is undefined
  behaviour, \<open>Diverged\<close> is a loop that does not end. OpenSSL, the system calls, FUSE, the random numbers, the clock
  and tinyxml2 are parameters; what is assumed of them is written in locales and hypotheses.

  \<^bold>\<open>Theories and sources\<close>

  \<^item> \<open>Base64\<close>: \<^verbatim>\<open>base64.cpp\<close>. Round trips of both file-name alphabets and of the standard alphabet; the
    recursive change of base against the buffered one.
  \<^item> \<open>Versioning\<close>: \<^verbatim>\<open>Interface.cpp\<close>, \<^verbatim>\<open>Range.h\<close>. The order of interfaces, the window of versions that one
    implements, every outcome of \<open>closest\<close>.
  \<^item> \<open>Config_Var\<close>: \<^verbatim>\<open>ConfigVar.cpp\<close>, \<^verbatim>\<open>ConfigReader.cpp\<close>; \<open>Volume_Config\<close>: \<^verbatim>\<open>FSConfig.h\<close> and the
    formats 4 and 5, \<open>readConfig\<close> and \<open>saveConfig\<close> of \<^verbatim>\<open>FileUtils.cpp\<close>; \<open>Xml_Config\<close>: \<^verbatim>\<open>XmlReader.cpp\<close> and format 6.
    A description that was saved is found and read back.
  \<^item> \<open>Cipher_Core\<close>: \<^verbatim>\<open>Cipher.cpp\<close>, \<^verbatim>\<open>NullCipher.cpp\<close>, with the contract \<open>block_codec\<close> of a block coder;
    \<open>SSL_Cipher\<close>: \<^verbatim>\<open>SSL_Cipher.cpp\<close> over the laws \<open>openssl_laws\<close>. Coding and decoding are inverse, wrapped keys
    come back and their checksum is tested, derivation is reproducible and its calibration ends.
  \<^item> \<open>File_IO\<close>: \<^verbatim>\<open>FileIO.h\<close> and the contract \<open>byte_file\<close>: a file answers as a flat string of bytes.
    \<open>Raw_File_IO\<close>, \<open>Block_File_IO\<close>, \<open>Cipher_File_IO\<close>, \<open>MAC_File_IO\<close>: the classes of these names. Each layer gives
    \<open>byte_file\<close> (or the block device \<open>block_device\<close>) when the one below does; the sublocales chain them.
    \<open>File_Stack\<close> puts the layers together: any sequence of reads, writes and size queries on an encrypted,
    and on an authenticated file is answered as by a flat string, across sessions and after a rename.
  \<^item> \<open>Name_IO\<close>: \<^verbatim>\<open>NameIO.cpp\<close> and the codings \<^verbatim>\<open>NullNameIO.cpp\<close>, \<^verbatim>\<open>StreamNameIO.cpp\<close>,
    \<^verbatim>\<open>BlockNameIO.cpp\<close>. Paths come back, with and without chained vectors; block names are authentic.
  \<^item> \<open>Open_Files\<close>: \<^verbatim>\<open>Context.cpp\<close> and the idle monitor of \<^verbatim>\<open>main.cpp\<close>. An invariant of the table of open files
    in all reachable states, its refinement of a list of handles per path, and when the monitor unmounts.
  \<^item> \<open>File_Node\<close>: \<^verbatim>\<open>FileNode.cpp\<close>; \<open>Dir_Node\<close>: \<^verbatim>\<open>DirNode.cpp\<close>. A rename that fails leaves the names on
    disk, the table and the open nodes as they were; targets of links come back.
  \<^item> \<open>Fuse_Ops\<close>: \<^verbatim>\<open>encfs.cpp\<close> and the table of handlers in \<^verbatim>\<open>main.cpp\<close>. Which errors reach the caller.
    \<open>Read_Only\<close>: no sequence of requests changes a volume that is mounted read-only. \<open>Listing\<close>: a listing shows
    the plain names of exactly the entries whose encoded paths lie in the directory.
  \<^item> \<open>Volume_Setup\<close>: \<open>createV6Config\<close>, \<open>initFS\<close> and the keys from passwords in \<^verbatim>\<open>FileUtils.cpp\<close>, and
    \<^verbatim>\<open>readpassphrase.cpp\<close>. \<open>New_Volume\<close>: whatever is answered, a new volume has parameters that fit each other
    and its file nodes can be constructed; with the same password it is opened again with the same key.
  \<^item> \<open>Control_Tool\<close>: \<^verbatim>\<open>encfsctl.cpp\<close> as far as it works on configurations and names. After a change of
    the password the new one opens the volume with its old key; a failing change touches no file.
  \<^item> \<open>Command_Line\<close>: \<open>processArgs\<close> of \<^verbatim>\<open>main.cpp\<close>. What an accepted command line guarantees.

  \<^bold>\<open>How the components meet\<close>. \<open>FileNode_new\<close> builds the stack of a file from the configuration, as the
  constructor does: \<open>CipherFileIO\<close> above \<open>RawFileIO\<close>, and \<open>MACFileIO\<close> above it when blocks have headers.
  \<open>DirNode\<close> codes paths with \<open>NameIO\<close>, finds nodes in the table of the context and renames them there and on disk. The handlers call
  both. \<open>initFS\<close> joins the configuration, the cipher and the name coding to a \<open>DirNode\<close>.

  \<^bold>\<open>Bounds\<close>. \<open>Range::closest\<close> may not return: it is a partial function and its outcomes are proved. The loop
  that draws a vector until it is not zero has the bound \<open>ce_tries\<close>; the stack assumes that a draw within it succeeds, which
  one that is not zero does. \<open>TimedPBKDF2\<close> has fuel, and returns with any fuel that reaches a run that takes long
  enough. \<open>getRoot\<close> is shown to need two rounds. The depth of the directories that a rename visits is an
  argument; running out of it is \<open>Diverged\<close>, not a result. The dialogues that would ask for ever when the input
  has ended are \<open>Diverged\<close> there. Every other loop is recursion that is proved to end.

  \<^bold>\<open>Not modelled\<close>. Threads: the operations are atomic, as under the mutex of their object. Memory: leaks, wiping
  and \<open>MemoryPool\<close>. The texts for the user, logging, help and their translation. The processes of a password
  program and the signals of \<open>readpassphrase\<close>. The commands of \<^verbatim>\<open>encfsctl\<close> that print or copy files (\<^verbatim>\<open>ls\<close>, \<^verbatim>\<open>cat\<close>,
  \<^verbatim>\<open>export\<close>, \<^verbatim>\<open>showcruft\<close>), \<^verbatim>\<open>makeKey.cpp\<close>, the rest of \<open>main\<close>, the tests, and the libraries under
  \<^verbatim>\<open>vendor\<close> and \<^verbatim>\<open>intl\<close>. Of the platform variants the Linux one is modelled.
\<close>

end
